(* ===== verification/Prelude.thy ===== *)
theory Prelude
  imports Main "HOL-Library.Word"
begin

text \<open>
  Shared vocabulary of the development: bytes and byte strings, the outcome of a Rust
  computation (\<open>Ok\<close>, \<open>Err\<close> or a panic), checked slicing, and the generic list and
  outcome lemmas every component uses.

  A Rust \<open>u8\<close> is an Isabelle \<^typ>\<open>char\<close> (both have exactly 256 values), so a byte
  buffer (\<open>&[u8]\<close>, \<open>Bytes\<close>, \<open>Vec<u8>\<close>) is a \<^typ>\<open>char list\<close>, and so is the UTF-8
  contents of a Rust \<open>String\<close>. Lengths and offsets (\<open>usize\<close>) are \<^typ>\<open>nat\<close>.
\<close>

type_synonym u8 = char
type_synonym bytes = "char list"

abbreviation CR :: u8 where "CR \<equiv> CHR 0x0D"
abbreviation LF :: u8 where "LF \<equiv> CHR 0x0A"
abbreviation crlf :: bytes where "crlf \<equiv> [CR, LF]"

section \<open>Outcomes\<close>

text \<open>
  The value of a Rust expression of type \<open>Result<T, E>\<close>, or the abort of the process:
  the release profile of the crate sets \<open>panic = "abort"\<close>, so a panic is not caught.
\<close>

datatype ('e, 'a) result = Ok 'a | Err 'e | Panic

text \<open>The question-mark operator: continue on \<open>Ok\<close>, propagate everything else.\<close>

fun and_then :: "('e, 'a) result \<Rightarrow> ('a \<Rightarrow> ('e, 'b) result) \<Rightarrow> ('e, 'b) result" where
  "and_then (Ok x) f = f x"
| "and_then (Err e) f = Err e"
| "and_then Panic f = Panic"

fun map_err :: "('e \<Rightarrow> 'f) \<Rightarrow> ('e, 'a) result \<Rightarrow> ('f, 'a) result" where
  "map_err g (Ok x) = Ok x"
| "map_err g (Err e) = Err (g e)"
| "map_err g Panic = Panic"

definition ok_or :: "'e \<Rightarrow> 'a option \<Rightarrow> ('e, 'a) result" where
  "ok_or e x = (case x of Some a \<Rightarrow> Ok a | None \<Rightarrow> Err e)"

definition unwrap_or :: "'a \<Rightarrow> 'a option \<Rightarrow> 'a" where
  "unwrap_or d x = (case x of Some a \<Rightarrow> a | None \<Rightarrow> d)"

fun is_ok :: "('e, 'a) result \<Rightarrow> bool" where
  "is_ok (Ok x) = True"
| "is_ok (Err e) = False"
| "is_ok Panic = False"

lemma and_then_cong [fundef_cong]:
  "m = m' \<Longrightarrow> (\<And>x. m' = Ok x \<Longrightarrow> f x = g x) \<Longrightarrow> and_then m f = and_then m' g"
  by (cases m') auto

lemma and_then_eq_Ok: "and_then m f = Ok y \<longleftrightarrow> (\<exists>x. m = Ok x \<and> f x = Ok y)"
  by (cases m) auto

lemma and_then_eq_Err:
  "and_then m f = Err e \<longleftrightarrow> m = Err e \<or> (\<exists>x. m = Ok x \<and> f x = Err e)"
  by (cases m) auto

lemma and_then_eq_Panic:
  "and_then m f = Panic \<longleftrightarrow> m = Panic \<or> (\<exists>x. m = Ok x \<and> f x = Panic)"
  by (cases m) auto

lemma and_then_OkE:
  assumes "and_then m f = Ok y"
  obtains x where "m = Ok x" "f x = Ok y"
  using assms by (auto simp: and_then_eq_Ok)

lemma and_then_assoc:
  "and_then (and_then m f) g = and_then m (\<lambda>x. and_then (f x) g)"
  by (cases m) auto

lemma and_then_Ok_right [simp]: "and_then m Ok = m"
  by (cases m) auto

lemma map_err_eq_Ok [simp]: "map_err g m = Ok x \<longleftrightarrow> m = Ok x"
  by (cases m) auto

lemma map_err_eq_Panic [simp]: "map_err g m = Panic \<longleftrightarrow> m = Panic"
  by (cases m) auto

lemma map_err_eq_Err: "map_err g m = Err e \<longleftrightarrow> (\<exists>e'. m = Err e' \<and> e = g e')"
  by (cases m) auto

lemma ok_or_eq_Ok [simp]: "ok_or e x = Ok a \<longleftrightarrow> x = Some a"
  by (cases x) (auto simp: ok_or_def)

lemma ok_or_not_Panic [simp]: "ok_or e x \<noteq> Panic"
  by (cases x) (auto simp: ok_or_def)

lemma ok_or_simps [simp]: "ok_or e (Some a) = Ok a" "ok_or e None = Err e"
  by (simp_all add: ok_or_def)

lemma unwrap_or_simps [simp]: "unwrap_or d (Some a) = a" "unwrap_or d None = d"
  by (simp_all add: unwrap_or_def)

lemmas and_then_eqs = and_then_eq_Ok and_then_eq_Err and_then_eq_Panic

section \<open>Slices\<close>

text \<open>
  \<open>&buf[n..]\<close> and \<open>&buf[a..b]\<close> panic when the bounds are out of range. The models keep
  that branch wherever the bounds are not checked on the line before.
\<close>

definition slice_from :: "'a list \<Rightarrow> nat \<Rightarrow> ('e, 'a list) result" where
  "slice_from buf n = (if n \<le> length buf then Ok (drop n buf) else Panic)"

definition slice_range :: "'a list \<Rightarrow> nat \<Rightarrow> nat \<Rightarrow> ('e, 'a list) result" where
  "slice_range buf a b = (if a \<le> b \<and> b \<le> length buf then Ok (take (b - a) (drop a buf)) else Panic)"

lemma slice_from_ok [simp]: "n \<le> length buf \<Longrightarrow> slice_from buf n = Ok (drop n buf)"
  by (simp add: slice_from_def)

lemma slice_from_eq_Ok: "slice_from buf n = Ok x \<longleftrightarrow> n \<le> length buf \<and> x = drop n buf"
  by (auto simp: slice_from_def)

lemma slice_range_ok [simp]:
  "a \<le> b \<Longrightarrow> b \<le> length buf \<Longrightarrow> slice_range buf a b = Ok (take (b - a) (drop a buf))"
  by (simp add: slice_range_def)

lemma slice_range_eq_Ok:
  "slice_range buf a b = Ok x \<longleftrightarrow> a \<le> b \<and> b \<le> length buf \<and> x = take (b - a) (drop a buf)"
  by (auto simp: slice_range_def)

lemma slice_from_not_Err [simp]: "slice_from buf n \<noteq> Err e"
  by (simp add: slice_from_def)

lemma slice_range_not_Err [simp]: "slice_range buf a b \<noteq> Err e"
  by (simp add: slice_range_def)

lemma slice_range_take:
  "b \<le> n \<Longrightarrow> n \<le> length buf \<Longrightarrow> slice_range (take n buf) a b = slice_range buf a b"
  by (simp add: slice_range_def drop_take min_def)

section \<open>First position of a byte\<close>

text \<open>
  \<open>iter().position(|b| b == c)\<close>: the index of the first occurrence. It is also the
  documented result of \<open>memchr\<close>.
\<close>

fun position :: "'a \<Rightarrow> 'a list \<Rightarrow> nat option" where
  "position c [] = None"
| "position c (x # xs) = (if x = c then Some 0 else map_option Suc (position c xs))"

lemma position_eq_None: "position c xs = None \<longleftrightarrow> c \<notin> set xs"
  by (induction xs) auto

lemma position_Some:
  "position c xs = Some i \<Longrightarrow> i < length xs \<and> xs ! i = c \<and> c \<notin> set (take i xs)"
proof (induction xs arbitrary: i)
  case Nil
  then show ?case by simp
next
  case (Cons x xs)
  then show ?case by (cases i) (auto split: if_splits)
qed

lemma position_append:
  "position c (xs @ ys) =
     (case position c xs of Some i \<Rightarrow> Some i
      | None \<Rightarrow> map_option (\<lambda>j. length xs + j) (position c ys))"
proof (induction xs)
  case Nil
  then show ?case by (cases "position c ys") auto
next
  case (Cons x xs)
  then show ?case by (cases "position c ys") (auto split: option.splits)
qed

lemma position_append_left:
  "c \<notin> set xs \<Longrightarrow> position c (xs @ c # ys) = Some (length xs)"
  by (simp add: position_append position_eq_None split: option.splits)
     (metis position_eq_None option.distinct(1))

lemma position_Some_iff:
  "position c xs = Some i \<longleftrightarrow> i < length xs \<and> xs ! i = c \<and> c \<notin> set (take i xs)"
proof
  assume R: "i < length xs \<and> xs ! i = c \<and> c \<notin> set (take i xs)"
  then have "xs = take i xs @ c # drop (Suc i) xs"
    by (metis id_take_nth_drop)
  moreover have "length (take i xs) = i" using R by simp
  ultimately show "position c xs = Some i"
    using R position_append_left by metis
qed (rule position_Some)

section \<open>Lists\<close>

lemma take_drop_append_left:
  "n + k \<le> length xs \<Longrightarrow> take k (drop n (xs @ ys)) = take k (drop n xs)"
  by simp

lemma Cons_of_nth_0: "xs \<noteq> [] \<Longrightarrow> xs ! 0 = x \<Longrightarrow> xs = x # drop 1 xs"
  by (cases xs) auto

end
