(* ===== verification/Rust_Std.thy ===== *)
theory Rust_Std
  imports Prelude
begin

text \<open>
  The parts of Rust's core and standard library the crate calls: fixed-width integer
  arithmetic with its checked and wrapping variants, decimal and hexadecimal formatting,
  \<open>str::parse\<close> for integers, UTF-8 validation (\<open>from_utf8\<close>, \<open>from_utf8_lossy\<close>) and the
  \<open>str\<close> searching and splitting methods. All of them are executable.
\<close>

section \<open>64-bit signed integers\<close>

text \<open>
  An \<open>i64\<close> is its value, an \<^typ>\<open>int\<close> in the range below. Operators that can overflow are
  written with their checked form or their wrap-around (the release profile leaves
  overflow checks off, so a plain negation wraps).
\<close>

definition i64_min :: int where "i64_min = - (2 ^ 63)"
definition i64_max :: int where "i64_max = 2 ^ 63 - 1"

definition in_i64 :: "int \<Rightarrow> bool" where
  "in_i64 x \<longleftrightarrow> i64_min \<le> x \<and> x \<le> i64_max"

definition wrap_i64 :: "int \<Rightarrow> int" where
  "wrap_i64 x = (x + 2 ^ 63) mod 2 ^ 64 - 2 ^ 63"

definition checked_mul_i64 :: "int \<Rightarrow> int \<Rightarrow> int option" where
  "checked_mul_i64 a b = (if in_i64 (a * b) then Some (a * b) else None)"

definition checked_sub_i64 :: "int \<Rightarrow> int \<Rightarrow> int option" where
  "checked_sub_i64 a b = (if in_i64 (a - b) then Some (a - b) else None)"

definition wrapping_mul_i64 :: "int \<Rightarrow> int \<Rightarrow> int" where
  "wrapping_mul_i64 a b = wrap_i64 (a * b)"

definition wrapping_add_i64 :: "int \<Rightarrow> int \<Rightarrow> int" where
  "wrapping_add_i64 a b = wrap_i64 (a + b)"

lemmas i64_bounds = i64_min_def i64_max_def in_i64_def

lemma in_i64_wrap [simp]: "in_i64 (wrap_i64 x)"
  using pos_mod_bound [of "2 ^ 64 :: int" "x + 2 ^ 63"] pos_mod_sign [of "2 ^ 64 :: int" "x + 2 ^ 63"]
  by (simp add: i64_bounds wrap_i64_def)

lemma wrap_i64_id [simp]: "in_i64 x \<Longrightarrow> wrap_i64 x = x"
  by (simp add: i64_bounds wrap_i64_def)

lemma wrap_i64_min_neg: "wrap_i64 (- i64_min) = i64_min"
  by (simp add: i64_bounds wrap_i64_def)

lemma wrap_i64_add_wrap [simp]: "wrap_i64 (wrap_i64 a + b) = wrap_i64 (a + b)"
proof -
  have "((a + 2 ^ 63) mod 2 ^ 64 - 2 ^ 63 + b + 2 ^ 63) mod 2 ^ 64
      = ((a + 2 ^ 63) mod 2 ^ 64 + b) mod (2 ^ 64 :: int)"
    by (simp add: algebra_simps)
  also have "\<dots> = (a + 2 ^ 63 + b) mod 2 ^ 64" by (rule mod_add_left_eq)
  finally show ?thesis by (simp add: wrap_i64_def algebra_simps)
qed

lemma wrap_i64_cong_mod: "a mod 2 ^ 64 = b mod 2 ^ 64 \<Longrightarrow> wrap_i64 a = wrap_i64 b"
  unfolding wrap_i64_def by (metis mod_add_left_eq)

lemma wrap_i64_mod: "wrap_i64 a mod 2 ^ 64 = a mod 2 ^ 64"
proof -
  have "((a + 2 ^ 63) mod 2 ^ 64 - 2 ^ 63) mod 2 ^ 64 = (a + 2 ^ 63 - 2 ^ 63) mod (2 ^ 64 :: int)"
    by (rule mod_diff_left_eq)
  then show ?thesis by (simp add: wrap_i64_def)
qed

lemma wrap_i64_mult_wrap [simp]: "wrap_i64 (wrap_i64 a * b) = wrap_i64 (a * b)"
proof (rule wrap_i64_cong_mod)
  have "wrap_i64 a * b mod 2 ^ 64 = (wrap_i64 a mod 2 ^ 64) * b mod 2 ^ 64"
    by (simp only: mod_mult_left_eq)
  also have "\<dots> = a * b mod 2 ^ 64" by (simp only: wrap_i64_mod mod_mult_left_eq)
  finally show "wrap_i64 a * b mod 2 ^ 64 = a * b mod 2 ^ 64" .
qed

lemma wrap_i64_minus_wrap [simp]: "wrap_i64 (- wrap_i64 a) = wrap_i64 (- a)"
proof (rule wrap_i64_cong_mod)
  have "- wrap_i64 a mod 2 ^ 64 = - (wrap_i64 a mod 2 ^ 64) mod 2 ^ 64"
    by (simp only: mod_minus_eq)
  also have "\<dots> = - a mod 2 ^ 64" by (simp only: wrap_i64_mod mod_minus_eq)
  finally show "- wrap_i64 a mod 2 ^ 64 = - a mod 2 ^ 64" .
qed

section \<open>Decimal digits\<close>

definition ascii_digit :: "u8 \<Rightarrow> bool" where
  "ascii_digit b \<longleftrightarrow> 48 \<le> (of_char b :: nat) \<and> (of_char b :: nat) \<le> 57"

definition digit_val :: "u8 \<Rightarrow> nat" where
  "digit_val b = of_char b - 48"

definition digit_char :: "nat \<Rightarrow> u8" where
  "digit_char d = char_of (48 + d)"

text \<open>\<open>to_string\<close> of an unsigned integer.\<close>

fun decimal :: "nat \<Rightarrow> string" where
  "decimal n = (if n < 10 then [digit_char n] else decimal (n div 10) @ [digit_char (n mod 10)])"

declare decimal.simps [simp del]

text \<open>\<open>to_string\<close> of a signed integer.\<close>

definition decimal_int :: "int \<Rightarrow> string" where
  "decimal_int i = (if i < 0 then CHR ''-'' # decimal (nat (- i)) else decimal (nat i))"

lemma digit_char_simps [simp]:
  "digit_char 0 = CHR ''0''" "digit_char (Suc 0) = CHR ''1''" "digit_char 1 = CHR ''1''"
  "digit_char 2 = CHR ''2''" "digit_char 3 = CHR ''3''" "digit_char 4 = CHR ''4''"
  "digit_char 5 = CHR ''5''" "digit_char 6 = CHR ''6''" "digit_char 7 = CHR ''7''"
  "digit_char 8 = CHR ''8''" "digit_char 9 = CHR ''9''"
  by code_simp+

lemma of_char_digit_char: "d < 10 \<Longrightarrow> of_char (digit_char d) = 48 + d"
  by (simp add: digit_char_def)

lemma digit_val_digit_char [simp]: "d < 10 \<Longrightarrow> digit_val (digit_char d) = d"
  by (simp add: digit_val_def of_char_digit_char)

lemma ascii_digit_digit_char [simp]: "d < 10 \<Longrightarrow> ascii_digit (digit_char d)"
  by (simp add: ascii_digit_def of_char_digit_char)

lemma digit_val_le: "ascii_digit b \<Longrightarrow> digit_val b \<le> 9"
  unfolding ascii_digit_def digit_val_def by linarith

lemma decimal_digits: "list_all ascii_digit (decimal n)"
proof (induction n rule: decimal.induct)
  case (1 n)
  then show ?case by (subst decimal.simps) auto
qed

lemma decimal_not_Nil [simp]: "decimal n \<noteq> []"
  by (subst decimal.simps) simp

lemma not_ascii_digit: "\<not> ascii_digit CR" "\<not> ascii_digit LF" "\<not> ascii_digit CHR ''-''"
  "\<not> ascii_digit CHR ''+''" "\<not> ascii_digit CHR '' ''" "\<not> ascii_digit CHR '':''"
  by (simp_all add: ascii_digit_def)

lemma decimal_no_CR: "CR \<notin> set (decimal n)"
  using decimal_digits [of n] not_ascii_digit by (auto simp: list_all_iff)

lemma decimal_int_no_CR: "CR \<notin> set (decimal_int i)"
  by (simp add: decimal_int_def decimal_no_CR)

text \<open>The value of a digit string.\<close>

fun digits_val :: "nat \<Rightarrow> string \<Rightarrow> nat" where
  "digits_val n [] = n"
| "digits_val n (b # bs) = digits_val (10 * n + digit_val b) bs"

lemma digits_val_append: "digits_val n (xs @ ys) = digits_val (digits_val n xs) ys"
  by (induction xs arbitrary: n) auto

lemma digits_val_mono: "n \<le> digits_val n bs"
proof (induction bs arbitrary: n)
  case Nil
  then show ?case by simp
next
  case (Cons b bs)
  have "n \<le> 10 * n + digit_val b" by simp
  also have "\<dots> \<le> digits_val (10 * n + digit_val b) bs" by (rule Cons.IH)
  finally show ?case by simp
qed

lemma digits_val_decimal [simp]: "digits_val 0 (decimal n) = n"
proof (induction n rule: decimal.induct)
  case (1 n)
  show ?case
  proof (cases "n < 10")
    case True
    then show ?thesis by (subst decimal.simps) simp
  next
    case False
    with 1 show ?thesis by (subst decimal.simps) (simp add: digits_val_append)
  qed
qed

lemma decimal_inj: "decimal m = decimal n \<longleftrightarrow> m = n"
  by (metis digits_val_decimal)

section \<open>Integer parsing: \<open>str::parse\<close>\<close>

text \<open>
  \<open>s.parse::<uN>()\<close>: an optional plus sign and at least one digit, no overflow of the
  width. The error value is never inspected, so failure is \<open>None\<close>.
\<close>

definition parse_unsigned :: "nat \<Rightarrow> string \<Rightarrow> nat option" where
  "parse_unsigned maxv s =
     (let ds = (case s of c # cs \<Rightarrow> if c = CHR ''+'' then cs else s | [] \<Rightarrow> []) in
      if ds = [] \<or> \<not> list_all ascii_digit ds \<or> maxv < digits_val 0 ds then None
      else Some (digits_val 0 ds))"

definition parse_u16 :: "string \<Rightarrow> nat option" where
  "parse_u16 = parse_unsigned (2 ^ 16 - 1)"

definition parse_usize :: "string \<Rightarrow> nat option" where
  "parse_usize = parse_unsigned (2 ^ 64 - 1)"

text \<open>\<open>s.parse::<i64>()\<close>: as above with an optional minus sign.\<close>

definition parse_i64 :: "string \<Rightarrow> int option" where
  "parse_i64 s =
     (let (neg, ds) =
        (case s of c # cs \<Rightarrow>
            if c = CHR ''-'' then (True, cs) else if c = CHR ''+'' then (False, cs) else (False, s)
         | [] \<Rightarrow> (False, [])) in
      if ds = [] \<or> \<not> list_all ascii_digit ds then None
      else let v = (if neg then - int (digits_val 0 ds) else int (digits_val 0 ds)) in
           if in_i64 v then Some v else None)"

lemma decimal_hd: "\<exists>c cs. decimal n = c # cs \<and> ascii_digit c"
  using decimal_digits [of n] by (cases "decimal n") auto

lemma decimal_sign_cases:
  "(case decimal n of c # cs \<Rightarrow> if c = CHR ''+'' then cs else decimal n | [] \<Rightarrow> []) = decimal n"
  "(case decimal n of c # cs \<Rightarrow>
      if c = CHR ''-'' then (True, cs) else if c = CHR ''+'' then (False, cs) else (False, decimal n)
    | [] \<Rightarrow> (False, [])) = (False, decimal n)"
  using decimal_hd [of n] not_ascii_digit by auto

lemma parse_unsigned_decimal: "n \<le> maxv \<Longrightarrow> parse_unsigned maxv (decimal n) = Some n"
  by (simp add: parse_unsigned_def Let_def decimal_sign_cases decimal_digits)

lemma parse_u16_decimal: "n < 65536 \<Longrightarrow> parse_u16 (decimal n) = Some n"
  by (simp add: parse_u16_def parse_unsigned_decimal)

lemma parse_unsigned_bound: "parse_unsigned maxv s = Some n \<Longrightarrow> n \<le> maxv"
  by (auto simp: parse_unsigned_def Let_def split: if_splits)

lemma parse_u16_bound: "parse_u16 s = Some n \<Longrightarrow> n < 65536"
  using parse_unsigned_bound [of "2 ^ 16 - 1" s n] by (simp add: parse_u16_def)

lemma parse_i64_decimal_int: "in_i64 i \<Longrightarrow> parse_i64 (decimal_int i) = Some i"
  by (cases "i < 0")
     (simp_all add: parse_i64_def decimal_int_def Let_def decimal_sign_cases decimal_digits)

section \<open>Hexadecimal bytes\<close>

definition hex_digit :: "nat \<Rightarrow> u8" where
  "hex_digit d = (if d < 10 then char_of (48 + d) else char_of (87 + d))"

text \<open>The format directive \<open>0x{b:02x}\<close>.\<close>

definition hex_byte :: "u8 \<Rightarrow> string" where
  "hex_byte b = ''0x'' @ [hex_digit (of_char b div 16), hex_digit (of_char b mod 16)]"

section \<open>UTF-8\<close>

text \<open>
  One step of the validation loop of \<open>core::str\<close>: the width of the well-formed character
  at the front, or the error it reports (\<open>None\<close>: the input ended inside a character,
  \<open>Some k\<close>: \<open>k\<close> bytes are invalid).
\<close>

datatype utf8_step = Utf8_char nat | Utf8_bad "nat option"

definition byte_in :: "nat \<Rightarrow> nat \<Rightarrow> u8 \<Rightarrow> bool" where
  "byte_in lo hi b \<longleftrightarrow> lo \<le> (of_char b :: nat) \<and> (of_char b :: nat) \<le> hi"

definition is_cont :: "u8 \<Rightarrow> bool" where
  "is_cont b = byte_in 128 191 b"

definition utf8_second3 :: "u8 \<Rightarrow> u8 \<Rightarrow> bool" where
  "utf8_second3 a b \<longleftrightarrow>
     byte_in 224 224 a \<and> byte_in 160 191 b \<or> byte_in 225 236 a \<and> byte_in 128 191 b \<or>
     byte_in 237 237 a \<and> byte_in 128 159 b \<or> byte_in 238 239 a \<and> byte_in 128 191 b"

definition utf8_second4 :: "u8 \<Rightarrow> u8 \<Rightarrow> bool" where
  "utf8_second4 a b \<longleftrightarrow>
     byte_in 240 240 a \<and> byte_in 144 191 b \<or> byte_in 241 243 a \<and> byte_in 128 191 b \<or>
     byte_in 244 244 a \<and> byte_in 128 143 b"

definition utf8_next :: "bytes \<Rightarrow> utf8_step" where
  "utf8_next bs =
     (let n = length bs; a = bs ! 0 in
      if byte_in 0 127 a then Utf8_char 1
      else if byte_in 194 223 a then
        (if n < 2 then Utf8_bad None else if \<not> is_cont (bs ! 1) then Utf8_bad (Some 1)
         else Utf8_char 2)
      else if byte_in 224 239 a then
        (if n < 2 then Utf8_bad None else if \<not> utf8_second3 a (bs ! 1) then Utf8_bad (Some 1)
         else if n < 3 then Utf8_bad None else if \<not> is_cont (bs ! 2) then Utf8_bad (Some 2)
         else Utf8_char 3)
      else if byte_in 240 244 a then
        (if n < 2 then Utf8_bad None else if \<not> utf8_second4 a (bs ! 1) then Utf8_bad (Some 1)
         else if n < 3 then Utf8_bad None else if \<not> is_cont (bs ! 2) then Utf8_bad (Some 2)
         else if n < 4 then Utf8_bad None else if \<not> is_cont (bs ! 3) then Utf8_bad (Some 3)
         else Utf8_char 4)
      else Utf8_bad (Some 1))"

lemma utf8_next_width:
  "bs \<noteq> [] \<Longrightarrow> utf8_next bs = Utf8_char w \<Longrightarrow> 0 < w \<and> w \<le> length bs"
  by (cases bs) (auto simp: utf8_next_def Let_def not_less Suc_le_eq split: if_splits)

lemma utf8_next_bad_width:
  "bs \<noteq> [] \<Longrightarrow> utf8_next bs = Utf8_bad (Some k) \<Longrightarrow> 0 < k \<and> k \<le> length bs"
  by (cases bs) (auto simp: utf8_next_def Let_def not_less split: if_splits)

text \<open>\<open>Utf8Error\<close>: how many bytes are valid, and the length of the error if known.\<close>

datatype utf8_error = Utf8Error (valid_up_to: nat) (error_len: "nat option")

function utf8_check :: "nat \<Rightarrow> bytes \<Rightarrow> utf8_error option" where
  "utf8_check i bs =
     (if bs = [] then None
      else case utf8_next bs of
        Utf8_char w \<Rightarrow> utf8_check (i + w) (drop w bs)
      | Utf8_bad k \<Rightarrow> Some (Utf8Error i k))"
  by pat_completeness auto
termination
  by (relation "measure (\<lambda>(i, bs). length bs)") (auto dest: utf8_next_width)

declare utf8_check.simps [simp del]

definition from_utf8 :: "bytes \<Rightarrow> (utf8_error, string) result" where
  "from_utf8 bs = (case utf8_check 0 bs of None \<Rightarrow> Ok bs | Some e \<Rightarrow> Err e)"

definition from_utf8_ok :: "bytes \<Rightarrow> string option" where
  "from_utf8_ok bs = (case utf8_check 0 bs of None \<Rightarrow> Some bs | Some e \<Rightarrow> None)"

definition utf8_valid :: "bytes \<Rightarrow> bool" where
  "utf8_valid bs \<longleftrightarrow> utf8_check 0 bs = None"

text \<open>The \<open>Display\<close> text of a \<open>Utf8Error\<close>.\<close>

definition utf8_error_msg :: "utf8_error \<Rightarrow> string" where
  "utf8_error_msg e =
     (case error_len e of
        Some k \<Rightarrow> ''invalid utf-8 sequence of '' @ decimal k @ '' bytes from index '' @ decimal (valid_up_to e)
      | None \<Rightarrow> ''incomplete utf-8 byte sequence from index '' @ decimal (valid_up_to e))"

text \<open>\<open>String::from_utf8_lossy\<close>: each invalid sequence becomes U+FFFD.\<close>

definition replacement_char :: bytes where
  "replacement_char = [CHR 0xEF, CHR 0xBF, CHR 0xBD]"

function from_utf8_lossy :: "bytes \<Rightarrow> string" where
  "from_utf8_lossy bs =
     (if bs = [] then []
      else case utf8_next bs of
        Utf8_char w \<Rightarrow> take w bs @ from_utf8_lossy (drop w bs)
      | Utf8_bad (Some k) \<Rightarrow> replacement_char @ from_utf8_lossy (drop k bs)
      | Utf8_bad None \<Rightarrow> replacement_char)"
  by pat_completeness auto
termination
  by (relation "measure length") (auto dest: utf8_next_width utf8_next_bad_width)

declare from_utf8_lossy.simps [simp del]

lemma from_utf8_eq_Ok: "from_utf8 bs = Ok s \<longleftrightarrow> utf8_valid bs \<and> s = bs"
  by (auto simp: from_utf8_def utf8_valid_def split: option.splits)

lemma from_utf8_valid [simp]: "utf8_valid bs \<Longrightarrow> from_utf8 bs = Ok bs"
  by (simp add: from_utf8_eq_Ok)

lemma from_utf8_not_Panic [simp]: "from_utf8 bs \<noteq> Panic"
  by (simp add: from_utf8_def split: option.splits)

lemma from_utf8_ok_eq [simp]: "from_utf8_ok bs = (if utf8_valid bs then Some bs else None)"
  by (auto simp: from_utf8_ok_def utf8_valid_def split: option.splits)

lemma utf8_check_None_shift: "utf8_check i bs = None \<longleftrightarrow> utf8_check j bs = None"
proof (induction i bs arbitrary: j rule: utf8_check.induct)
  case (1 i bs)
  show ?case
  proof (cases "bs = []")
    case True
    then show ?thesis by (simp add: utf8_check.simps)
  next
    case False
    show ?thesis
    proof (cases "utf8_next bs")
      case (Utf8_char w)
      with 1 [OF False Utf8_char, of "j + w"] False show ?thesis
        by (simp add: utf8_check.simps [of _ bs])
    next
      case (Utf8_bad k)
      with False show ?thesis by (simp add: utf8_check.simps [of _ bs])
    qed
  qed
qed

lemma utf8_valid_Nil [simp]: "utf8_valid []"
  by (simp add: utf8_valid_def utf8_check.simps)

lemma utf8_valid_unfold:
  assumes "bs \<noteq> []"
  shows "utf8_valid bs \<longleftrightarrow> (\<exists>w. utf8_next bs = Utf8_char w \<and> utf8_valid (drop w bs))"
proof (cases "utf8_next bs")
  case (Utf8_char w)
  with assms show ?thesis
    using utf8_check_None_shift [of w "drop w bs" 0]
    by (simp add: utf8_valid_def utf8_check.simps [of 0 bs])
next
  case (Utf8_bad k)
  with assms show ?thesis by (simp add: utf8_valid_def utf8_check.simps [of 0 bs])
qed

lemma from_utf8_lossy_valid: "utf8_valid bs \<Longrightarrow> from_utf8_lossy bs = bs"
proof (induction bs rule: from_utf8_lossy.induct)
  case (1 bs)
  show ?case
  proof (cases "bs = []")
    case True
    then show ?thesis by (simp add: from_utf8_lossy.simps)
  next
    case False
    with 1 obtain w where w: "utf8_next bs = Utf8_char w" "utf8_valid (drop w bs)"
      using utf8_valid_unfold by blast
    with False 1 show ?thesis by (subst from_utf8_lossy.simps) simp
  qed
qed

lemma utf8_valid_ascii: "list_all (byte_in 0 127) bs \<Longrightarrow> utf8_valid bs"
proof (induction bs)
  case (Cons b bs)
  then show ?case by (simp add: utf8_valid_unfold utf8_next_def Let_def)
qed simp

section \<open>\<open>str\<close> methods\<close>

text \<open>
  A Rust \<open>str\<close> is its UTF-8 bytes. Searching for an ASCII character in the bytes is
  searching for it among the characters, since no other character's encoding contains it.
\<close>

fun strip_prefix :: "string \<Rightarrow> string \<Rightarrow> string option" where
  "strip_prefix [] s = Some s"
| "strip_prefix (p # ps) [] = None"
| "strip_prefix (p # ps) (c # cs) = (if p = c then strip_prefix ps cs else None)"

definition starts_with :: "string \<Rightarrow> string \<Rightarrow> bool" where
  "starts_with p s \<longleftrightarrow> strip_prefix p s \<noteq> None"

text \<open>\<open>split_once(c)\<close> cuts at the first \<open>c\<close>, \<open>rsplit_once(c)\<close> at the last.\<close>

definition split_once :: "u8 \<Rightarrow> string \<Rightarrow> (string \<times> string) option" where
  "split_once c s = map_option (\<lambda>i. (take i s, drop (i + 1) s)) (position c s)"

definition rsplit_once :: "u8 \<Rightarrow> string \<Rightarrow> (string \<times> string) option" where
  "rsplit_once c s =
     map_option (\<lambda>i. (take (length s - 1 - i) s, drop (length s - i) s)) (position c (rev s))"

text \<open>\<open>split_once\<close> with a string separator.\<close>

fun split_once_str :: "string \<Rightarrow> string \<Rightarrow> (string \<times> string) option" where
  "split_once_str sep [] = (if sep = [] then Some ([], []) else None)"
| "split_once_str sep (c # cs) =
     (case strip_prefix sep (c # cs) of
        Some rest \<Rightarrow> Some ([], rest)
      | None \<Rightarrow> map_option (\<lambda>(a, b). (c # a, b)) (split_once_str sep cs))"

text \<open>\<open>split(c)\<close>: the pieces between the separators, at least one.\<close>

fun split_on :: "u8 \<Rightarrow> string \<Rightarrow> string list" where
  "split_on sep [] = [[]]"
| "split_on sep (c # cs) =
     (if c = sep then [] # split_on sep cs
      else case split_on sep cs of p # ps \<Rightarrow> (c # p) # ps | [] \<Rightarrow> [[c]])"

definition to_ascii_uppercase :: "string \<Rightarrow> string" where
  "to_ascii_uppercase =
     map (\<lambda>c. if byte_in 97 122 c then char_of (of_char c - 32 :: nat) else c)"

definition eq_ignore_ascii_case :: "string \<Rightarrow> string \<Rightarrow> bool" where
  "eq_ignore_ascii_case a b \<longleftrightarrow> to_ascii_uppercase a = to_ascii_uppercase b"

text \<open>
  The encodings of the characters with the Unicode White_Space property, which \<open>trim\<close> and
  \<open>split_whitespace\<close> use.
\<close>

definition whitespace_chars :: "bytes list" where
  "whitespace_chars =
     [[CHR 0x09], [CHR 0x0A], [CHR 0x0B], [CHR 0x0C], [CHR 0x0D], [CHR 0x20],
      [CHR 0xC2, CHR 0x85], [CHR 0xC2, CHR 0xA0], [CHR 0xE1, CHR 0x9A, CHR 0x80]]
     @ map (\<lambda>b. [CHR 0xE2, CHR 0x80, b])
         [CHR 0x80, CHR 0x81, CHR 0x82, CHR 0x83, CHR 0x84, CHR 0x85, CHR 0x86, CHR 0x87,
          CHR 0x88, CHR 0x89, CHR 0x8A, CHR 0xA8, CHR 0xA9, CHR 0xAF]
     @ [[CHR 0xE2, CHR 0x81, CHR 0x9F], [CHR 0xE3, CHR 0x80, CHR 0x80]]"

definition ws_width :: "string \<Rightarrow> nat" where
  "ws_width s = (case List.find (\<lambda>w. starts_with w s) whitespace_chars of Some w \<Rightarrow> length w | None \<Rightarrow> 0)"

definition ws_width_end :: "string \<Rightarrow> nat" where
  "ws_width_end s =
     (case List.find (\<lambda>w. starts_with (rev w) (rev s)) whitespace_chars of Some w \<Rightarrow> length w | None \<Rightarrow> 0)"

function trim_start :: "string \<Rightarrow> string" where
  "trim_start s = (if s = [] \<or> ws_width s = 0 then s else trim_start (drop (ws_width s) s))"
  by pat_completeness auto
termination
  by (relation "measure length") auto

function trim_end :: "string \<Rightarrow> string" where
  "trim_end s =
     (if s = [] \<or> ws_width_end s = 0 then s else trim_end (take (length s - ws_width_end s) s))"
  by pat_completeness auto
termination
  by (relation "measure length") auto

declare trim_start.simps [simp del] trim_end.simps [simp del]

definition trim :: "string \<Rightarrow> string" where
  "trim s = trim_end (trim_start s)"

text \<open>\<open>split_whitespace().next()\<close>: the first word, \<open>None\<close> for a blank string.\<close>

function word_prefix :: "string \<Rightarrow> string" where
  "word_prefix s = (if s = [] \<or> 0 < ws_width s then [] else hd s # word_prefix (tl s))"
  by pat_completeness auto
termination
  by (relation "measure length") auto

declare word_prefix.simps [simp del]

definition first_word :: "string \<Rightarrow> string option" where
  "first_word s = (let t = trim_start s in if t = [] then None else Some (word_prefix t))"

lemma strip_prefix_append [simp]: "strip_prefix p (p @ s) = Some s"
  by (induction p) auto

lemma strip_prefix_Some: "strip_prefix p s = Some r \<longleftrightarrow> s = p @ r"
  by (induction p s rule: strip_prefix.induct) auto

lemma starts_with_append [simp]: "starts_with p (p @ s)"
  by (simp add: starts_with_def)

lemma starts_with_iff: "starts_with p s \<longleftrightarrow> (\<exists>r. s = p @ r)"
  by (auto simp: starts_with_def strip_prefix_Some)

lemma split_once_append: "c \<notin> set a \<Longrightarrow> split_once c (a @ c # b) = Some (a, b)"
  by (simp add: split_once_def position_append_left)

lemma split_once_None: "split_once c s = None \<longleftrightarrow> c \<notin> set s"
  by (simp add: split_once_def position_eq_None)

lemma split_once_Some:
  "split_once c s = Some (a, b) \<longleftrightarrow> s = a @ c # b \<and> c \<notin> set a"
proof
  assume "split_once c s = Some (a, b)"
  then obtain i where "position c s = Some i" "a = take i s" "b = drop (i + 1) s"
    by (auto simp: split_once_def)
  then show "s = a @ c # b \<and> c \<notin> set a"
    using position_Some [of c s i] id_take_nth_drop [of i s] by auto
qed (auto simp: split_once_append)

lemma rsplit_once_append: "c \<notin> set b \<Longrightarrow> rsplit_once c (a @ c # b) = Some (a, b)"
proof -
  assume "c \<notin> set b"
  then have "position c (rev (a @ c # b)) = Some (length b)"
    using position_append_left [of c "rev b" "rev a"] by simp
  then show ?thesis by (simp add: rsplit_once_def)
qed

lemma rsplit_once_None: "rsplit_once c s = None \<longleftrightarrow> c \<notin> set s"
  by (simp add: rsplit_once_def position_eq_None)

lemma length_split_on [simp]: "length (split_on sep s) = Suc (count_list s sep)"
  by (induction s) (auto split: list.splits)

lemma split_on_no_sep: "sep \<notin> set s \<Longrightarrow> split_on sep s = [s]"
  by (induction s) auto

lemma split_on_append: "sep \<notin> set a \<Longrightarrow> split_on sep (a @ sep # b) = a # split_on sep b"
  by (induction a) auto

lemma length_to_ascii_uppercase [simp]: "length (to_ascii_uppercase s) = length s"
  by (simp add: to_ascii_uppercase_def)

lemma to_ascii_uppercase_idem [simp]:
  "to_ascii_uppercase (to_ascii_uppercase s) = to_ascii_uppercase s"
  by (induction s) (auto simp: to_ascii_uppercase_def byte_in_def)

end
