(* ===== verification/Errors.thy ===== *)
theory Errors
  imports Rust_Std
begin

text \<open>
  \<open>src/src/error.rs\<close>: the error kinds a Redis server reports, the error type of every
  fallible operation of the crate, and the mapping of errors to the Python exception
  hierarchy. Lemmas: how \<open>from_error_msg\<close> classifies every message, the MOVED and ASK
  redirects it recovers, and which exception class each error becomes.
\<close>

section \<open>Redis error kinds\<close>

datatype RedisErrorKind =
    ErrKind
  | WrongType
  | Moved nat string
  | Ask nat string
  | ClusterDown
  | Loading
  | ReadOnly
  | NoScript
  | Busy
  | TryAgain
  | Other string

text \<open>
  The redirect branch of \<open>from_error_msg\<close>: the text after \<open>"MOVED "\<close> or \<open>"ASK "\<close> is
  \<open>slot address\<close>.
\<close>

definition redirect_target :: "string \<Rightarrow> (nat \<times> string) option" where
  "redirect_target rest =
     (case split_once CHR '' '' rest of
        Some (slot_str, addr) \<Rightarrow>
          (case parse_u16 slot_str of Some slot \<Rightarrow> Some (slot, addr) | None \<Rightarrow> None)
      | None \<Rightarrow> None)"

definition from_error_msg :: "string \<Rightarrow> RedisErrorKind \<times> string" where
  "from_error_msg msg =
     (case strip_prefix ''MOVED '' msg of
        Some rest \<Rightarrow>
          (case redirect_target rest of
             Some (slot, addr) \<Rightarrow> (Moved slot addr, msg)
           | None \<Rightarrow> (Other ''MOVED'', msg))
      | None \<Rightarrow>
     (case strip_prefix ''ASK '' msg of
        Some rest \<Rightarrow>
          (case redirect_target rest of
             Some (slot, addr) \<Rightarrow> (Ask slot addr, msg)
           | None \<Rightarrow> (Other ''ASK'', msg))
      | None \<Rightarrow>
     (let kind =
        (if starts_with ''WRONGTYPE'' msg then WrongType
         else if starts_with ''CLUSTERDOWN'' msg then ClusterDown
         else if starts_with ''LOADING'' msg then Loading
         else if starts_with ''READONLY'' msg then ReadOnly
         else if starts_with ''NOSCRIPT'' msg then NoScript
         else if starts_with ''BUSY'' msg then Busy
         else if starts_with ''TRYAGAIN'' msg then TryAgain
         else if starts_with ''ERR'' msg then ErrKind
         else Other (unwrap_or ''UNKNOWN'' (first_word msg)))
      in (kind, msg))))"

section \<open>The error type\<close>

text \<open>An \<open>std::io::Error\<close>: its kind and its display text.\<close>

datatype io_kind = ConnectionRefused | ConnectionReset | UnexpectedEof | OtherIo

datatype io_error = IoError io_kind string

datatype PyrsedisError =
    Connection io_error
  | Protocol string
  | Incomplete
  | Redis RedisErrorKind string
  | Graph string
  | TypeErr string
  | Timeout string
  | Cluster string
  | Sentinel string

type_synonym 'a res = "(PyrsedisError, 'a) result"

definition redis_error :: "string \<Rightarrow> PyrsedisError" where
  "redis_error msg = (case from_error_msg msg of (kind, message) \<Rightarrow> Redis kind message)"

definition is_moved :: "PyrsedisError \<Rightarrow> bool" where
  "is_moved e = (case e of Redis (Moved slot addr) msg \<Rightarrow> True | _ \<Rightarrow> False)"

definition is_ask :: "PyrsedisError \<Rightarrow> bool" where
  "is_ask e = (case e of Redis (Ask slot addr) msg \<Rightarrow> True | _ \<Rightarrow> False)"

definition moved_info :: "PyrsedisError \<Rightarrow> (nat \<times> string) option" where
  "moved_info e = (case e of Redis (Moved slot addr) msg \<Rightarrow> Some (slot, addr) | _ \<Rightarrow> None)"

definition ask_info :: "PyrsedisError \<Rightarrow> (nat \<times> string) option" where
  "ask_info e = (case e of Redis (Ask slot addr) msg \<Rightarrow> Some (slot, addr) | _ \<Rightarrow> None)"

text \<open>The \<open>Display\<close> text.\<close>

fun display_error :: "PyrsedisError \<Rightarrow> string" where
  "display_error (Connection (IoError k m)) = ''connection error: '' @ m"
| "display_error (Protocol m) = ''protocol error: '' @ m"
| "display_error Incomplete = ''incomplete RESP message''"
| "display_error (Redis k m) = ''redis error: '' @ m"
| "display_error (Graph m) = ''graph error: '' @ m"
| "display_error (TypeErr m) = ''type error: '' @ m"
| "display_error (Timeout m) = ''timeout: '' @ m"
| "display_error (Cluster m) = ''cluster error: '' @ m"
| "display_error (Sentinel m) = ''sentinel error: '' @ m"

section \<open>Python exceptions\<close>

text \<open>
  The exception classes the extension module registers, the one builtin class it raises
  itself (\<open>TypeError\<close>), and any other class, which can only come from the interpreter.
\<close>

datatype exc_class =
    ExcPyrsedisError | ExcRedisConnectionError | ExcRedisTimeoutError | ExcProtocolError
  | ExcRedisError | ExcGraphError | ExcClusterError | ExcSentinelError
  | ExcResponseError | ExcWrongTypeError | ExcReadOnlyError | ExcNoScriptError
  | ExcBusyError | ExcClusterDownError
  | ExcTypeError | ExcInterpreter string

text \<open>The base class each \<open>create_exception!\<close> names; \<open>None\<close> for classes defined elsewhere.\<close>

fun exc_base :: "exc_class \<Rightarrow> exc_class option" where
  "exc_base ExcRedisConnectionError = Some ExcPyrsedisError"
| "exc_base ExcRedisTimeoutError = Some ExcPyrsedisError"
| "exc_base ExcProtocolError = Some ExcPyrsedisError"
| "exc_base ExcRedisError = Some ExcPyrsedisError"
| "exc_base ExcGraphError = Some ExcPyrsedisError"
| "exc_base ExcClusterError = Some ExcPyrsedisError"
| "exc_base ExcSentinelError = Some ExcPyrsedisError"
| "exc_base ExcResponseError = Some ExcRedisError"
| "exc_base ExcWrongTypeError = Some ExcRedisError"
| "exc_base ExcReadOnlyError = Some ExcRedisError"
| "exc_base ExcNoScriptError = Some ExcRedisError"
| "exc_base ExcBusyError = Some ExcRedisError"
| "exc_base ExcClusterDownError = Some ExcRedisError"
| "exc_base _ = None"

text \<open>\<open>except C\<close> catches an exception whose class is \<open>C\<close> or derives from it.\<close>

inductive subclass_of :: "exc_class \<Rightarrow> exc_class \<Rightarrow> bool" where
  sub_refl: "subclass_of c c"
| sub_base: "exc_base c = Some b \<Longrightarrow> subclass_of b d \<Longrightarrow> subclass_of c d"

datatype PyErr = PyErr exc_class string

type_synonym 'a py_res = "(PyErr, 'a) result"

definition py_class :: "PyrsedisError \<Rightarrow> exc_class" where
  "py_class err =
     (case err of
        Connection e \<Rightarrow> ExcRedisConnectionError
      | Protocol m \<Rightarrow> ExcProtocolError
      | Incomplete \<Rightarrow> ExcProtocolError
      | Redis kind m \<Rightarrow>
          (case kind of
             WrongType \<Rightarrow> ExcWrongTypeError
           | ReadOnly \<Rightarrow> ExcReadOnlyError
           | NoScript \<Rightarrow> ExcNoScriptError
           | Busy \<Rightarrow> ExcBusyError
           | ClusterDown \<Rightarrow> ExcClusterDownError
           | _ \<Rightarrow> ExcResponseError)
      | Graph m \<Rightarrow> ExcGraphError
      | TypeErr m \<Rightarrow> ExcTypeError
      | Timeout m \<Rightarrow> ExcRedisTimeoutError
      | Cluster m \<Rightarrow> ExcClusterError
      | Sentinel m \<Rightarrow> ExcSentinelError)"

definition into_pyerr :: "PyrsedisError \<Rightarrow> PyErr" where
  "into_pyerr err = PyErr (py_class err) (display_error err)"

section \<open>Lemmas\<close>

lemma from_error_msg_snd [simp]: "snd (from_error_msg msg) = msg"
  by (simp add: from_error_msg_def Let_def split: option.splits prod.splits)

lemma redis_error_eq: "redis_error msg = Redis (fst (from_error_msg msg)) msg"
  by (metis from_error_msg_snd prod.collapse case_prod_conv redis_error_def)

lemma redirect_target_roundtrip:
  "slot < 65536 \<Longrightarrow> redirect_target (decimal slot @ CHR '' '' # addr) = Some (slot, addr)"
  using decimal_digits [of slot] not_ascii_digit
  by (auto simp: redirect_target_def split_once_append parse_u16_decimal list_all_iff)

lemma redirect_target_slot: "redirect_target r = Some (slot, addr) \<Longrightarrow> slot < 65536"
  by (auto simp: redirect_target_def dest: parse_u16_bound split: option.splits prod.splits)

lemma from_error_msg_moved:
  "slot < 65536 \<Longrightarrow>
   from_error_msg (''MOVED '' @ decimal slot @ '' '' @ addr)
     = (Moved slot addr, ''MOVED '' @ decimal slot @ '' '' @ addr)"
  by (simp add: from_error_msg_def redirect_target_roundtrip)

lemma from_error_msg_ask:
  "slot < 65536 \<Longrightarrow>
   from_error_msg (''ASK '' @ decimal slot @ '' '' @ addr)
     = (Ask slot addr, ''ASK '' @ decimal slot @ '' '' @ addr)"
  by (simp add: from_error_msg_def redirect_target_roundtrip)

lemma from_error_msg_MovedD:
  assumes "fst (from_error_msg msg) = Moved slot addr"
  shows "slot < 65536" and "\<exists>slot_str. msg = ''MOVED '' @ slot_str @ '' '' @ addr \<and> parse_u16 slot_str = Some slot"
proof -
  have "\<exists>rest. msg = ''MOVED '' @ rest \<and> redirect_target rest = Some (slot, addr)"
    using assms
    by (auto simp: from_error_msg_def Let_def strip_prefix_Some split: option.splits prod.splits if_splits)
  then obtain rest where r: "msg = ''MOVED '' @ rest" "redirect_target rest = Some (slot, addr)"
    by blast
  then show "slot < 65536" by (auto dest: redirect_target_slot)
  from r show "\<exists>slot_str. msg = ''MOVED '' @ slot_str @ '' '' @ addr \<and> parse_u16 slot_str = Some slot"
    by (auto simp: redirect_target_def split_once_Some split: option.splits prod.splits)
qed

inductive_simps subclass_of_Pyrsedis [simp]: "subclass_of ExcPyrsedisError d"
inductive_simps subclass_of_Redis [simp]: "subclass_of ExcRedisError d"

lemma subclass_PyrsedisError: "exc_base c = Some b \<Longrightarrow> subclass_of c ExcPyrsedisError"
  by (cases c) (auto intro: sub_base)

end
