(* ===== verification/Crates.thy ===== *)
theory Crates
  imports Errors
begin

text \<open>
  The third-party functions the RESP layer calls. They are not part of the repository, so
  they are a parameter of the model: a record whose fields the definitions call. What the
  code relies on of their documentation is the locale \<open>crate_env\<close>:
  \<^item> \<open>memchr(needle, haystack)\<close> is the index of the first occurrence;
  \<^item> \<open>itoa::Buffer::format(n)\<close> is the decimal representation of \<open>n\<close>.
  The third field stands for the allocator: \<open>vec_alloc n\<close> says that
  \<open>Vec::with_capacity\<close> can reserve room for \<open>n\<close> values of type \<open>RespValue\<close>; otherwise it
  panics (capacity overflow) or aborts (out of memory). Nothing is assumed about it.
\<close>

record crates =
  memchr :: "u8 \<Rightarrow> bytes \<Rightarrow> nat option"
  itoa :: "nat \<Rightarrow> bytes"
  vec_alloc :: "nat \<Rightarrow> bool"

text \<open>\<open>Vec::with_capacity(n)\<close> for elements of \<open>n\<close> values in all: it returns or panics.\<close>

definition with_capacity :: "crates \<Rightarrow> nat \<Rightarrow> ('e, unit) result" where
  "with_capacity C n = (if vec_alloc C n then Ok () else Panic)"

lemma with_capacity_eq_Ok: "with_capacity C n = Ok u \<longleftrightarrow> vec_alloc C n"
  by (simp add: with_capacity_def)

lemma with_capacity_ok [simp]: "vec_alloc C n \<Longrightarrow> with_capacity C n = Ok ()"
  by (simp add: with_capacity_def)

lemma with_capacity_not_Err [simp]: "with_capacity C n \<noteq> Err e"
  by (simp add: with_capacity_def)

locale crate_env =
  fixes C :: crates
  assumes memchr_first: "memchr C c bs = position c bs"
    and itoa_decimal: "itoa C n = decimal n"

text \<open>Functions that behave as documented, over any allocator.\<close>

definition documented_crates :: "(nat \<Rightarrow> bool) \<Rightarrow> crates" where
  "documented_crates a = \<lparr>memchr = position, itoa = decimal, vec_alloc = a\<rparr>"

interpretation documented: crate_env "documented_crates a"
  by unfold_locales (simp_all add: documented_crates_def)

end
