(* ===== verification/F64.thy ===== *)
theory F64
  imports Rust_Std
begin

text \<open>
  Rust's \<open>f64\<close> as its 64 IEEE 754 bits, and the standard library's conversions:
  \<open>str::parse::<f64>\<close> (the grammar of decimal literals, rounded to nearest with ties to
  even), \<open>i64 as f64\<close> and \<open>to_string\<close> (the shortest decimal that reads back).
\<close>

type_synonym f64 = "64 word"

definition F64_INFINITY :: f64 where "F64_INFINITY = 0x7FF0000000000000"
definition F64_NEG_INFINITY :: f64 where "F64_NEG_INFINITY = 0xFFF0000000000000"
definition F64_NAN :: f64 where "F64_NAN = 0x7FF8000000000000"
definition F64_ZERO :: f64 where "F64_ZERO = 0"

text \<open>Negation flips the sign bit.\<close>

definition f64_signed :: "bool \<Rightarrow> f64 \<Rightarrow> f64" where
  "f64_signed neg x = (if neg then x + 0x8000000000000000 else x)"

section \<open>Rounding a positive rational\<close>

text \<open>The number of binary digits of a natural number.\<close>

fun bit_length :: "nat \<Rightarrow> nat" where
  "bit_length n = (if n = 0 then 0 else Suc (bit_length (n div 2)))"

declare bit_length.simps [simp del]

text \<open>\<open>num / den\<close> compared with a power of two: \<open>2 ^ e \<le> num / den\<close>.\<close>

definition pow2_le :: "int \<Rightarrow> nat \<Rightarrow> nat \<Rightarrow> bool" where
  "pow2_le e num den =
     (if 0 \<le> e then den * 2 ^ nat e \<le> num else den \<le> num * 2 ^ nat (- e))"

definition ilog2 :: "nat \<Rightarrow> nat \<Rightarrow> int" where
  "ilog2 num den =
     (let e = int (bit_length num) - int (bit_length den) in
      if pow2_le e num den then e else e - 1)"

definition round_half_even :: "nat \<Rightarrow> nat \<Rightarrow> nat" where
  "round_half_even n d =
     (let q = n div d; r = n mod d in
      if d < 2 * r \<or> (2 * r = d \<and> odd q) then q + 1 else q)"

text \<open>
  The bits of the nearest \<open>f64\<close> to \<open>num / den\<close>. The unit in the last place is
  \<open>2 ^ q\<close>, with \<open>q\<close> at least that of the subnormals; adding the rounded significand to
  the exponent field lets a carry out of the significand increment the exponent.
\<close>

definition f64_of_ratio :: "nat \<Rightarrow> nat \<Rightarrow> f64" where
  "f64_of_ratio num den =
     (if num = 0 then F64_ZERO
      else let e = max (ilog2 num den) (- 1022); q = e - 52;
               m = (if 0 \<le> q then round_half_even num (den * 2 ^ nat q)
                    else round_half_even (num * 2 ^ nat (- q)) den);
               bits = int m + (e + 1022) * 2 ^ 52
           in if 0x7FF0000000000000 \<le> bits then F64_INFINITY else of_int bits)"

text \<open>\<open>i as f64\<close>.\<close>

definition f64_of_i64 :: "int \<Rightarrow> f64" where
  "f64_of_i64 i = f64_signed (i < 0) (f64_of_ratio (nat \<bar>i\<bar>) 1)"

section \<open>\<open>str::parse::<f64>\<close>\<close>

datatype parse_float_error = FloatEmpty | FloatInvalid

fun parse_float_error_msg :: "parse_float_error \<Rightarrow> string" where
  "parse_float_error_msg FloatEmpty = ''cannot parse float from empty string''"
| "parse_float_error_msg FloatInvalid = ''invalid float literal''"

text \<open>The exponent part: nothing, or \<open>e\<close>, an optional sign and at least one digit.\<close>

definition parse_exponent :: "string \<Rightarrow> int option" where
  "parse_exponent s =
     (case s of
        [] \<Rightarrow> Some 0
      | c # cs \<Rightarrow>
          if c = CHR ''e'' \<or> c = CHR ''E'' then
            (let (neg, ds) =
               (case cs of d # ds' \<Rightarrow>
                   if d = CHR ''-'' then (True, ds') else if d = CHR ''+'' then (False, ds') else (False, cs)
                | [] \<Rightarrow> (False, [])) in
             if ds = [] \<or> \<not> list_all ascii_digit ds then None
             else Some (if neg then - int (digits_val 0 ds) else int (digits_val 0 ds)))
          else None)"

text \<open>Digits, optionally a point and more digits, at least one digit, then the exponent.\<close>

definition parse_decimal_literal :: "string \<Rightarrow> f64 option" where
  "parse_decimal_literal s =
     (let ip = takeWhile ascii_digit s; r1 = dropWhile ascii_digit s;
          (fp, r2) = (case r1 of c # cs \<Rightarrow>
              if c = CHR ''.'' then (takeWhile ascii_digit cs, dropWhile ascii_digit cs) else ([], r1)
            | [] \<Rightarrow> ([], []))
      in if ip = [] \<and> fp = [] then None
         else case parse_exponent r2 of
           None \<Rightarrow> None
         | Some ex \<Rightarrow>
             let m = digits_val 0 (ip @ fp); e10 = ex - int (length fp) in
             Some (if 0 \<le> e10 then f64_of_ratio (m * 10 ^ nat e10) 1
                   else f64_of_ratio m (10 ^ nat (- e10))))"

definition parse_unsigned_f64 :: "string \<Rightarrow> f64 option" where
  "parse_unsigned_f64 s =
     (case parse_decimal_literal s of
        Some x \<Rightarrow> Some x
      | None \<Rightarrow>
          if to_ascii_uppercase s = ''INF'' \<or> to_ascii_uppercase s = ''INFINITY'' then Some F64_INFINITY
          else if to_ascii_uppercase s = ''NAN'' then Some F64_NAN
          else None)"

definition parse_f64 :: "string \<Rightarrow> (parse_float_error, f64) result" where
  "parse_f64 s =
     (case s of
        [] \<Rightarrow> Err FloatEmpty
      | c # cs \<Rightarrow>
          (let (neg, body) =
             (if c = CHR ''-'' then (True, cs) else if c = CHR ''+'' then (False, cs) else (False, s)) in
           case parse_unsigned_f64 body of
             Some x \<Rightarrow> Ok (f64_signed neg x)
           | None \<Rightarrow> Err FloatInvalid))"

lemma parse_f64_not_Panic [simp]: "parse_f64 s \<noteq> Panic"
  by (simp add: parse_f64_def Let_def split: list.splits option.splits prod.splits)

lemma parse_f64_special:
  "parse_f64 ''inf'' = Ok F64_INFINITY" "parse_f64 ''-inf'' = Ok F64_NEG_INFINITY"
  "parse_f64 ''nan'' = Ok F64_NAN"
  by code_simp+

section \<open>\<open>to_string\<close>\<close>

text \<open>
  \<open>Display\<close> for \<open>f64\<close>: the shortest decimal that reads back as the same number, the closest
  one when there are two, written without an exponent. The magnitude of a finite number is
  the ratio \<open>f64_ratio\<close>; \<open>lead_zeros\<close> counts the zeros after the point of a ratio below one.
\<close>

definition f64_neg :: "f64 \<Rightarrow> bool" where
  "f64_neg x \<longleftrightarrow> 0x8000000000000000 \<le> x"

definition f64_abs :: "f64 \<Rightarrow> f64" where
  "f64_abs x = (if f64_neg x then x - 0x8000000000000000 else x)"

definition f64_ratio :: "f64 \<Rightarrow> nat \<times> nat" where
  "f64_ratio x =
     (let n = unat (f64_abs x); e = n div 2 ^ 52; f = n mod 2 ^ 52; m = (if e = 0 then f else f + 2 ^ 52) in
      if 1075 \<le> e then (m * 2 ^ (e - 1075), 1) else (m, 2 ^ (1075 - max e 1)))"

function lead_zeros :: "nat \<Rightarrow> nat \<Rightarrow> nat" where
  "lead_zeros num den = (if num = 0 \<or> den \<le> 10 * num then 0 else Suc (lead_zeros (10 * num) den))"
  by pat_completeness auto
termination
  by (relation "measure (\<lambda>(num, den). den - num)") auto

declare lead_zeros.simps [simp del]

text \<open>The decimal exponent \<open>k\<close> with \<open>10 ^ (k - 1) \<le> num / den < 10 ^ k\<close>.\<close>

definition dec_exponent :: "nat \<Rightarrow> nat \<Rightarrow> int" where
  "dec_exponent num den =
     (if den \<le> num then int (length (decimal (num div den))) else - int (lead_zeros num den))"

text \<open>The number \<open>d * 10 ^ p\<close>.\<close>

definition f64_of_decimal :: "nat \<Rightarrow> int \<Rightarrow> f64" where
  "f64_of_decimal d p = (if 0 \<le> p then f64_of_ratio (d * 10 ^ nat p) 1 else f64_of_ratio d (10 ^ nat (- p)))"

text \<open>The two decimals of \<open>n\<close> digits around a ratio, the closer one first.\<close>

definition digit_candidates :: "nat \<Rightarrow> nat \<Rightarrow> nat \<Rightarrow> (nat \<times> int) list" where
  "digit_candidates num den n =
     (let p = dec_exponent num den - int n;
          (a, b) = (if 0 \<le> p then (num, den * 10 ^ nat p) else (num * 10 ^ nat (- p), den));
          d = a div b;
          up = (if d + 1 = 10 ^ n then (10 ^ (n - 1), p + 1) else (d + 1, p))
      in if b \<le> 2 * (a mod b) then [up, (d, p)] else [(d, p), up])"

text \<open>Seventeen digits tell all numbers apart: \<open>F64_Digits\<close> proves that the search finds one.\<close>

definition shortest_decimal :: "f64 \<Rightarrow> (nat \<times> int) option" where
  "shortest_decimal x =
     (case f64_ratio x of (num, den) \<Rightarrow>
        List.find (\<lambda>(d, p). f64_of_decimal d p = f64_abs x)
          (concat (map (digit_candidates num den) [1..<18])))"

definition plain_decimal :: "nat \<Rightarrow> int \<Rightarrow> string" where
  "plain_decimal d p =
     (let ds = decimal d; k = length ds; z = nat (- p) in
      if 0 \<le> p then ds @ replicate (nat p) CHR ''0''
      else if z < k then take (k - z) ds @ ''.'' @ drop (k - z) ds
      else ''0.'' @ replicate (z - k) CHR ''0'' @ ds)"

definition f64_to_string :: "f64 \<Rightarrow> string" where
  "f64_to_string x =
     (if F64_INFINITY < f64_abs x then ''NaN''
      else (if f64_neg x then ''-'' else []) @
        (if f64_abs x = F64_INFINITY then ''inf''
         else if f64_abs x = 0 then ''0''
         else case shortest_decimal x of Some (d, p) \<Rightarrow> plain_decimal d p | None \<Rightarrow> []))"

text \<open>The text of a number reads back as that number.\<close>

lemma digits_val_zeros: "digits_val n (replicate k CHR ''0'') = n * 10 ^ k"
  by (induction k arbitrary: n) (simp_all add: digit_val_def)

lemma digits_span:
  assumes "list_all ascii_digit ds"
  shows "takeWhile ascii_digit ds = ds" "dropWhile ascii_digit ds = []"
    "takeWhile ascii_digit (ds @ CHR ''.'' # r) = ds" "dropWhile ascii_digit (ds @ CHR ''.'' # r) = CHR ''.'' # r"
  using assms by (induction ds) (auto simp: ascii_digit_def)

lemma parse_integer_literal:
  "list_all ascii_digit ds \<Longrightarrow> ds \<noteq> [] \<Longrightarrow> parse_decimal_literal ds = Some (f64_of_decimal (digits_val 0 ds) 0)"
  by (simp add: parse_decimal_literal_def digits_span parse_exponent_def f64_of_decimal_def)

lemma parse_fraction_literal:
  assumes "list_all ascii_digit ip" "list_all ascii_digit fp" "ip \<noteq> []" "fp \<noteq> []"
  shows "parse_decimal_literal (ip @ ''.'' @ fp) = Some (f64_of_decimal (digits_val 0 (ip @ fp)) (- int (length fp)))"
  using assms by (simp add: parse_decimal_literal_def digits_span parse_exponent_def f64_of_decimal_def)

lemma plain_decimal_reads: "parse_decimal_literal (plain_decimal d p) = Some (f64_of_decimal d p)"
proof -
  let ?ds = "decimal d" and ?z = "nat (- p)"
  have zero: "list_all ascii_digit (replicate k CHR ''0'')" for k by (induction k) (simp_all add: ascii_digit_def)
  have ds: "list_all ascii_digit ?ds" by (rule decimal_digits)
  then have parts: "list_all ascii_digit (take k ?ds)" "list_all ascii_digit (drop k ?ds)" for k
    by (auto simp: list_all_iff dest: in_set_takeD in_set_dropD)
  consider "0 \<le> p" | "p < 0" "?z < length ?ds" | "p < 0" "length ?ds \<le> ?z" by linarith
  then show ?thesis
  proof cases
    case 1
    then show ?thesis
      using parse_integer_literal [of "?ds @ replicate (nat p) CHR ''0''"] ds zero
      by (simp add: plain_decimal_def digits_val_append digits_val_zeros f64_of_decimal_def)
  next
    case 2
    then show ?thesis
      using parse_fraction_literal [OF parts, of "length ?ds - ?z" "length ?ds - ?z"]
      by (simp add: plain_decimal_def Let_def)
  next
    case 3
    then show ?thesis
      using parse_fraction_literal [of "''0''" "replicate (?z - length ?ds) CHR ''0'' @ ?ds"] ds zero zero [of 1]
      by (simp add: plain_decimal_def Let_def digits_val_append digits_val_zeros digit_val_def)
  qed
qed

lemma plain_decimal_hd: "\<exists>c cs. plain_decimal d p = c # cs \<and> ascii_digit c"
proof -
  obtain c cs where "decimal d = c # cs" "ascii_digit c" using decimal_hd by blast
  then show ?thesis
    by (auto simp: plain_decimal_def Let_def ascii_digit_def take_Cons split: nat.split)
qed

lemma find_Some_sat: "List.find P xs = Some y \<Longrightarrow> P y"
  by (induction xs) (auto split: if_splits)

lemma f64_signed_abs: "f64_signed (f64_neg x) (f64_abs x) = x"
  by (simp add: f64_signed_def f64_abs_def)

lemma f64_to_string_reads_back:
  assumes "f64_abs x \<le> F64_INFINITY" and "f64_abs x = 0 \<or> f64_abs x = F64_INFINITY \<or> shortest_decimal x \<noteq> None"
  shows "parse_f64 (f64_to_string x) = Ok x"
proof -
  have signed: "parse_f64 ((if f64_neg x then ''-'' else []) @ s) = Ok x"
    if "parse_unsigned_f64 s = Some (f64_abs x)" "s = c # cs" "c \<noteq> CHR ''-''" "c \<noteq> CHR ''+''" for s c cs
    using that f64_signed_abs [of x] by (auto simp: parse_f64_def)
  consider "f64_abs x = F64_INFINITY" | "f64_abs x = 0" | d p where
    "f64_abs x \<noteq> F64_INFINITY" "f64_abs x \<noteq> 0" "shortest_decimal x = Some (d, p)" using assms(2) by auto
  then show ?thesis
  proof cases
    case 1
    moreover have "parse_unsigned_f64 ''inf'' = Some F64_INFINITY" by code_simp
    ultimately show ?thesis using signed [of "''inf''"] by (simp add: f64_to_string_def)
  next
    case 2
    moreover have "parse_unsigned_f64 ''0'' = Some 0" by code_simp
    moreover have "(0 :: f64) \<noteq> F64_INFINITY" "\<not> F64_INFINITY < 0" by (simp_all add: F64_INFINITY_def)
    ultimately show ?thesis using signed [of "''0''"] by (simp add: f64_to_string_def)
  next
    case 3
    then have "f64_of_decimal d p = f64_abs x"
      by (cases "f64_ratio x") (auto simp: shortest_decimal_def dest!: find_Some_sat)
    then have "parse_unsigned_f64 (plain_decimal d p) = Some (f64_abs x)"
      by (simp add: parse_unsigned_f64_def plain_decimal_reads)
    moreover obtain c cs where c: "plain_decimal d p = c # cs" "ascii_digit c" using plain_decimal_hd by blast
    moreover have "c \<noteq> CHR ''-''" "c \<noteq> CHR ''+''" using c(2) not_ascii_digit by auto
    ultimately show ?thesis
      using signed [of "plain_decimal d p" c cs] 3 assms(1)
      by (simp add: f64_to_string_def not_le [symmetric])
  qed
qed

end
