(* ===== verification/Resp_Types.thy ===== *)
theory Resp_Types
  imports Errors F64
begin

text \<open>
  \<open>src/src/resp/types.rs\<close>: the RESP value type and its accessors. The lemmas say which
  accessors can succeed together and that \<open>type_name\<close> tells the variants apart.
\<close>

datatype RespValue =
    SimpleString string
  | Error string
  | Integer int
  | BulkString bytes
  | Array "RespValue list"
  | Null
  | Double f64
  | Boolean bool
  | Map "(RespValue \<times> RespValue) list"
  | Set "RespValue list"
  | VerbatimString string string
  | BigNumber string
  | BulkError string
  | Push string "RespValue list"
  | Attribute RespValue "(RespValue \<times> RespValue) list"

section \<open>Accessors\<close>

fun as_str :: "RespValue \<Rightarrow> string option" where
  "as_str (SimpleString s) = Some s"
| "as_str (BulkString b) = from_utf8_ok b"
| "as_str (VerbatimString encoding data) = Some data"
| "as_str _ = None"

fun as_bytes :: "RespValue \<Rightarrow> bytes option" where
  "as_bytes (BulkString b) = Some b"
| "as_bytes (SimpleString s) = Some s"
| "as_bytes _ = None"

fun as_int :: "RespValue \<Rightarrow> int option" where
  "as_int (Integer i) = Some i"
| "as_int _ = None"

fun as_f64 :: "RespValue \<Rightarrow> f64 option" where
  "as_f64 (Double d) = Some d"
| "as_f64 (Integer i) = Some (f64_of_i64 i)"
| "as_f64 _ = None"

fun as_bool :: "RespValue \<Rightarrow> bool option" where
  "as_bool (Boolean b) = Some b"
| "as_bool (Integer i) = Some (i \<noteq> 0)"
| "as_bool _ = None"

fun into_array :: "RespValue \<Rightarrow> RespValue list option" where
  "into_array (Array a) = Some a"
| "into_array _ = None"

fun into_map :: "RespValue \<Rightarrow> (RespValue \<times> RespValue) list option" where
  "into_map (Map m) = Some m"
| "into_map _ = None"

fun into_set :: "RespValue \<Rightarrow> RespValue list option" where
  "into_set (Set s) = Some s"
| "into_set _ = None"

fun is_null :: "RespValue \<Rightarrow> bool" where
  "is_null Null = True"
| "is_null _ = False"

fun is_error :: "RespValue \<Rightarrow> bool" where
  "is_error (Error m) = True"
| "is_error (BulkError m) = True"
| "is_error _ = False"

fun as_error_msg :: "RespValue \<Rightarrow> string option" where
  "as_error_msg (Error msg) = Some msg"
| "as_error_msg (BulkError msg) = Some msg"
| "as_error_msg _ = None"

fun is_push :: "RespValue \<Rightarrow> bool" where
  "is_push (Push kind data) = True"
| "is_push _ = False"

fun type_name :: "RespValue \<Rightarrow> string" where
  "type_name (SimpleString _) = ''simple_string''"
| "type_name (Error _) = ''error''"
| "type_name (Integer _) = ''integer''"
| "type_name (BulkString _) = ''bulk_string''"
| "type_name (Array _) = ''array''"
| "type_name Null = ''null''"
| "type_name (Double _) = ''double''"
| "type_name (Boolean _) = ''boolean''"
| "type_name (Map _) = ''map''"
| "type_name (Set _) = ''set''"
| "type_name (VerbatimString _ _) = ''verbatim_string''"
| "type_name (BigNumber _) = ''big_number''"
| "type_name (BulkError _) = ''bulk_error''"
| "type_name (Push _ _) = ''push''"
| "type_name (Attribute _ _) = ''attribute''"

text \<open>The \<open>{:?}\<close> directive on a type name adds quotes.\<close>

definition quoted :: "string \<Rightarrow> string" where
  "quoted s = [CHR 0x22] @ s @ [CHR 0x22]"

section \<open>Well-formed values\<close>

text \<open>
  What the type \<open>RespValue\<close> itself guarantees in Rust and the model's wider types do not:
  an \<open>i64\<close> is in range and a \<open>String\<close> is UTF-8.
\<close>

function typed :: "RespValue \<Rightarrow> bool"
  and typed_pairs :: "(RespValue \<times> RespValue) list \<Rightarrow> bool" where
  "typed (SimpleString s) = utf8_valid s"
| "typed (Error s) = utf8_valid s"
| "typed (Integer i) = in_i64 i"
| "typed (BulkString b) = True"
| "typed (Array vs) = list_all typed vs"
| "typed Null = True"
| "typed (Double d) = True"
| "typed (Boolean b) = True"
| "typed (Map ps) = typed_pairs ps"
| "typed (Set vs) = list_all typed vs"
| "typed (VerbatimString e d) = (utf8_valid e \<and> utf8_valid d)"
| "typed (BigNumber s) = utf8_valid s"
| "typed (BulkError s) = utf8_valid s"
| "typed (Push k vs) = (utf8_valid k \<and> list_all typed vs)"
| "typed (Attribute v ps) = (typed v \<and> typed_pairs ps)"
| "typed_pairs [] = True"
| "typed_pairs ((k, v) # ps) = (typed k \<and> typed v \<and> typed_pairs ps)"
  by pat_completeness auto
termination
  by (relation "measure (case_sum size (size_list (size_prod size size)))")
     (auto simp: less_Suc_eq_le intro: size_list_estimation' [where f = size])

lemma typed_pairs_append [simp]: "typed_pairs (ps @ qs) \<longleftrightarrow> typed_pairs ps \<and> typed_pairs qs"
  by (induction ps) auto

section \<open>Lemmas\<close>

lemma is_error_iff_msg: "is_error v \<longleftrightarrow> as_error_msg v \<noteq> None"
  by (cases v) auto

lemma error_no_accessor:
  "is_error v \<Longrightarrow>
     as_str v = None \<and> as_bytes v = None \<and> as_int v = None \<and> as_f64 v = None \<and> as_bool v = None \<and>
     into_array v = None \<and> into_map v = None \<and> into_set v = None \<and> \<not> is_null v \<and> \<not> is_push v"
  by (cases v) auto

lemma as_str_utf8: "typed v \<Longrightarrow> as_str v = Some s \<Longrightarrow> utf8_valid s"
  by (cases v) (auto split: if_splits)

lemma type_name_array: "type_name v = ''array'' \<longleftrightarrow> into_array v \<noteq> None"
  by (cases v) auto

end
