(* ===== verification/Resp_Parser.thy ===== *)
theory Resp_Parser
  imports Crates Resp_Types
begin

text \<open>
  \<open>src/src/resp/parser.rs\<close>: the streaming RESP2/RESP3 parser \<open>parse\<close> and the frame
  scanner \<open>resp_frame_len\<close>.

  Each \<open>parse_*\<close> function of the source is a definition with the same checks in the same
  order. The functions for aggregates call \<open>parse\<close> on the elements; here they take that
  recursive call as the argument \<open>p\<close>, and \<open>parse\<close> ties the knot on strictly shorter
  buffers. The two loop shapes of the source (\<open>count\<close> values; \<open>count\<close> pairs of values) are
  \<open>parse_seq\<close> and \<open>parse_pairs\<close>.
\<close>

section \<open>Helpers\<close>

text \<open>Find the next CRLF at or after \<open>offset\<close>.\<close>

definition find_crlf :: "crates \<Rightarrow> bytes \<Rightarrow> nat \<Rightarrow> nat res" where
  "find_crlf C buf offset =
     and_then (slice_from buf offset) (\<lambda>search.
       case memchr C CR search of
         Some pos \<Rightarrow>
           (let abs = offset + pos in
            if abs + 1 < length buf \<and> buf ! (abs + 1) = LF then Ok abs
            else if length buf \<le> abs + 1 then Err Incomplete
            else Err (Protocol (''expected '' @ [CHR 0x5C] @ ''n after '' @ [CHR 0x5C] @ ''r'')))
       | None \<Rightarrow> Err Incomplete)"

definition read_line :: "crates \<Rightarrow> bytes \<Rightarrow> nat \<Rightarrow> (bytes \<times> nat) res" where
  "read_line C buf offset =
     and_then (find_crlf C buf offset) (\<lambda>cr.
     and_then (slice_range buf offset cr) (\<lambda>line. Ok (line, cr + 2)))"

text \<open>The digit loop of \<open>parse_int_from_bytes\<close>: accumulate as a negative number.\<close>

fun parse_int_digits :: "int \<Rightarrow> bytes \<Rightarrow> int res" where
  "parse_int_digits n [] = Ok n"
| "parse_int_digits n (b # bs) =
     (if \<not> ascii_digit b then Err (Protocol (''invalid byte in integer: '' @ hex_byte b))
      else case Option.bind (checked_mul_i64 n 10) (\<lambda>n. checked_sub_i64 n (int (digit_val b))) of
        Some n' \<Rightarrow> parse_int_digits n' bs
      | None \<Rightarrow> Err (Protocol ''integer overflow''))"

definition parse_int_from_bytes :: "bytes \<Rightarrow> int res" where
  "parse_int_from_bytes bytes =
     (if bytes = [] then Err (Protocol ''empty integer'')
      else let (negative, digits) =
             (if bytes ! 0 = CHR ''-'' then (True, drop 1 bytes)
              else if bytes ! 0 = CHR ''+'' then (False, drop 1 bytes)
              else (False, bytes))
           in if digits = [] then Err (Protocol ''integer has no digits'')
              else and_then (parse_int_digits 0 digits) (\<lambda>n.
                     Ok (if negative then n else wrap_i64 (- n))))"

section \<open>Scalar types\<close>

type_synonym parsed = "(RespValue \<times> nat) res"

definition utf8_or :: "string \<Rightarrow> bytes \<Rightarrow> string res" where
  "utf8_or what bs = map_err (\<lambda>e. Protocol (what @ utf8_error_msg e)) (from_utf8 bs)"

definition parse_simple_string :: "crates \<Rightarrow> bytes \<Rightarrow> parsed" where
  "parse_simple_string C buf =
     and_then (read_line C buf 1) (\<lambda>(line, next).
     and_then (if line = ''OK'' then Ok ''OK''
               else if line = ''PONG'' then Ok ''PONG''
               else if line = ''QUEUED'' then Ok ''QUEUED''
               else utf8_or ''invalid UTF-8 in simple string: '' line) (\<lambda>s.
     Ok (SimpleString s, next)))"

definition parse_simple_error :: "crates \<Rightarrow> bytes \<Rightarrow> parsed" where
  "parse_simple_error C buf =
     and_then (read_line C buf 1) (\<lambda>(line, next).
     and_then (utf8_or ''invalid UTF-8 in error: '' line) (\<lambda>s.
     Ok (Error s, next)))"

definition parse_integer :: "crates \<Rightarrow> bytes \<Rightarrow> parsed" where
  "parse_integer C buf =
     and_then (read_line C buf 1) (\<lambda>(line, next).
     and_then (parse_int_from_bytes line) (\<lambda>i.
     Ok (Integer i, next)))"

definition parse_bulk_string :: "crates \<Rightarrow> bytes \<Rightarrow> parsed" where
  "parse_bulk_string C buf =
     and_then (read_line C buf 1) (\<lambda>(line, next).
     and_then (parse_int_from_bytes line) (\<lambda>len.
     if len < 0 then Ok (Null, next)
     else let data_end = next + nat len in
       if length buf < data_end + 2 then Err Incomplete
       else if buf ! data_end \<noteq> CR \<or> buf ! (data_end + 1) \<noteq> LF then
         Err (Protocol (''bulk string not terminated by '' @ [CHR 0x5C] @ ''r'' @ [CHR 0x5C] @ ''n''))
       else and_then (slice_range buf next data_end) (\<lambda>data.
         Ok (BulkString data, data_end + 2))))"

definition parse_null :: "bytes \<Rightarrow> parsed" where
  "parse_null buf =
     (if length buf < 3 then Err Incomplete
      else if buf ! 1 \<noteq> CR \<or> buf ! 2 \<noteq> LF then
        Err (Protocol (''null type not terminated by '' @ [CHR 0x5C] @ ''r'' @ [CHR 0x5C] @ ''n''))
      else Ok (Null, 3))"

definition parse_boolean :: "bytes \<Rightarrow> parsed" where
  "parse_boolean buf =
     (if length buf < 4 then Err Incomplete
      else and_then (if buf ! 1 = CHR ''t'' then Ok True
                     else if buf ! 1 = CHR ''f'' then Ok False
                     else Err (Protocol (''invalid boolean value: '' @ hex_byte (buf ! 1)))) (\<lambda>val.
        if buf ! 2 \<noteq> CR \<or> buf ! 3 \<noteq> LF then
          Err (Protocol (''boolean not terminated by '' @ [CHR 0x5C] @ ''r'' @ [CHR 0x5C] @ ''n''))
        else Ok (Boolean val, 4)))"

definition parse_double :: "crates \<Rightarrow> bytes \<Rightarrow> parsed" where
  "parse_double C buf =
     and_then (read_line C buf 1) (\<lambda>(line, next).
     and_then (utf8_or ''invalid UTF-8 in double: '' line) (\<lambda>s.
     and_then (if s = ''inf'' then Ok F64_INFINITY
               else if s = ''-inf'' then Ok F64_NEG_INFINITY
               else if s = ''nan'' then Ok F64_NAN
               else map_err (\<lambda>e. Protocol (''invalid double: '' @ parse_float_error_msg e)) (parse_f64 s)) (\<lambda>d.
     Ok (Double d, next))))"

text \<open>\<open>s.strip_prefix(['+', '-']).unwrap_or(s)\<close>.\<close>

definition strip_sign :: "string \<Rightarrow> string" where
  "strip_sign s = (case s of c # cs \<Rightarrow> if c = CHR ''+'' \<or> c = CHR ''-'' then cs else s | [] \<Rightarrow> [])"

definition parse_big_number :: "crates \<Rightarrow> bytes \<Rightarrow> parsed" where
  "parse_big_number C buf =
     and_then (read_line C buf 1) (\<lambda>(line, next).
     and_then (utf8_or ''invalid UTF-8 in big number: '' line) (\<lambda>s.
     let digits = strip_sign s in
     if digits = [] \<or> \<not> list_all ascii_digit digits then
       Err (Protocol (''invalid big number: '' @ s))
     else Ok (BigNumber s, next)))"

definition parse_bulk_error :: "crates \<Rightarrow> bytes \<Rightarrow> parsed" where
  "parse_bulk_error C buf =
     and_then (read_line C buf 1) (\<lambda>(line, next).
     and_then (parse_int_from_bytes line) (\<lambda>len.
     if len < 0 then Err (Protocol ''negative bulk error length'')
     else let len = nat len in
       if length buf < next + len + 2 then Err Incomplete
       else if buf ! (next + len) \<noteq> CR \<or> buf ! (next + len + 1) \<noteq> LF then
         Err (Protocol (''bulk error not terminated by '' @ [CHR 0x5C] @ ''r'' @ [CHR 0x5C] @ ''n''))
       else and_then (slice_range buf next (next + len)) (\<lambda>content.
         and_then (utf8_or ''invalid UTF-8 in bulk error: '' content) (\<lambda>s.
         Ok (BulkError s, next + len + 2)))))"

definition parse_verbatim_string :: "crates \<Rightarrow> bytes \<Rightarrow> parsed" where
  "parse_verbatim_string C buf =
     and_then (read_line C buf 1) (\<lambda>(line, next).
     and_then (parse_int_from_bytes line) (\<lambda>len.
     if len < 0 then Err (Protocol ''negative verbatim string length'')
     else let len = nat len in
       if length buf < next + len + 2 then Err Incomplete
       else if buf ! (next + len) \<noteq> CR \<or> buf ! (next + len + 1) \<noteq> LF then
         Err (Protocol (''verbatim string not terminated by '' @ [CHR 0x5C] @ ''r'' @ [CHR 0x5C] @ ''n''))
       else and_then (slice_range buf next (next + len)) (\<lambda>content.
         if len < 4 \<or> content ! 3 \<noteq> CHR '':'' then
           Err (Protocol ''verbatim string missing encoding prefix'')
         else
           and_then (utf8_or ''invalid encoding in verbatim string: '' (take 3 content)) (\<lambda>encoding.
           and_then (utf8_or ''invalid data in verbatim string: '' (drop 4 content)) (\<lambda>data.
           Ok (VerbatimString encoding data, next + len + 2))))))"

section \<open>Aggregates\<close>

text \<open>The loop \<open>for _ in 0..count\<close> that parses one value per round.\<close>

fun parse_seq :: "(bytes \<Rightarrow> parsed) \<Rightarrow> bytes \<Rightarrow> nat \<Rightarrow> nat \<Rightarrow> RespValue list
    \<Rightarrow> (RespValue list \<times> nat) res" where
  "parse_seq p buf next 0 acc = Ok (acc, next)"
| "parse_seq p buf next (Suc n) acc =
     and_then (slice_from buf next) (\<lambda>sub.
     and_then (p sub) (\<lambda>(val, consumed).
     parse_seq p buf (next + consumed) n (acc @ [val])))"

text \<open>The loop that parses a key and a value per round.\<close>

fun parse_pairs :: "(bytes \<Rightarrow> parsed) \<Rightarrow> bytes \<Rightarrow> nat \<Rightarrow> nat \<Rightarrow> (RespValue \<times> RespValue) list
    \<Rightarrow> ((RespValue \<times> RespValue) list \<times> nat) res" where
  "parse_pairs p buf next 0 acc = Ok (acc, next)"
| "parse_pairs p buf next (Suc n) acc =
     and_then (slice_from buf next) (\<lambda>sub.
     and_then (p sub) (\<lambda>(key, consumed_k).
     and_then (slice_from buf (next + consumed_k)) (\<lambda>sub.
     and_then (p sub) (\<lambda>(val, consumed_v).
     parse_pairs p buf (next + consumed_k + consumed_v) n (acc @ [(key, val)])))))"

definition parse_array :: "crates \<Rightarrow> (bytes \<Rightarrow> parsed) \<Rightarrow> bytes \<Rightarrow> parsed" where
  "parse_array C p buf =
     and_then (read_line C buf 1) (\<lambda>(line, next).
     and_then (parse_int_from_bytes line) (\<lambda>count.
     if count < 0 then Ok (Null, next)
     else and_then (with_capacity C (nat count)) (\<lambda>_.
       and_then (parse_seq p buf next (nat count) []) (\<lambda>(elements, next).
       Ok (Array elements, next)))))"

definition parse_map :: "crates \<Rightarrow> (bytes \<Rightarrow> parsed) \<Rightarrow> bytes \<Rightarrow> parsed" where
  "parse_map C p buf =
     and_then (read_line C buf 1) (\<lambda>(line, next).
     and_then (parse_int_from_bytes line) (\<lambda>count.
     if count < 0 then Err (Protocol ''negative map count'')
     else and_then (with_capacity C (2 * nat count)) (\<lambda>_.
       and_then (parse_pairs p buf next (nat count) []) (\<lambda>(pairs, next).
       Ok (Map pairs, next)))))"

definition parse_set :: "crates \<Rightarrow> (bytes \<Rightarrow> parsed) \<Rightarrow> bytes \<Rightarrow> parsed" where
  "parse_set C p buf =
     and_then (read_line C buf 1) (\<lambda>(line, next).
     and_then (parse_int_from_bytes line) (\<lambda>count.
     if count < 0 then Err (Protocol ''negative set count'')
     else and_then (with_capacity C (nat count)) (\<lambda>_.
       and_then (parse_seq p buf next (nat count) []) (\<lambda>(elements, next).
       Ok (Set elements, next)))))"

definition push_kind :: "RespValue \<Rightarrow> string res" where
  "push_kind kind_val =
     (case kind_val of
        SimpleString s \<Rightarrow> Ok s
      | BulkString b \<Rightarrow> utf8_or ''invalid push kind: '' b
      | other \<Rightarrow> Err (Protocol (''push kind must be a string, got '' @ type_name other)))"

definition parse_push :: "crates \<Rightarrow> (bytes \<Rightarrow> parsed) \<Rightarrow> bytes \<Rightarrow> parsed" where
  "parse_push C p buf =
     and_then (read_line C buf 1) (\<lambda>(line, next).
     and_then (parse_int_from_bytes line) (\<lambda>count.
     if count < 0 then Err (Protocol ''negative push count'')
     else let count = nat count in
       if count = 0 then Err (Protocol ''push message must have at least one element (kind)'')
       else
         and_then (slice_from buf next) (\<lambda>sub.
         and_then (p sub) (\<lambda>(kind_val, consumed).
         let next = next + consumed in
         and_then (push_kind kind_val) (\<lambda>kind.
         and_then (with_capacity C (count - 1)) (\<lambda>_.
         and_then (parse_seq p buf next (count - 1) []) (\<lambda>(data, next).
         Ok (Push kind data, next))))))))"

definition parse_attribute :: "crates \<Rightarrow> (bytes \<Rightarrow> parsed) \<Rightarrow> bytes \<Rightarrow> parsed" where
  "parse_attribute C p buf =
     and_then (read_line C buf 1) (\<lambda>(line, next).
     and_then (parse_int_from_bytes line) (\<lambda>count.
     if count < 0 then Err (Protocol ''negative attribute count'')
     else and_then (with_capacity C (2 * nat count)) (\<lambda>_.
       and_then (parse_pairs p buf next (nat count) []) (\<lambda>(attributes, next).
       and_then (slice_from buf next) (\<lambda>sub.
       and_then (p sub) (\<lambda>(data, consumed).
       Ok (Attribute data attributes, next + consumed)))))))"

section \<open>The element loops only look at shorter buffers\<close>

lemma read_line_next: "read_line C buf offset = Ok (line, k) \<Longrightarrow> 0 < k"
  by (auto simp: read_line_def and_then_eqs slice_range_eq_Ok)

lemma slice_step_cong:
  assumes "0 < k" and "\<And>b. length b < length buf \<Longrightarrow> p b = q b" and "\<And>v c. f (v, c) = g (v, c)"
  shows "and_then (slice_from buf k) (\<lambda>sub. and_then (p sub) f) =
         and_then (slice_from buf k) (\<lambda>sub. and_then (q sub) g)"
proof (cases "k \<le> length buf")
  case True
  with assms(1) have "p (drop k buf) = q (drop k buf)" by (intro assms(2)) simp
  moreover have "f = g" using assms(3) by auto
  ultimately show ?thesis using True by simp
qed (simp add: slice_from_def)

lemma parse_seq_cong:
  assumes "0 < k" and "\<And>b. length b < length buf \<Longrightarrow> p b = q b"
  shows "parse_seq p buf k n acc = parse_seq q buf k n acc"
  using assms(1)
proof (induction n arbitrary: k acc)
  case (Suc n)
  then show ?case by (simp add: slice_step_cong [OF _ assms(2)])
qed simp

lemma parse_pairs_cong:
  assumes "0 < k" and "\<And>b. length b < length buf \<Longrightarrow> p b = q b"
  shows "parse_pairs p buf k n acc = parse_pairs q buf k n acc"
  using assms(1)
proof (induction n arbitrary: k acc)
  case (Suc n)
  then show ?case
    by (simp add: slice_step_cong [OF _ assms(2)] cong: slice_step_cong)
qed simp

lemma parse_array_cong [fundef_cong]:
  "C = C' \<Longrightarrow> buf = buf' \<Longrightarrow> (\<And>b. length b < length buf' \<Longrightarrow> p b = q b) \<Longrightarrow>
   parse_array C p buf = parse_array C' q buf'"
  unfolding parse_array_def
  by (auto intro!: and_then_cong parse_seq_cong dest!: read_line_next)

lemma parse_map_cong [fundef_cong]:
  "C = C' \<Longrightarrow> buf = buf' \<Longrightarrow> (\<And>b. length b < length buf' \<Longrightarrow> p b = q b) \<Longrightarrow>
   parse_map C p buf = parse_map C' q buf'"
  unfolding parse_map_def
  by (auto intro!: and_then_cong parse_pairs_cong dest!: read_line_next)

lemma parse_set_cong [fundef_cong]:
  "C = C' \<Longrightarrow> buf = buf' \<Longrightarrow> (\<And>b. length b < length buf' \<Longrightarrow> p b = q b) \<Longrightarrow>
   parse_set C p buf = parse_set C' q buf'"
  unfolding parse_set_def
  by (auto intro!: and_then_cong parse_seq_cong dest!: read_line_next)

lemma parse_push_cong [fundef_cong]:
  assumes "C = C'" "buf = buf'" and "\<And>b. length b < length buf' \<Longrightarrow> p b = q b"
  shows "parse_push C p buf = parse_push C' q buf'"
  unfolding parse_push_def Let_def assms(1,2)
  by (auto intro!: and_then_cong slice_step_cong assms(3)
      simp: slice_from_eq_Ok parse_seq_cong [OF _ assms(3)] dest!: read_line_next)

lemma parse_seq_next: "parse_seq p buf k n acc = Ok (vs, k') \<Longrightarrow> k \<le> k'"
  by (induction n arbitrary: k acc) (fastforce simp: and_then_eqs)+

lemma parse_pairs_next: "parse_pairs p buf k n acc = Ok (ps, k') \<Longrightarrow> k \<le> k'"
  by (induction n arbitrary: k acc) (fastforce simp: and_then_eqs)+

lemma parse_attribute_cong [fundef_cong]:
  assumes "C = C'" "buf = buf'" and "\<And>b. length b < length buf' \<Longrightarrow> p b = q b"
  shows "parse_attribute C p buf = parse_attribute C' q buf'"
  unfolding parse_attribute_def assms(1,2)
  by (auto intro!: and_then_cong slice_step_cong assms(3)
      simp: slice_from_eq_Ok parse_pairs_cong [OF _ assms(3)] dest!: read_line_next parse_pairs_next)

section \<open>The parser\<close>

function parse :: "crates \<Rightarrow> bytes \<Rightarrow> parsed" where
  "parse C buf =
     (if buf = [] then Err Incomplete
      else if buf ! 0 = CHR ''+'' then parse_simple_string C buf
      else if buf ! 0 = CHR ''-'' then parse_simple_error C buf
      else if buf ! 0 = CHR '':'' then parse_integer C buf
      else if buf ! 0 = CHR ''$'' then parse_bulk_string C buf
      else if buf ! 0 = CHR ''*'' then parse_array C (parse C) buf
      else if buf ! 0 = CHR ''_'' then parse_null buf
      else if buf ! 0 = CHR ''#'' then parse_boolean buf
      else if buf ! 0 = CHR '','' then parse_double C buf
      else if buf ! 0 = CHR ''('' then parse_big_number C buf
      else if buf ! 0 = CHR ''!'' then parse_bulk_error C buf
      else if buf ! 0 = CHR ''='' then parse_verbatim_string C buf
      else if buf ! 0 = CHR ''%'' then parse_map C (parse C) buf
      else if buf ! 0 = CHR ''~'' then parse_set C (parse C) buf
      else if buf ! 0 = CHR ''>'' then parse_push C (parse C) buf
      else if buf ! 0 = CHR ''|'' then parse_attribute C (parse C) buf
      else Err (Protocol (''unknown RESP type byte: '' @ hex_byte (buf ! 0))))"
  by pat_completeness auto
termination
  by (relation "measure (\<lambda>(C, buf). length buf)") auto

declare parse.simps [simp del]

definition parse_slice :: "crates \<Rightarrow> bytes \<Rightarrow> parsed" where
  "parse_slice C buf = parse C buf"

section \<open>The frame scanner\<close>

text \<open>
  \<open>resp_frame_len\<close> walks the same wire format without building values. Its branches are
  separate definitions here; \<open>f\<close> is the recursive call.
\<close>

fun frame_seq :: "(bytes \<Rightarrow> nat res) \<Rightarrow> bytes \<Rightarrow> nat \<Rightarrow> nat \<Rightarrow> nat res" where
  "frame_seq f buf next 0 = Ok next"
| "frame_seq f buf next (Suc n) =
     and_then (slice_from buf next) (\<lambda>sub.
     and_then (f sub) (\<lambda>child_len.
     frame_seq f buf (next + child_len) n))"

fun frame_pairs :: "(bytes \<Rightarrow> nat res) \<Rightarrow> bytes \<Rightarrow> nat \<Rightarrow> nat \<Rightarrow> nat res" where
  "frame_pairs f buf next 0 = Ok next"
| "frame_pairs f buf next (Suc n) =
     and_then (slice_from buf next) (\<lambda>sub.
     and_then (f sub) (\<lambda>k_len.
     and_then (slice_from buf (next + k_len)) (\<lambda>sub.
     and_then (f sub) (\<lambda>v_len.
     frame_pairs f buf (next + k_len + v_len) n))))"

definition frame_line :: "crates \<Rightarrow> bytes \<Rightarrow> nat res" where
  "frame_line C buf = and_then (read_line C buf 1) (\<lambda>(_, next). Ok next)"

definition frame_bulk :: "crates \<Rightarrow> bytes \<Rightarrow> nat res" where
  "frame_bulk C buf =
     and_then (read_line C buf 1) (\<lambda>(line, next).
     and_then (parse_int_from_bytes line) (\<lambda>len.
     if len < 0 then Ok next
     else let total = next + nat len + 2 in
       if length buf < total then Err Incomplete else Ok total))"

definition frame_array :: "crates \<Rightarrow> (bytes \<Rightarrow> nat res) \<Rightarrow> bytes \<Rightarrow> nat res" where
  "frame_array C f buf =
     and_then (read_line C buf 1) (\<lambda>(line, next).
     and_then (parse_int_from_bytes line) (\<lambda>count.
     if count < 0 then Ok next else frame_seq f buf next (nat count)))"

definition frame_map :: "crates \<Rightarrow> (bytes \<Rightarrow> nat res) \<Rightarrow> bytes \<Rightarrow> nat res" where
  "frame_map C f buf =
     and_then (read_line C buf 1) (\<lambda>(line, next).
     and_then (parse_int_from_bytes line) (\<lambda>count.
     if count < 0 then Err (Protocol ''negative map count'')
     else frame_pairs f buf next (nat count)))"

definition frame_attribute :: "crates \<Rightarrow> (bytes \<Rightarrow> nat res) \<Rightarrow> bytes \<Rightarrow> nat res" where
  "frame_attribute C f buf =
     and_then (read_line C buf 1) (\<lambda>(line, next).
     and_then (parse_int_from_bytes line) (\<lambda>count.
     if count < 0 then Err (Protocol ''negative attribute count'')
     else and_then (frame_pairs f buf next (nat count)) (\<lambda>next.
       and_then (slice_from buf next) (\<lambda>sub.
       and_then (f sub) (\<lambda>data_len.
       Ok (next + data_len))))))"

lemma slice_step_cong':
  assumes "0 < k" and "\<And>b. length b < length buf \<Longrightarrow> p b = q b" and "\<And>c. f c = g c"
  shows "and_then (slice_from buf k) (\<lambda>sub. and_then (p sub) f) =
         and_then (slice_from buf k) (\<lambda>sub. and_then (q sub) g)"
proof (cases "k \<le> length buf")
  case True
  with assms(1) have "p (drop k buf) = q (drop k buf)" by (intro assms(2)) simp
  moreover have "f = g" using assms(3) by auto
  ultimately show ?thesis using True by simp
qed (simp add: slice_from_def)

lemma frame_seq_cong:
  assumes "0 < k" and "\<And>b. length b < length buf \<Longrightarrow> p b = q b"
  shows "frame_seq p buf k n = frame_seq q buf k n"
  using assms(1)
proof (induction n arbitrary: k)
  case (Suc n)
  then show ?case by (simp add: slice_step_cong' [OF _ assms(2)])
qed simp

lemma frame_pairs_cong:
  assumes "0 < k" and "\<And>b. length b < length buf \<Longrightarrow> p b = q b"
  shows "frame_pairs p buf k n = frame_pairs q buf k n"
  using assms(1)
proof (induction n arbitrary: k)
  case (Suc n)
  then show ?case
    by (simp add: slice_step_cong' [OF _ assms(2)] cong: slice_step_cong')
qed simp

lemma frame_seq_next: "frame_seq p buf k n = Ok k' \<Longrightarrow> k \<le> k'"
  by (induction n arbitrary: k) (fastforce simp: and_then_eqs)+

lemma frame_pairs_next: "frame_pairs p buf k n = Ok k' \<Longrightarrow> k \<le> k'"
  by (induction n arbitrary: k) (fastforce simp: and_then_eqs)+

lemma frame_array_cong [fundef_cong]:
  "C = C' \<Longrightarrow> buf = buf' \<Longrightarrow> (\<And>b. length b < length buf' \<Longrightarrow> p b = q b) \<Longrightarrow>
   frame_array C p buf = frame_array C' q buf'"
  unfolding frame_array_def
  by (auto intro!: and_then_cong frame_seq_cong dest!: read_line_next)

lemma frame_map_cong [fundef_cong]:
  "C = C' \<Longrightarrow> buf = buf' \<Longrightarrow> (\<And>b. length b < length buf' \<Longrightarrow> p b = q b) \<Longrightarrow>
   frame_map C p buf = frame_map C' q buf'"
  unfolding frame_map_def
  by (auto intro!: and_then_cong frame_pairs_cong dest!: read_line_next)

lemma frame_attribute_cong [fundef_cong]:
  assumes "C = C'" "buf = buf'" and "\<And>b. length b < length buf' \<Longrightarrow> p b = q b"
  shows "frame_attribute C p buf = frame_attribute C' q buf'"
  unfolding frame_attribute_def assms(1,2)
  by (auto intro!: and_then_cong slice_step_cong' assms(3)
      simp: slice_from_eq_Ok frame_pairs_cong [OF _ assms(3)] dest!: read_line_next frame_pairs_next)

function resp_frame_len :: "crates \<Rightarrow> bytes \<Rightarrow> nat res" where
  "resp_frame_len C buf =
     (if buf = [] then Err Incomplete
      else if buf ! 0 \<in> {CHR ''+'', CHR ''-'', CHR '':'', CHR '','', CHR ''(''} then frame_line C buf
      else if buf ! 0 = CHR ''_'' then (if length buf < 3 then Err Incomplete else Ok 3)
      else if buf ! 0 = CHR ''#'' then (if length buf < 4 then Err Incomplete else Ok 4)
      else if buf ! 0 \<in> {CHR ''$'', CHR ''!'', CHR ''=''} then frame_bulk C buf
      else if buf ! 0 \<in> {CHR ''*'', CHR ''~'', CHR ''>''} then frame_array C (resp_frame_len C) buf
      else if buf ! 0 = CHR ''%'' then frame_map C (resp_frame_len C) buf
      else if buf ! 0 = CHR ''|'' then frame_attribute C (resp_frame_len C) buf
      else Err (Protocol (''unknown RESP type byte: '' @ hex_byte (buf ! 0))))"
  by pat_completeness auto
termination
  by (relation "measure (\<lambda>(C, buf). length buf)") auto

declare resp_frame_len.simps [simp del]

end
