(* ===== verification/Resp_Stream.thy ===== *)
theory Resp_Stream
  imports Resp_Parser
begin

text \<open>
  The streaming contract of \<open>src/src/resp/parser.rs\<close>. A connection appends bytes to its
  buffer and calls the parser again after every read, so what matters is how the answer on
  a buffer relates to the answer on a longer one. The interface is the locale
  \<open>stream_parser\<close>; \<open>parse\<close> and \<open>resp_frame_len\<close> are its two interpretations.
\<close>

section \<open>Answers on a longer buffer\<close>

text \<open>
  \<open>Incomplete\<close> is the least informative answer: more bytes may replace it by anything.
  Every other answer is final. The order is flat, and the question-mark operator is
  monotone in it.
\<close>

definition extends :: "'a res \<Rightarrow> 'a res \<Rightarrow> bool" where
  "extends m m' \<longleftrightarrow> m = Err Incomplete \<or> m' = m"

lemma extends_refl [simp, intro!]: "extends m m"
  by (simp add: extends_def)

lemma extends_Incomplete [simp, intro!]: "extends (Err Incomplete) m"
  by (simp add: extends_def)

lemma extends_and_then:
  assumes "extends m m'" and "\<And>x. m = Ok x \<Longrightarrow> extends (f x) (g x)"
  shows "extends (and_then m f) (and_then m' g)"
  using assms by (cases m) (auto simp: extends_def)

lemma extends_if:
  "(b \<Longrightarrow> extends m m') \<Longrightarrow> (\<not> b \<Longrightarrow> extends n n') \<Longrightarrow>
   extends (if b then m else n) (if b then m' else n')"
  by simp

lemma extends_eq: "extends m m' \<Longrightarrow> m \<noteq> Err Incomplete \<Longrightarrow> m' = m"
  by (simp add: extends_def)

lemma extends_slice_from:
  assumes "k \<le> length buf" and "extends (f (drop k buf)) (g (drop k buf @ e))"
  shows "extends (and_then (slice_from buf k) f) (and_then (slice_from (buf @ e) k) g)"
  using assms by simp

lemma extends_slice_range:
  assumes "a \<le> b" "b \<le> length buf" and "extends (f (take (b - a) (drop a buf))) (g (take (b - a) (drop a buf)))"
  shows "extends (and_then (slice_range buf a b) f) (and_then (slice_range (buf @ e) a b) g)"
  using assms by (simp add: take_drop_append_left)

text \<open>
  A parser is exact on a buffer when a successful answer consumes between one byte and the
  whole buffer, and depends on the consumed bytes only.
\<close>

definition exact :: "(bytes \<Rightarrow> ('a \<times> nat) res) \<Rightarrow> bytes \<Rightarrow> bool" where
  "exact p b \<longleftrightarrow> (\<forall>v n. p b = Ok (v, n) \<longrightarrow> 0 < n \<and> n \<le> length b \<and> p (take n b) = Ok (v, n))"

definition monotone_on_append :: "(bytes \<Rightarrow> 'a res) \<Rightarrow> bytes \<Rightarrow> bool" where
  "monotone_on_append p b \<longleftrightarrow> (\<forall>e. extends (p b) (p (b @ e)))"

lemma exactI:
  "(\<And>v n. p b = Ok (v, n) \<Longrightarrow> 0 < n \<and> n \<le> length b \<and> p (take n b) = Ok (v, n)) \<Longrightarrow> exact p b"
  by (simp add: exact_def)

lemma exactD:
  "exact p b \<Longrightarrow> p b = Ok (v, n) \<Longrightarrow> 0 < n \<and> n \<le> length b \<and> p (take n b) = Ok (v, n)"
  by (simp add: exact_def)

lemma monotone_on_appendD: "monotone_on_append p b \<Longrightarrow> extends (p b) (p (b @ e))"
  by (simp add: monotone_on_append_def)

text \<open>On a buffer where it is both, any cut at or after the consumed bytes gives the same answer.\<close>

lemma exact_take:
  assumes "exact p b" and "\<And>n. monotone_on_append p (take n b)"
    and "p b = Ok (v, n)" and "n \<le> k"
  shows "p (take k b) = Ok (v, n)"
proof -
  from exactD [OF assms(1,3)] have "p (take n b) = Ok (v, n)" by simp
  moreover have "take k b = take n b @ take (k - n) (drop n b)"
    using assms(4) by (metis le_add_diff_inverse take_add)
  ultimately show ?thesis
    using monotone_on_appendD [OF assms(2), of n "take (k - n) (drop n b)"] by (simp add: extends_def)
qed

section \<open>The interface\<close>

text \<open>
  What the connection relies on: it appends to the buffer on \<open>Incomplete\<close>, splits off the
  consumed bytes on success, and gives up on every other answer.
\<close>

locale stream_parser =
  fixes p :: "bytes \<Rightarrow> ('a \<times> nat) res"
  assumes exact: "exact p b"
    and monotone: "monotone_on_append p b"
    and empty_incomplete: "p [] = Err Incomplete"
begin

lemma bounds: "p b = Ok (v, n) \<Longrightarrow> 0 < n \<and> n \<le> length b"
  using exactD [OF exact] by blast

lemma final: "p b \<noteq> Err Incomplete \<Longrightarrow> p (b @ e) = p b"
  using monotone_on_appendD [OF monotone] by (rule extends_eq)

lemma cut_after: "p b = Ok (v, n) \<Longrightarrow> n \<le> k \<Longrightarrow> p (take k b) = Ok (v, n)"
  using exact_take [OF exact monotone] by blast

lemma cut_before:
  assumes "p b = Ok (v, n)" and "k < n"
  shows "p (take k b) = Err Incomplete"
proof (rule ccontr)
  assume "p (take k b) \<noteq> Err Incomplete"
  from final [OF this, of "drop k b"] assms have "p (take k b) = Ok (v, n)" by simp
  from bounds [OF this] assms(2) show False by simp
qed

lemma cut: "p b = Ok (v, n) \<Longrightarrow> p (take k b) = (if n \<le> k then Ok (v, n) else Err Incomplete)"
  using cut_after cut_before by simp

text \<open>A buffer that starts with a frame: the frame, however the rest looks.\<close>

lemma frame_then_rest: "p b = Ok (v, n) \<Longrightarrow> p (take n b @ rest) = Ok (v, n)"
  using cut_after [of b v n n] final [of "take n b" rest] by simp

end

section \<open>Length-prefixed data\<close>

text \<open>The tail of the length-prefixed types: check the length and the terminator, then decode.\<close>

definition bulk_body :: "bytes \<Rightarrow> nat \<Rightarrow> nat \<Rightarrow> PyrsedisError \<Rightarrow> (bytes \<Rightarrow> 'a res) \<Rightarrow> ('a \<times> nat) res" where
  "bulk_body buf k len err g =
     (if length buf < k + len + 2 then Err Incomplete
      else if buf ! (k + len) \<noteq> CR \<or> buf ! (k + len + 1) \<noteq> LF then Err err
      else and_then (slice_range buf k (k + len)) (\<lambda>d. and_then (g d) (\<lambda>x. Ok (x, k + len + 2))))"

definition parse_terminator :: "string \<Rightarrow> PyrsedisError" where
  "parse_terminator what =
     Protocol (what @ '' not terminated by '' @ [CHR 0x5C] @ ''r'' @ [CHR 0x5C] @ ''n'')"

definition verbatim_body :: "bytes \<Rightarrow> RespValue res" where
  "verbatim_body content =
     (if length content < 4 \<or> content ! 3 \<noteq> CHR '':'' then
        Err (Protocol ''verbatim string missing encoding prefix'')
      else
        and_then (utf8_or ''invalid encoding in verbatim string: '' (take 3 content)) (\<lambda>encoding.
        and_then (utf8_or ''invalid data in verbatim string: '' (drop 4 content)) (\<lambda>data.
        Ok (VerbatimString encoding data))))"

lemma bulk_body_append: "extends (bulk_body buf k len err g) (bulk_body (buf @ e) k len err g)"
  by (auto simp: bulk_body_def nth_append intro!: extends_slice_range)

lemma bulk_body_bounds:
  "bulk_body buf k len err g = Ok (v, n) \<Longrightarrow> n = k + len + 2 \<and> n \<le> length buf"
  by (auto simp: bulk_body_def and_then_eq_Ok split: if_splits)

lemma bulk_body_take:
  assumes "bulk_body buf k len err g = Ok (v, n)"
  shows "bulk_body (take n buf) k len err g = Ok (v, n)"
proof -
  from bulk_body_bounds [OF assms] have "bulk_body (take n buf) k len err g = bulk_body buf k len err g"
    by (simp add: bulk_body_def drop_take)
  with assms show ?thesis by simp
qed

lemma bulk_body_not_Panic:
  "(\<And>d. g d \<noteq> Panic) \<Longrightarrow> bulk_body buf k len err g \<noteq> Panic"
  by (auto simp: bulk_body_def and_then_eqs slice_range_def)

lemma bulk_body_encoded:
  "bulk_body (h @ d @ crlf @ rest) (length h) (length d) err g =
     and_then (g d) (\<lambda>x. Ok (x, length h + length d + 2))"
  by (simp add: bulk_body_def nth_append)

section \<open>The element loops\<close>

text \<open>The accumulator of the loops only collects; a loop over pairs is a loop of twice the length.\<close>

lemma parse_seq_acc:
  "parse_seq p buf k n acc = and_then (parse_seq p buf k n []) (\<lambda>(vs, k'). Ok (acc @ vs, k'))"
proof (induction n arbitrary: k acc)
  case (Suc n)
  note a = Suc [of _ "acc @ [v]" for v] and b = Suc [of _ "[v]" for v]
  show ?case
    by (simp add: and_then_assoc split_def a b cong: and_then_cong)
qed simp

fun pair_up :: "'a list \<Rightarrow> ('a \<times> 'a) list" where
  "pair_up (x # y # zs) = (x, y) # pair_up zs"
| "pair_up _ = []"

lemma parse_pairs_seq:
  "parse_pairs p buf k n acc =
     and_then (parse_seq p buf k (2 * n) []) (\<lambda>(vs, k'). Ok (acc @ pair_up vs, k'))"
proof (induction n arbitrary: k acc)
  case (Suc n)
  show ?case
    by (simp add: Suc parse_seq_acc [of p buf _ _ "[v]" for v] parse_seq_acc [of p buf _ _ "[v, w]" for v w]
        and_then_assoc split_def cong: and_then_cong)
qed simp

lemma parse_seq_Suc_end:
  "parse_seq p buf k (Suc n) acc =
     and_then (parse_seq p buf k n acc) (\<lambda>(vs, k'). and_then (slice_from buf k') (\<lambda>sub.
       and_then (p sub) (\<lambda>(v, c). Ok (vs @ [v], k' + c))))"
proof (induction n arbitrary: k acc)
  case (Suc n)
  let ?more = "\<lambda>(vs, k'). and_then (slice_from buf k') (\<lambda>sub.
       and_then (p sub) (\<lambda>(v, c). Ok (vs @ [v], k' + c)))"
  have "parse_seq p buf k (Suc (Suc n)) acc =
      and_then (slice_from buf k) (\<lambda>sub. and_then (p sub) (\<lambda>(v, c). parse_seq p buf (k + c) (Suc n) (acc @ [v])))"
    by simp
  also have "\<dots> = and_then (slice_from buf k) (\<lambda>sub. and_then (p sub) (\<lambda>(v, c).
      and_then (parse_seq p buf (k + c) n (acc @ [v])) ?more))"
    by (simp only: Suc)
  also have "\<dots> = and_then (parse_seq p buf k (Suc n) acc) ?more"
    by (simp add: and_then_assoc split_def)
  finally show ?case .
qed simp

lemma parse_seq_length: "parse_seq p buf k n acc = Ok (vs, k') \<Longrightarrow> length vs = length acc + n"
  by (induction n arbitrary: k acc) (auto elim!: and_then_OkE)

lemma pair_up_snoc: "even (length vs) \<Longrightarrow> pair_up (vs @ [v]) = pair_up vs"
  by (induction vs rule: pair_up.induct) auto

text \<open>An attribute is read by one loop: its keys and values, then the value it annotates.\<close>

lemma parse_attribute_seq:
  "parse_attribute C p buf =
     and_then (read_line C buf 1) (\<lambda>(line, next). and_then (parse_int_from_bytes line) (\<lambda>count.
     if count < 0 then Err (Protocol ''negative attribute count'')
     else and_then (with_capacity C (2 * nat count)) (\<lambda>_.
       and_then (parse_seq p buf next (Suc (2 * nat count)) []) (\<lambda>(vs, k).
         Ok (Attribute (last vs) (pair_up vs), k)))))"
  unfolding parse_attribute_def parse_seq_Suc_end parse_pairs_seq
  by (auto intro!: and_then_cong simp: and_then_assoc pair_up_snoc dest!: parse_seq_length)

text \<open>The loops of the frame scanner are the loops of a parser that forgets the values.\<close>

definition forget :: "(bytes \<Rightarrow> nat res) \<Rightarrow> bytes \<Rightarrow> parsed" where
  "forget f b = and_then (f b) (\<lambda>n. Ok (Null, n))"

lemma frame_seq_forget:
  "frame_seq f buf k n = and_then (parse_seq (forget f) buf k n acc) (\<lambda>(_, k'). Ok k')"
  by (induction n arbitrary: k acc)
     (simp_all add: forget_def and_then_assoc split_def cong: and_then_cong)

lemma frame_pairs_forget:
  "frame_pairs f buf k n = and_then (parse_seq (forget f) buf k (2 * n) acc) (\<lambda>(_, k'). Ok k')"
  by (induction n arbitrary: k acc)
     (simp_all add: forget_def and_then_assoc split_def cong: and_then_cong)

text \<open>What the induction over buffer lengths provides about the recursive calls.\<close>

definition streams_below :: "(bytes \<Rightarrow> parsed) \<Rightarrow> nat \<Rightarrow> bool" where
  "streams_below p N \<longleftrightarrow> (\<forall>b. length b < N \<longrightarrow> exact p b \<and> monotone_on_append p b)"

lemma streams_belowD:
  "streams_below p N \<Longrightarrow> length b < N \<Longrightarrow> exact p b"
  "streams_below p N \<Longrightarrow> length b < N \<Longrightarrow> monotone_on_append p b"
  by (simp_all add: streams_below_def)

text \<open>One round of a loop: one recursive call on the rest of the buffer.\<close>

lemma step_bounds:
  assumes "streams_below p (length buf)" "0 < k" "k \<le> length buf" "p (drop k buf) = Ok (v, c)"
  shows "0 < c" "k + c \<le> length buf"
  using exactD [OF streams_belowD(1) [OF assms(1)] assms(4)] assms(2,3) by (simp_all add: le_diff_conv2 add.commute)

lemma step_append:
  assumes "streams_below p (length buf)" "0 < k" "k \<le> length buf"
    and "\<And>v c. p (drop k buf) = Ok (v, c) \<Longrightarrow> k + c \<le> length buf \<Longrightarrow> extends (f v c) (g v c)"
  shows "extends (and_then (slice_from buf k) (\<lambda>sub. and_then (p sub) (\<lambda>(v, c). f v c)))
    (and_then (slice_from (buf @ e) k) (\<lambda>sub. and_then (p sub) (\<lambda>(v, c). g v c)))"
proof (rule extends_slice_from [OF assms(3)], rule extends_and_then)
  show "extends (p (drop k buf)) (p (drop k buf @ e))"
    using assms(2,3) by (intro monotone_on_appendD streams_belowD(2) [OF assms(1)]) simp
next
  fix x assume x: "p (drop k buf) = Ok x"
  show "extends (case x of (v, c) \<Rightarrow> f v c) (case x of (v, c) \<Rightarrow> g v c)"
    using x assms(4) step_bounds(2) [OF assms(1-3)] by (cases x) simp
qed

lemma step_take:
  assumes "streams_below p (length buf)" "0 < k" "k \<le> length buf"
    and "p (drop k buf) = Ok (v, c)" "k + c \<le> m"
  shows "and_then (slice_from (take m buf) k) (\<lambda>sub. and_then (p sub) f) = f (v, c)"
proof -
  have "p (take (m - k) (drop k buf)) = Ok (v, c)"
    using assms(2,3,5)
    by (intro exact_take [of p "drop k buf"] streams_belowD [OF assms(1)] assms(4)) auto
  with assms(3,5) show ?thesis by (simp add: drop_take)
qed

lemma parse_seq_bounds:
  assumes "streams_below p (length buf)" "0 < k" "k \<le> length buf"
    and "parse_seq p buf k n acc = Ok (vs, k')"
  shows "k \<le> k' \<and> k' \<le> length buf"
  using assms(2-4)
proof (induction n arbitrary: k acc)
  case (Suc n)
  then obtain v c where pv: "p (drop k buf) = Ok (v, c)"
    and r: "parse_seq p buf (k + c) n (acc @ [v]) = Ok (vs, k')"
    by (auto elim!: and_then_OkE)
  from step_bounds [OF assms(1) Suc.prems(1,2) pv] Suc.IH [OF _ _ r] show ?case by simp
qed simp

lemma parse_seq_append:
  assumes "streams_below p (length buf)" "0 < k" "k \<le> length buf"
  shows "extends (parse_seq p buf k n acc) (parse_seq p (buf @ e) k n acc)"
  using assms(2,3)
proof (induction n arbitrary: k acc)
  case (Suc n)
  then show ?case unfolding parse_seq.simps by (intro step_append [OF assms(1)]) auto
qed simp

lemma parse_seq_take:
  assumes "streams_below p (length buf)" "0 < k" "k \<le> length buf"
    and "parse_seq p buf k n acc = Ok (vs, k')" "k' \<le> m"
  shows "parse_seq p (take m buf) k n acc = Ok (vs, k')"
  using assms(2-4)
proof (induction n arbitrary: k acc)
  case (Suc n)
  then obtain v c where pv: "p (drop k buf) = Ok (v, c)"
    and r: "parse_seq p buf (k + c) n (acc @ [v]) = Ok (vs, k')"
    by (auto elim!: and_then_OkE)
  note c = step_bounds [OF assms(1) Suc.prems(1,2) pv]
  then have "k + c \<le> k'" using parse_seq_bounds [OF assms(1) _ _ r] Suc.prems(1) by simp
  with Suc.IH [OF _ _ r] c Suc.prems(1) assms(5) show ?case
    by (simp add: step_take [OF assms(1) Suc.prems(1,2) pv] del: slice_from_ok)
qed simp

lemma parse_seq_exact:
  assumes "streams_below p (length buf)" "0 < k" "k \<le> length buf"
    and "parse_seq p buf k n acc = Ok (vs, k')"
  shows "k \<le> k' \<and> k' \<le> length buf \<and> parse_seq p (take k' buf) k n acc = Ok (vs, k')"
  using parse_seq_bounds [OF assms] parse_seq_take [OF assms order_refl] by simp

section \<open>The line reader\<close>

context crate_env
begin

lemma find_crlf_Ok:
  assumes "find_crlf C buf off = Ok i"
  shows "off \<le> i" "i + 1 < length buf" "buf ! i = CR" "buf ! (i + 1) = LF"
    "CR \<notin> set (take (i - off) (drop off buf))"
proof -
  from assms obtain j where off: "off \<le> length buf" and j: "position CR (drop off buf) = Some j"
    and i: "i = off + j" "off + j + 1 < length buf" "buf ! (off + j + 1) = LF"
    by (auto simp: find_crlf_def and_then_eqs slice_from_eq_Ok memchr_first Let_def
        split: option.splits if_splits)
  from position_Some [OF j] i off
  show "off \<le> i" "i + 1 < length buf" "buf ! i = CR" "buf ! (i + 1) = LF"
    "CR \<notin> set (take (i - off) (drop off buf))" by auto
qed

lemma find_crlf_append:
  assumes "off \<le> length buf"
  shows "extends (find_crlf C buf off) (find_crlf C (buf @ e) off)"
proof (cases "position CR (drop off buf)")
  case None
  then show ?thesis using assms by (simp add: find_crlf_def memchr_first)
next
  case (Some j)
  with assms position_Some [OF Some] show ?thesis
    by (auto simp: find_crlf_def memchr_first position_append Let_def nth_append extends_def)
qed

lemma find_crlf_take:
  assumes "find_crlf C buf off = Ok i" and "i + 2 \<le> n"
  shows "find_crlf C (take n buf) off = Ok i"
proof -
  note f = find_crlf_Ok [OF assms(1)]
  have "position CR (drop off (take n buf)) = Some (i - off)"
    unfolding position_Some_iff using f assms(2) by (auto simp: drop_take min_def)
  then show ?thesis using f assms(2) by (simp add: find_crlf_def memchr_first Let_def)
qed

lemma find_crlf_not_Panic: "off \<le> length buf \<Longrightarrow> find_crlf C buf off \<noteq> Panic"
  by (auto simp: find_crlf_def Let_def split: option.splits)

lemma read_line_bounds:
  assumes "read_line C buf off = Ok (line, k)"
  shows "off + 2 \<le> k" "k \<le> length buf" "line = take (k - off - 2) (drop off buf)"
  using assms find_crlf_Ok [of buf off "k - 2"]
  by (auto simp: read_line_def and_then_eqs slice_range_eq_Ok)

lemma read_line_append:
  "off \<le> length buf \<Longrightarrow> extends (read_line C buf off) (read_line C (buf @ e) off)"
  unfolding read_line_def
  by (rule extends_and_then, erule find_crlf_append, rule extends_slice_range)
     (auto dest: find_crlf_Ok(1,2))

lemma read_line_take:
  assumes "read_line C buf off = Ok (line, k)" and "k \<le> n"
  shows "read_line C (take n buf) off = Ok (line, k)"
proof -
  from assms(1) obtain i where f: "find_crlf C buf off = Ok i" and k: "k = i + 2"
    by (auto simp: read_line_def and_then_eqs)
  with assms(2) have "find_crlf C (take n buf) off = Ok i"
    by (intro find_crlf_take) auto
  with find_crlf_Ok [OF f] read_line_bounds [OF assms(1)] k assms(2) show ?thesis
    by (simp add: read_line_def drop_take)
qed

lemma read_line_not_Panic: "off \<le> length buf \<Longrightarrow> read_line C buf off \<noteq> Panic"
  using find_crlf_not_Panic find_crlf_Ok
  by (fastforce simp: read_line_def and_then_eqs slice_range_def)

lemma read_line_encoded:
  "CR \<notin> set line \<Longrightarrow> read_line C (c # line @ crlf @ rest) 1 = Ok (line, length line + 3)"
  by (simp add: read_line_def find_crlf_def memchr_first position_append_left Let_def nth_append)

text \<open>Every type but null and boolean starts by reading the rest of the first line.\<close>

lemma line_monotone:
  assumes "buf \<noteq> []"
    and "\<And>line k e. read_line C buf 1 = Ok (line, k) \<Longrightarrow> extends (f buf line k) (f (buf @ e) line k)"
  shows "monotone_on_append (\<lambda>b. and_then (read_line C b 1) (\<lambda>(line, k). f b line k)) buf"
  using assms unfolding monotone_on_append_def
  by (auto intro!: extends_and_then read_line_append simp: Suc_le_eq)

lemma line_exact:
  assumes "\<And>line k v n. read_line C buf 1 = Ok (line, k) \<Longrightarrow> f buf line k = Ok (v, n) \<Longrightarrow>
      k \<le> n \<and> n \<le> length buf \<and> f (take n buf) line k = Ok (v, n)"
  shows "exact (\<lambda>b. and_then (read_line C b 1) (\<lambda>(line, k). f b line k)) buf"
proof (rule exactI)
  fix v n
  assume "and_then (read_line C buf 1) (\<lambda>(line, k). f buf line k) = Ok (v, n)"
  then obtain line k where r: "read_line C buf 1 = Ok (line, k)" and f: "f buf line k = Ok (v, n)"
    by (auto simp: and_then_eqs)
  from assms [OF r f] read_line_bounds [OF r] read_line_take [OF r, of n]
  show "0 < n \<and> n \<le> length buf \<and>
      and_then (read_line C (take n buf) 1) (\<lambda>(line, k). f (take n buf) line k) = Ok (v, n)"
    by simp
qed

text \<open>The length-prefixed types and the aggregates go on with a decimal count.\<close>

lemma counted_monotone:
  assumes "buf \<noteq> []"
    and "\<And>k n e. 3 \<le> k \<Longrightarrow> k \<le> length buf \<Longrightarrow> extends (g buf k n) (g (buf @ e) k n)"
  shows "monotone_on_append (\<lambda>b. and_then (read_line C b 1) (\<lambda>(line, k).
           and_then (parse_int_from_bytes line) (\<lambda>n. g b k n))) buf"
  by (rule line_monotone [OF assms(1)], frule read_line_bounds(1), drule read_line_bounds(2),
      rule extends_and_then, rule extends_refl, rule assms(2)) auto

lemma counted_exact:
  assumes "\<And>k c v n. 3 \<le> k \<Longrightarrow> k \<le> length buf \<Longrightarrow> g buf k c = Ok (v, n) \<Longrightarrow>
      k \<le> n \<and> n \<le> length buf \<and> g (take n buf) k c = Ok (v, n)"
  shows "exact (\<lambda>b. and_then (read_line C b 1) (\<lambda>(line, k).
           and_then (parse_int_from_bytes line) (\<lambda>c. g b k c))) buf"
proof (rule line_exact)
  fix line k v n
  assume r: "read_line C buf 1 = Ok (line, k)"
    and "and_then (parse_int_from_bytes line) (\<lambda>c. g buf k c) = Ok (v, n)"
  then obtain c where c: "parse_int_from_bytes line = Ok c" "g buf k c = Ok (v, n)"
    by (auto elim: and_then_OkE)
  with assms [OF _ _ c(2)] read_line_bounds [OF r]
  show "k \<le> n \<and> n \<le> length buf \<and>
      and_then (parse_int_from_bytes line) (\<lambda>c. g (take n buf) k c) = Ok (v, n)" by simp
qed

section \<open>Scalar types\<close>

lemma scalars_monotone:
  assumes "buf \<noteq> []"
  shows "monotone_on_append (parse_simple_string C) buf"
    and "monotone_on_append (parse_simple_error C) buf"
    and "monotone_on_append (parse_integer C) buf"
    and "monotone_on_append (parse_double C) buf"
    and "monotone_on_append (parse_big_number C) buf"
  unfolding parse_simple_string_def parse_simple_error_def parse_integer_def parse_double_def
    parse_big_number_def
  by (rule line_monotone [OF assms], simp)+

lemma scalars_exact:
  shows "exact (parse_simple_string C) buf"
    and "exact (parse_simple_error C) buf"
    and "exact (parse_integer C) buf"
    and "exact (parse_double C) buf"
    and "exact (parse_big_number C) buf"
  unfolding parse_simple_string_def parse_simple_error_def parse_integer_def parse_double_def
    parse_big_number_def
  by (rule line_exact, frule read_line_bounds(2),
      (auto simp: and_then_eqs Let_def split: if_splits)[1])+

text \<open>The length-prefixed types share one shape.\<close>

lemma bulk_alts:
  "parse_bulk_string C buf =
     and_then (read_line C buf 1) (\<lambda>(line, k). and_then (parse_int_from_bytes line) (\<lambda>len.
       if len < 0 then Ok (Null, k) else bulk_body buf k (nat len) (parse_terminator ''bulk string'') (\<lambda>d. Ok (BulkString d))))"
  "parse_bulk_error C buf =
     and_then (read_line C buf 1) (\<lambda>(line, k). and_then (parse_int_from_bytes line) (\<lambda>len.
       if len < 0 then Err (Protocol ''negative bulk error length'')
       else bulk_body buf k (nat len) (parse_terminator ''bulk error'')
         (\<lambda>d. and_then (utf8_or ''invalid UTF-8 in bulk error: '' d) (\<lambda>s. Ok (BulkError s)))))"
  "parse_verbatim_string C buf =
     and_then (read_line C buf 1) (\<lambda>(line, k). and_then (parse_int_from_bytes line) (\<lambda>len.
       if len < 0 then Err (Protocol ''negative verbatim string length'')
       else bulk_body buf k (nat len) (parse_terminator ''verbatim string'') verbatim_body))"
  unfolding parse_bulk_string_def parse_bulk_error_def parse_verbatim_string_def bulk_body_def Let_def
  by (auto intro!: and_then_cong simp: parse_terminator_def verbatim_body_def and_then_assoc slice_range_eq_Ok)

lemma bulks_monotone:
  assumes "buf \<noteq> []"
  shows "monotone_on_append (parse_bulk_string C) buf"
    and "monotone_on_append (parse_bulk_error C) buf"
    and "monotone_on_append (parse_verbatim_string C) buf"
  unfolding bulk_alts
  by (rule counted_monotone [OF assms], simp add: bulk_body_append)+

lemma bulks_exact:
  shows "exact (parse_bulk_string C) buf"
    and "exact (parse_bulk_error C) buf"
    and "exact (parse_verbatim_string C) buf"
  unfolding bulk_alts
  by (rule counted_exact, (auto simp: bulk_body_take dest: bulk_body_bounds split: if_split_asm)[1])+

lemma fixed_monotone:
  "monotone_on_append parse_null buf" "monotone_on_append parse_boolean buf"
  by (auto simp: monotone_on_append_def parse_null_def parse_boolean_def nth_append)

lemma fixed_exact: "exact parse_null buf" "exact parse_boolean buf"
  by (auto simp: exact_def parse_null_def parse_boolean_def and_then_eqs split: if_splits)

section \<open>Aggregates\<close>

lemma aggregates_monotone:
  assumes "buf \<noteq> []" and below: "streams_below p (length buf)"
  shows "monotone_on_append (parse_array C p) buf"
    and "monotone_on_append (parse_map C p) buf"
    and "monotone_on_append (parse_set C p) buf"
  unfolding parse_array_def parse_map_def parse_set_def parse_pairs_seq
  by (rule counted_monotone [OF assms(1)],
      (auto intro!: extends_and_then parse_seq_append [OF below])[1])+

lemma parse_push_monotone:
  assumes "buf \<noteq> []" and below: "streams_below p (length buf)"
  shows "monotone_on_append (parse_push C p) buf"
  unfolding parse_push_def Let_def
  by (rule counted_monotone [OF assms(1)], intro extends_if extends_refl step_append [OF below])
     (auto intro!: extends_and_then parse_seq_append [OF below])

lemma parse_attribute_monotone:
  assumes "buf \<noteq> []" and below: "streams_below p (length buf)"
  shows "monotone_on_append (parse_attribute C p) buf"
  unfolding parse_attribute_seq
  by (rule counted_monotone [OF assms(1)], intro extends_if extends_refl extends_and_then
      parse_seq_append [OF below]) auto

lemma aggregates_exact:
  assumes below: "streams_below p (length buf)"
  shows "exact (parse_array C p) buf"
    and "exact (parse_map C p) buf"
    and "exact (parse_set C p) buf"
    and "exact (parse_attribute C p) buf"
  unfolding parse_array_def parse_map_def parse_set_def parse_attribute_seq parse_pairs_seq
  by (rule counted_exact, (auto elim!: and_then_OkE simp del: parse_seq.simps
      dest!: parse_seq_exact [OF below, rotated 2] split: if_split_asm)[1])+

lemma parse_push_exact:
  assumes below: "streams_below p (length buf)"
  shows "exact (parse_push C p) buf"
  unfolding parse_push_def Let_def
proof (rule counted_exact)
  fix k c v n
  assume k: "3 \<le> k" "k \<le> length buf"
  let ?body = "\<lambda>b. if c < 0 then Err (Protocol ''negative push count'')
      else if nat c = 0 then Err (Protocol ''push message must have at least one element (kind)'')
      else and_then (slice_from b k) (\<lambda>sub. and_then (p sub) (\<lambda>(kind_val, consumed).
        and_then (push_kind kind_val) (\<lambda>kind. and_then (with_capacity C (nat c - 1)) (\<lambda>_.
        and_then (parse_seq p b (k + consumed) (nat c - 1) []) (\<lambda>(data, next).
        Ok (Push kind data, next))))))"
  assume "?body buf = Ok (v, n)"
  with k obtain kv m kind vs where pk: "p (drop k buf) = Ok (kv, m)" and c: "\<not> c < 0" "nat c \<noteq> 0"
    and r: "push_kind kv = Ok kind" "with_capacity C (nat c - 1) = (Ok () :: unit res)"
      "parse_seq p buf (k + m) (nat c - 1) [] = Ok (vs, n)" "v = Push kind vs"
    by (auto elim!: and_then_OkE split: if_split_asm)
  from k step_bounds [OF below _ _ pk] have m: "0 < k + m" "k + m \<le> length buf" by simp_all
  note b = parse_seq_bounds [OF below m r(3)] and t = parse_seq_take [OF below m r(3) order_refl]
  have "?body (take n buf) = Ok (v, n)"
    using k c r b t by (simp add: step_take [OF below _ _ pk] del: slice_from_ok)
  with b m show "k \<le> n \<and> n \<le> length buf \<and> ?body (take n buf) = Ok (v, n)" by simp
qed

section \<open>The parser\<close>

text \<open>The \<open>match\<close> on the type byte, as a choice among the type parsers.\<close>

definition parse_by_type :: "u8 \<Rightarrow> bytes \<Rightarrow> parsed" where
  "parse_by_type t =
     (if t = CHR ''+'' then parse_simple_string C
      else if t = CHR ''-'' then parse_simple_error C
      else if t = CHR '':'' then parse_integer C
      else if t = CHR ''$'' then parse_bulk_string C
      else if t = CHR ''*'' then parse_array C (parse C)
      else if t = CHR ''_'' then parse_null
      else if t = CHR ''#'' then parse_boolean
      else if t = CHR '','' then parse_double C
      else if t = CHR ''('' then parse_big_number C
      else if t = CHR ''!'' then parse_bulk_error C
      else if t = CHR ''='' then parse_verbatim_string C
      else if t = CHR ''%'' then parse_map C (parse C)
      else if t = CHR ''~'' then parse_set C (parse C)
      else if t = CHR ''>'' then parse_push C (parse C)
      else if t = CHR ''|'' then parse_attribute C (parse C)
      else (\<lambda>_. Err (Protocol (''unknown RESP type byte: '' @ hex_byte t))))"

lemma parse_unfold: "parse C buf = (if buf = [] then Err Incomplete else parse_by_type (buf ! 0) buf)"
  by (subst parse.simps) (simp only: parse_by_type_def if_distribR)

lemma parse_by_type_streams:
  assumes "buf \<noteq> []" and "streams_below (parse C) (length buf)"
  shows "exact (parse_by_type t) buf" and "monotone_on_append (parse_by_type t) buf"
  unfolding parse_by_type_def
  using assms scalars_exact bulks_exact fixed_exact aggregates_exact parse_push_exact
    scalars_monotone bulks_monotone fixed_monotone
    aggregates_monotone parse_push_monotone parse_attribute_monotone
  by (auto simp: exact_def [of "\<lambda>_. Err _"] monotone_on_append_def [of "\<lambda>_. Err _"])

lemma parse_streams: "exact (parse C) buf \<and> monotone_on_append (parse C) buf"
proof (induction buf rule: length_induct)
  case (1 buf)
  then have below: "streams_below (parse C) (length buf)" by (simp add: streams_below_def)
  show ?case
  proof (cases "buf = []")
    case True
    then show ?thesis by (simp add: exact_def monotone_on_append_def parse_unfold)
  next
    case False
    note t = parse_by_type_streams [OF False below, of "buf ! 0"]
    from False have "\<And>n. 0 < n \<Longrightarrow> take n buf \<noteq> [] \<and> take n buf ! 0 = buf ! 0"
      "\<And>e. (buf @ e) ! 0 = buf ! 0" by (auto simp: nth_append)
    with False t show ?thesis
      by (auto simp: exact_def monotone_on_append_def parse_unfold)
  qed
qed

section \<open>The frame scanner\<close>

definition frame_by_type :: "u8 \<Rightarrow> bytes \<Rightarrow> nat res" where
  "frame_by_type t =
     (if t \<in> {CHR ''+'', CHR ''-'', CHR '':'', CHR '','', CHR ''(''} then frame_line C
      else if t = CHR ''_'' then (\<lambda>b. if length b < 3 then Err Incomplete else Ok 3)
      else if t = CHR ''#'' then (\<lambda>b. if length b < 4 then Err Incomplete else Ok 4)
      else if t \<in> {CHR ''$'', CHR ''!'', CHR ''=''} then frame_bulk C
      else if t \<in> {CHR ''*'', CHR ''~'', CHR ''>''} then frame_array C (resp_frame_len C)
      else if t = CHR ''%'' then frame_map C (resp_frame_len C)
      else if t = CHR ''|'' then frame_attribute C (resp_frame_len C)
      else (\<lambda>_. Err (Protocol (''unknown RESP type byte: '' @ hex_byte t))))"

lemma frame_unfold:
  "resp_frame_len C buf = (if buf = [] then Err Incomplete else frame_by_type (buf ! 0) buf)"
  by (subst resp_frame_len.simps) (simp only: frame_by_type_def if_distribR)

lemma forget_frames:
  "forget (frame_line C) buf = and_then (read_line C buf 1) (\<lambda>(line, k). Ok (Null, k))"
  "forget (frame_bulk C) buf = and_then (read_line C buf 1) (\<lambda>(line, k).
     and_then (parse_int_from_bytes line) (\<lambda>len. if len < 0 then Ok (Null, k)
       else if length buf < k + nat len + 2 then Err Incomplete else Ok (Null, k + nat len + 2)))"
  "forget (frame_array C f) buf = and_then (read_line C buf 1) (\<lambda>(line, k).
     and_then (parse_int_from_bytes line) (\<lambda>c. if c < 0 then Ok (Null, k)
       else and_then (parse_seq (forget f) buf k (nat c) []) (\<lambda>(_, k'). Ok (Null, k'))))"
  "forget (frame_map C f) buf = and_then (read_line C buf 1) (\<lambda>(line, k).
     and_then (parse_int_from_bytes line) (\<lambda>c. if c < 0 then Err (Protocol ''negative map count'')
       else and_then (parse_seq (forget f) buf k (2 * nat c) []) (\<lambda>(_, k'). Ok (Null, k'))))"
  "forget (frame_attribute C f) buf = and_then (read_line C buf 1) (\<lambda>(line, k).
     and_then (parse_int_from_bytes line) (\<lambda>c. if c < 0 then Err (Protocol ''negative attribute count'')
       else and_then (parse_seq (forget f) buf k (Suc (2 * nat c)) []) (\<lambda>(_, k'). Ok (Null, k'))))"
  unfolding frame_line_def frame_bulk_def frame_array_def frame_map_def frame_attribute_def
    frame_seq_forget [where acc = "[]"] frame_pairs_forget [where acc = "[]"] parse_seq_Suc_end
  by (auto intro!: and_then_cong simp: forget_def and_then_assoc Let_def split_def)

lemma frames_streams:
  assumes "buf \<noteq> []" and below: "streams_below (forget (resp_frame_len C)) (length buf)"
  shows "exact (forget (frame_by_type t)) buf"
    and "monotone_on_append (forget (frame_by_type t)) buf"
proof -
  have lines: "exact (forget (frame_line C)) buf" "monotone_on_append (forget (frame_line C)) buf"
    unfolding forget_frames
    by (rule line_exact, frule read_line_bounds(2), simp) (rule line_monotone [OF assms(1)], simp)
  have bulks: "exact (forget (frame_bulk C)) buf" "monotone_on_append (forget (frame_bulk C)) buf"
    unfolding forget_frames
    by (rule counted_exact, auto split: if_split_asm)[1] (rule counted_monotone [OF assms(1)], auto)
  have "exact (forget (frame_array C (resp_frame_len C))) buf"
    "exact (forget (frame_map C (resp_frame_len C))) buf"
    "exact (forget (frame_attribute C (resp_frame_len C))) buf"
    unfolding forget_frames
    by (rule counted_exact, (auto elim!: and_then_OkE simp del: parse_seq.simps
        dest!: parse_seq_exact [OF below, rotated 2] split: if_split_asm)[1])+
  moreover have "monotone_on_append (forget (frame_array C (resp_frame_len C))) buf"
    "monotone_on_append (forget (frame_map C (resp_frame_len C))) buf"
    "monotone_on_append (forget (frame_attribute C (resp_frame_len C))) buf"
    unfolding forget_frames
    by (rule counted_monotone [OF assms(1)], intro extends_if extends_refl extends_and_then
        parse_seq_append [OF below], (auto)[2])+
  moreover have "exact (forget (\<lambda>b. if length b < n then Err Incomplete else Ok n)) buf"
    "monotone_on_append (forget (\<lambda>b. if length b < n then Err Incomplete else Ok n)) buf" if "0 < n" for n
    using that by (auto simp: forget_def exact_def monotone_on_append_def)
  moreover have "exact (forget (\<lambda>_. Err e)) buf" "monotone_on_append (forget (\<lambda>_. Err e)) buf" for e
    by (auto simp: forget_def exact_def monotone_on_append_def)
  ultimately show "exact (forget (frame_by_type t)) buf"
    and "monotone_on_append (forget (frame_by_type t)) buf"
    unfolding frame_by_type_def using lines bulks by auto
qed

lemma frame_streams:
  "exact (forget (resp_frame_len C)) buf \<and> monotone_on_append (forget (resp_frame_len C)) buf"
proof (induction buf rule: length_induct)
  case (1 buf)
  then have below: "streams_below (forget (resp_frame_len C)) (length buf)"
    by (simp add: streams_below_def)
  show ?case
  proof (cases "buf = []")
    case True
    then show ?thesis by (simp add: exact_def monotone_on_append_def forget_def frame_unfold)
  next
    case False
    note t = frames_streams [OF False below, of "buf ! 0"]
    from False have "\<And>n. 0 < n \<Longrightarrow> take n buf \<noteq> [] \<and> take n buf ! 0 = buf ! 0"
      "\<And>e. (buf @ e) ! 0 = buf ! 0" by (auto simp: nth_append)
    with False t show ?thesis
      by (auto simp: exact_def monotone_on_append_def forget_def frame_unfold)
  qed
qed

end

section \<open>Parser and scanner agree\<close>

text \<open>
  Where the parser succeeds, the scanner finds the same length; where the parser asks for
  more bytes, so does the scanner.
\<close>

definition agrees :: "('a \<times> nat) res \<Rightarrow> ('b \<times> nat) res \<Rightarrow> bool" where
  "agrees m m' \<longleftrightarrow> (\<forall>v n. m = Ok (v, n) \<longrightarrow> (\<exists>w. m' = Ok (w, n))) \<and>
     (m = Err Incomplete \<longrightarrow> m' = Err Incomplete)"

lemma agrees_Ok [simp]: "agrees (Ok (v, n)) (Ok (w, n))"
  by (simp add: agrees_def)

lemma agrees_Err [simp]: "e \<noteq> Incomplete \<Longrightarrow> agrees (Err e) m" "agrees Panic m"
  "agrees (Err Incomplete) (Err Incomplete)"
  by (simp_all add: agrees_def)

lemma agrees_and_then:
  assumes "agrees m m'" and "\<And>v w n. m = Ok (v, n) \<Longrightarrow> m' = Ok (w, n) \<Longrightarrow> agrees (f (v, n)) (g (w, n))"
  shows "agrees (and_then m f) (and_then m' g)"
  using assms by (cases m) (auto simp: agrees_def)

lemma agrees_same:
  assumes "\<And>x. m = Ok x \<Longrightarrow> agrees (f x) (g x)"
  shows "agrees (and_then m f) (and_then m g)"
  using assms by (cases m) (auto simp: agrees_def)

lemma agrees_skip:
  assumes "m \<noteq> Err Incomplete" and "\<And>x. m = Ok x \<Longrightarrow> agrees (f x) m'"
  shows "agrees (and_then m f) m'"
  using assms by (cases m) (auto simp: agrees_def)

lemma agrees_if:
  "(b \<Longrightarrow> agrees m m') \<Longrightarrow> (\<not> b \<Longrightarrow> agrees n n') \<Longrightarrow>
   agrees (if b then m else n) (if b then m' else n')"
  by simp

lemma parse_seq_agrees:
  assumes "\<And>b. length b < length buf \<Longrightarrow> agrees (p b) (q b)" and "0 < k"
  shows "agrees (parse_seq p buf k n acc) (parse_seq q buf k n acc')"
  using assms(2)
proof (induction n arbitrary: k acc acc')
  case (Suc n)
  show ?case unfolding parse_seq.simps
  proof (rule agrees_same)
    fix sub assume "slice_from buf k = (Ok sub :: bytes res)"
    with Suc.prems have "length sub < length buf" by (auto simp: slice_from_eq_Ok)
    then show "agrees (and_then (p sub) (\<lambda>(val, consumed). parse_seq p buf (k + consumed) n (acc @ [val])))
      (and_then (q sub) (\<lambda>(val, consumed). parse_seq q buf (k + consumed) n (acc' @ [val])))"
      using Suc by (intro agrees_and_then assms(1)) simp_all
  qed
qed simp

lemma utf8_or_not_Incomplete [simp]: "utf8_or what bs \<noteq> Err Incomplete"
  by (simp add: utf8_or_def map_err_eq_Err)

lemma parse_int_digits_not_Incomplete: "parse_int_digits n ds \<noteq> Err Incomplete"
  by (induction n ds rule: parse_int_digits.induct) (auto split: option.splits)

lemma parse_int_not_Incomplete [simp]: "parse_int_from_bytes line \<noteq> Err Incomplete"
  by (auto simp: parse_int_from_bytes_def Let_def and_then_eqs parse_int_digits_not_Incomplete)

lemma push_kind_not_Incomplete [simp]: "push_kind v \<noteq> Err Incomplete"
  by (simp add: push_kind_def split: RespValue.splits)

lemma with_capacity_agrees:
  "agrees (and_then (with_capacity C n) f) m' \<longleftrightarrow> (vec_alloc C n \<longrightarrow> agrees (f ()) m')"
  by (simp add: with_capacity_def)

context crate_env
begin

lemma scalars_agree:
  "agrees (parse_simple_string C buf) (forget (frame_line C) buf)"
  "agrees (parse_simple_error C buf) (forget (frame_line C) buf)"
  "agrees (parse_integer C buf) (forget (frame_line C) buf)"
  "agrees (parse_double C buf) (forget (frame_line C) buf)"
  "agrees (parse_big_number C buf) (forget (frame_line C) buf)"
  unfolding parse_simple_string_def parse_simple_error_def parse_integer_def parse_double_def
    parse_big_number_def forget_frames
  by (rule agrees_same, clarsimp, intro agrees_skip; simp add: map_err_eq_Err Let_def)+

lemma bulk_body_agrees:
  assumes "\<And>d. g d \<noteq> Err Incomplete" and "err \<noteq> Incomplete"
    and "m' = (if length buf < k + len + 2 then Err Incomplete else Ok (Null, k + len + 2))"
  shows "agrees (bulk_body buf k len err g) m'"
  using assms unfolding bulk_body_def
  by (auto intro!: agrees_skip)

lemma verbatim_body_not_Incomplete [simp]: "verbatim_body d \<noteq> Err Incomplete"
  by (auto simp: verbatim_body_def and_then_eqs)

lemma parse_terminator_not_Incomplete [simp]: "parse_terminator w \<noteq> Incomplete"
  by (simp add: parse_terminator_def)

lemma bulks_agree:
  "agrees (parse_bulk_string C buf) (forget (frame_bulk C) buf)"
  "agrees (parse_bulk_error C buf) (forget (frame_bulk C) buf)"
  "agrees (parse_verbatim_string C buf) (forget (frame_bulk C) buf)"
  unfolding bulk_alts forget_frames
  by (rule agrees_same, clarsimp, rule agrees_same, (auto intro!: bulk_body_agrees simp: and_then_eqs)[1])+

lemma aggregates_agree:
  assumes "\<And>b. length b < length buf \<Longrightarrow> agrees (p b) (forget f b)"
  shows "agrees (parse_array C p buf) (forget (frame_array C f) buf)"
    "agrees (parse_set C p buf) (forget (frame_array C f) buf)"
    "agrees (parse_map C p buf) (forget (frame_map C f) buf)"
    "agrees (parse_attribute C p buf) (forget (frame_attribute C f) buf)"
  unfolding parse_array_def parse_set_def parse_map_def parse_attribute_seq parse_pairs_seq forget_frames
    and_then_assoc
  by (rule agrees_same, clarsimp, rule agrees_same,
      (auto simp: with_capacity_agrees simp del: parse_seq.simps dest: read_line_next
        intro!: agrees_and_then parse_seq_agrees assms)[1])+

lemma parse_push_agrees:
  assumes "\<And>b. length b < length buf \<Longrightarrow> agrees (p b) (forget f b)"
  shows "agrees (parse_push C p buf) (forget (frame_array C f) buf)"
  unfolding parse_push_def forget_frames Let_def
proof (rule agrees_same, clarsimp, rule agrees_same, clarsimp)
  fix line k and c :: int
  assume r: "read_line C buf (Suc 0) = Ok (line, k)" and c: "c \<noteq> 0" "\<not> c < 0"
  then obtain m where m: "nat c = Suc m" by (cases "nat c") auto
  show "agrees (and_then (slice_from buf k) (\<lambda>sub. and_then (p sub) (\<lambda>(kind_val, consumed).
       and_then (push_kind kind_val) (\<lambda>kind. and_then (with_capacity C (nat c - Suc 0)) (\<lambda>_.
         and_then (parse_seq p buf (k + consumed) (nat c - Suc 0) []) (\<lambda>(data, next).
         Ok (Push kind data, next)))))))
     (and_then (parse_seq (forget f) buf k (nat c) []) (\<lambda>(_, k'). Ok (Null, k')))"
    unfolding m parse_seq.simps and_then_assoc using read_line_next [OF r]
    by (intro agrees_same [of "slice_from buf k"] agrees_and_then [of "p _"] assms)
       (auto simp: and_then_assoc with_capacity_agrees slice_from_eq_Ok
         intro!: agrees_skip [of "push_kind _"] agrees_and_then [of "parse_seq _ _ _ _ _"] parse_seq_agrees assms)
qed

lemma parse_agrees: "agrees (parse C buf) (forget (resp_frame_len C) buf)"
proof (induction buf rule: length_induct)
  case (1 buf)
  then have IH: "\<And>b. length b < length buf \<Longrightarrow> agrees (parse C b) (forget (resp_frame_len C) b)" by simp
  note agree = scalars_agree bulks_agree aggregates_agree [OF IH] parse_push_agrees [OF IH]
  have "agrees (parse_null buf) (forget (\<lambda>b. if length b < 3 then Err Incomplete else Ok 3) buf)"
    "agrees (parse_boolean buf) (forget (\<lambda>b. if length b < 4 then Err Incomplete else Ok 4) buf)"
    by (auto simp: parse_null_def parse_boolean_def forget_def)
  with agree have "agrees (parse_by_type t buf) (forget (frame_by_type t) buf)" for t
    unfolding parse_by_type_def frame_by_type_def by (simp add: forget_def)
  then show ?case by (simp add: parse_unfold frame_unfold forget_def)
qed

end

section \<open>The two interpretations\<close>

text \<open>
  \<open>read_raw_response\<close> splits \<open>resp_frame_len\<close> bytes off the buffer (\<open>split_to\<close>, which panics
  beyond the end): as a parser, the scanner returns the frame itself.
\<close>

definition raw_frame :: "crates \<Rightarrow> bytes \<Rightarrow> (bytes \<times> nat) res" where
  "raw_frame C buf =
     and_then (resp_frame_len C buf) (\<lambda>n. and_then (slice_range buf 0 n) (\<lambda>raw. Ok (raw, n)))"

lemma raw_frame_eq_Ok:
  "raw_frame C buf = Ok (f, n) \<longleftrightarrow> resp_frame_len C buf = Ok n \<and> n \<le> length buf \<and> f = take n buf"
  by (auto simp: raw_frame_def and_then_eqs slice_range_eq_Ok)

lemma raw_frame_eq_Err: "raw_frame C buf = Err e \<longleftrightarrow> resp_frame_len C buf = Err e"
  by (auto simp: raw_frame_def and_then_eqs)

sublocale crate_env \<subseteq> parser: stream_parser "parse C"
  by unfold_locales (use parse_streams in \<open>auto simp: parse_unfold\<close>)

lemma exact_raw_frame: "exact (forget (resp_frame_len C)) b \<Longrightarrow> exact (raw_frame C) b"
  by (auto simp: exact_def forget_def raw_frame_eq_Ok and_then_eqs)

lemma monotone_raw_frame:
  assumes "exact (forget (resp_frame_len C)) b" "monotone_on_append (forget (resp_frame_len C)) b"
  shows "monotone_on_append (raw_frame C) b"
proof (cases "resp_frame_len C b")
  case (Ok n)
  with assms(1) have "n \<le> length b" by (auto simp: exact_def forget_def)
  with Ok assms(2) show ?thesis
    by (auto simp: monotone_on_append_def forget_def raw_frame_def extends_def and_then_eqs)
qed (use assms(2) in \<open>auto simp: monotone_on_append_def forget_def raw_frame_def extends_def and_then_eqs\<close>)

sublocale crate_env \<subseteq> framer: stream_parser "raw_frame C"
  by unfold_locales
    (use frame_streams exact_raw_frame monotone_raw_frame in \<open>auto simp: raw_frame_def frame_unfold\<close>)

section \<open>Properties\<close>

context crate_env
begin

lemmas parse_stream = parser.stream_parser_axioms
lemmas frame_stream = framer.stream_parser_axioms

text \<open>The scanner's facts, without the frame contents.\<close>

lemma frame_bounds: "resp_frame_len C b = Ok n \<Longrightarrow> 0 < n \<and> n \<le> length b"
  using frame_streams [of b] by (auto simp: exact_def forget_def)

lemma frame_cut:
  "resp_frame_len C b = Ok n \<Longrightarrow> resp_frame_len C (take k b) = (if n \<le> k then Ok n else Err Incomplete)"
  using framer.cut [of b "take n b" n k] frame_bounds [of b n]
  by (auto simp: raw_frame_eq_Ok raw_frame_eq_Err split: if_splits)

lemma frame_then_rest: "resp_frame_len C b = Ok n \<Longrightarrow> resp_frame_len C (take n b @ rest) = Ok n"
  using framer.frame_then_rest [of b "take n b" n rest] frame_bounds [of b n] by (simp add: raw_frame_eq_Ok)

lemma parse_frame_len:
  "parse C b = Ok (v, n) \<Longrightarrow> resp_frame_len C b = Ok n"
  "parse C b = Err Incomplete \<Longrightarrow> resp_frame_len C b = Err Incomplete"
  using parse_agrees [of b] by (auto simp: agrees_def forget_def and_then_eqs)

end

text \<open>A two-element reply, for the witnesses.\<close>

definition sample_reply :: bytes where
  "sample_reply = ''*2'' @ crlf @ '':-7'' @ crlf @ ''$2'' @ crlf @ ''hi'' @ crlf"

lemma sample_parse:
  "parse (documented_crates (\<lambda>_. True)) sample_reply =
     Ok (Array [Integer (- 7), BulkString ''hi''], 17)"
  by code_simp

lemma sample_frame: "resp_frame_len (documented_crates (\<lambda>_. True)) sample_reply = Ok 17"
  by code_simp

text \<open>
  C5: Incremental parsing. Once the parser has returned a value and a length, it returns the
  same pair on every prefix that contains the consumed bytes, asks for more bytes on every
  shorter prefix, and ignores whatever follows. So the value does not depend on how the
  network splits the reply into reads.
\<close>

theorem parse_incremental:
  assumes "crate_env C" and "parse C buf = Ok (v, n)"
  shows "0 < n \<and> n \<le> length buf \<and>
    (\<forall>k. parse C (take k buf) = (if n \<le> k then Ok (v, n) else Err Incomplete)) \<and>
    (\<forall>rest. parse C (take n buf @ rest) = Ok (v, n))"
proof -
  note s = crate_env.parse_stream [OF assms(1)]
  show ?thesis
  using stream_parser.bounds [OF s assms(2)] stream_parser.cut [OF s assms(2)]
    stream_parser.frame_then_rest [OF s assms(2)] by blast
qed

theorem parse_incremental_witness:
  "parse (documented_crates (\<lambda>_. True)) (take 7 sample_reply) = Err Incomplete \<and>
   parse (documented_crates (\<lambda>_. True)) (take 17 sample_reply @ ''rest'') =
     Ok (Array [Integer (- 7), BulkString ''hi''], 17)"
  using parse_incremental [OF documented.crate_env_axioms sample_parse] by simp

text \<open>
  Answers are final. Every answer of the parser other than "more bytes are needed",
  protocol errors included, stays the same when more bytes arrive.
\<close>

lemma parse_final:
  assumes "crate_env C" and "parse C buf \<noteq> Err Incomplete"
  shows "parse C (buf @ later) = parse C buf"
  using stream_parser.final [OF crate_env.parse_stream [OF assms(1)] assms(2)] .

lemma parse_final_witness:
  "parse (documented_crates (\<lambda>_. True)) (sample_reply @ ''+OK'') =
     Ok (Array [Integer (- 7), BulkString ''hi''], 17)"
  using parse_final [OF documented.crate_env_axioms, of "\<lambda>_. True" sample_reply "''+OK''"]
  by (simp add: sample_parse)

text \<open>
  The frame scanner has the same incremental contract as the parser: bounds, prefixes
  and independence of what follows.
\<close>

lemma resp_frame_len_incremental:
  assumes "crate_env C" and "resp_frame_len C buf = Ok n"
  shows "0 < n \<and> n \<le> length buf \<and>
    (\<forall>k. resp_frame_len C (take k buf) = (if n \<le> k then Ok n else Err Incomplete)) \<and>
    (\<forall>rest. resp_frame_len C (take n buf @ rest) = Ok n)"
  using crate_env.frame_bounds [OF assms] crate_env.frame_cut [OF assms]
    crate_env.frame_then_rest [OF assms] by blast

lemma resp_frame_len_incremental_witness:
  "resp_frame_len (documented_crates (\<lambda>_. True)) (take 16 sample_reply) = Err Incomplete"
  using resp_frame_len_incremental [OF documented.crate_env_axioms sample_frame] by simp

text \<open>
  The scanner delimits what the parser reads: a value the parser accepts is one frame
  of the same length, and a reply the parser finds incomplete is an incomplete frame.
\<close>

lemma frame_of_parse:
  assumes "crate_env C"
  shows "(\<forall>v n. parse C buf = Ok (v, n) \<longrightarrow> resp_frame_len C buf = Ok n) \<and>
    (parse C buf = Err Incomplete \<longrightarrow> resp_frame_len C buf = Err Incomplete)"
  using crate_env.parse_frame_len [OF assms] by blast

lemma frame_of_parse_witness:
  "resp_frame_len (documented_crates (\<lambda>_. True)) sample_reply = Ok 17"
  using frame_of_parse [OF documented.crate_env_axioms, of "\<lambda>_. True" sample_reply] sample_parse
  by blast

end
