(* ===== verification/F64_Digits.thy ===== *)
theory F64_Digits
  imports F64 Complex_Main
begin

text \<open>
  Floating-point text, exactly. The rounding of \<open>F64\<close> is correct (a ratio close enough to a
  number rounds to it, across a power of two as well), seventeen decimal digits are enough
  for every finite number, and so the text that \<open>to_string\<close> produces always reads back.
\<close>

section \<open>Ratios and powers\<close>

lemma ratio_scaled:
  fixes B :: nat
  assumes "0 < B"
  shows "0 \<le> p \<Longrightarrow> real a / real (b * B ^ nat p) = real a / real b / real B powi p"
    and "p < 0 \<Longrightarrow> real (a * B ^ nat (- p)) / real b = real a / real b / real B powi p"
  using assms by (simp_all add: power_int_def power_inverse field_simps)

lemma bit_length_bounds: "0 < n \<Longrightarrow> 2 ^ (bit_length n - 1) \<le> n \<and> n < 2 ^ bit_length n \<and> 0 < bit_length n"
proof (induction n rule: bit_length.induct)
  case (1 n)
  show ?case
  proof (cases "n = 1")
    case False
    with 1 have *: "2 ^ (bit_length (n div 2) - 1) \<le> n div 2 \<and> n div 2 < 2 ^ bit_length (n div 2) \<and> 0 < bit_length (n div 2)"
      by (intro "1.IH") auto
    moreover from this obtain k where "bit_length (n div 2) = Suc k" using gr0_implies_Suc by blast
    ultimately show ?thesis using 1 by (simp add: bit_length.simps [of n]) linarith
  qed (simp add: bit_length.simps)
qed

lemma pow2_le_iff: "0 < den \<Longrightarrow> pow2_le e num den \<longleftrightarrow> 2 powi e \<le> real num / real den"
proof (cases "0 \<le> e")
  case True
  assume "0 < den"
  then have "2 powi e \<le> real num / real den \<longleftrightarrow> real (den * 2 ^ nat e) \<le> real num"
    using True by (simp add: power_int_nonneg_exp field_simps)
  then show ?thesis using True unfolding of_nat_le_iff by (simp add: pow2_le_def)
next
  case False
  assume "0 < den"
  then have "2 powi e \<le> real num / real den \<longleftrightarrow> real den \<le> real (num * 2 ^ nat (- e))"
    using False by (simp add: power_int_def power_inverse field_simps)
  then show ?thesis using False unfolding of_nat_le_iff by (simp add: pow2_le_def)
qed

lemma ilog2_bounds:
  assumes "0 < num" "0 < den"
  shows "2 powi (ilog2 num den) \<le> real num / real den" "real num / real den < 2 powi (ilog2 num den + 1)"
proof -
  let ?a = "bit_length num" and ?b = "bit_length den"
  note n = bit_length_bounds [OF assms(1)] and d = bit_length_bounds [OF assms(2)]
  have rn: "2 ^ (?a - 1) \<le> real num" "real num < 2 ^ ?a" "2 ^ (?b - 1) \<le> real den" "real den < 2 ^ ?b"
    using n d by (metis of_nat_le_iff of_nat_less_iff of_nat_power of_nat_numeral)+
  let ?e = "int ?a - int ?b"
  have "2 powi (?e - 1) = 2 ^ (?a - 1) / (2 ^ ?b :: real)" "2 powi (?e + 1) = 2 ^ ?a / (2 ^ (?b - 1) :: real)"
    using n d by (auto simp: power_int_diff power_int_add power_diff field_simps)
  moreover have "2 ^ (?a - 1) / 2 ^ ?b \<le> real num / real den" "real num / real den < 2 ^ ?a / 2 ^ (?b - 1)"
    using rn assms by (auto intro!: frac_le frac_less)
  ultimately show "2 powi (ilog2 num den) \<le> real num / real den" "real num / real den < 2 powi (ilog2 num den + 1)"
    using pow2_le_iff [OF assms(2), of ?e num] by (auto simp: ilog2_def Let_def)
qed

lemma round_half_even_near:
  assumes "0 < d" "\<bar>real n / real d - real m\<bar> < 1 / 2"
  shows "round_half_even n d = m"
proof -
  have "real n = real (n div d) * real d + real (n mod d)"
    by (metis div_mult_mod_eq of_nat_add of_nat_mult)
  then have "real n / real d = real (n div d) + real (n mod d) / real d"
    using assms(1) by (simp add: field_simps)
  then have *: "\<bar>real (n div d) + real (n mod d) / real d - real m\<bar> < 1 / 2" using assms(2) by simp
  have r: "0 \<le> real (n mod d) / real d" "real (n mod d) / real d < 1" using assms(1) by simp_all
  show ?thesis
  proof (cases "2 * (n mod d) < d")
    case True
    then have "real (n mod d) / real d < 1 / 2" using assms(1) by (simp add: field_simps)
    with * r have "n div d = m" by linarith
    with True show ?thesis by (simp add: round_half_even_def Let_def)
  next
    case False
    then have "1 / 2 \<le> real (n mod d) / real d" using assms(1) by (simp add: field_simps)
    with * r have "n div d + 1 = m" by linarith
    moreover from this * have "real (n mod d) / real d \<noteq> 1 / 2" by auto
    moreover from this have "d < 2 * (n mod d)" using False assms(1) by (auto simp: field_simps not_less le_less)
    ultimately show ?thesis by (simp add: round_half_even_def Let_def)
  qed
qed

section \<open>Rounding to a number\<close>

lemma f64_of_ratio_at:
  assumes "0 < num" "0 < den" and e: "e = max (ilog2 num den) (- 1022)"
    and near: "\<bar>real num / real den / 2 powi (e - 52) - real m\<bar> < 1 / 2"
    and fin: "int m + (e + 1022) * 2 ^ 52 < 0x7FF0000000000000"
  shows "f64_of_ratio num den = of_int (int m + (e + 1022) * 2 ^ 52)"
proof -
  let ?q = "e - 52"
  have round: "(if 0 \<le> ?q then round_half_even num (den * 2 ^ nat ?q) else round_half_even (num * 2 ^ nat (- ?q)) den) = m"
    using near assms(1,2) ratio_scaled(1) [of 2 ?q num den] ratio_scaled(2) [of 2 ?q num den]
    by (auto intro!: round_half_even_near simp: not_le)
  show ?thesis
    unfolding f64_of_ratio_def Let_def e [symmetric] round using fin assms(1) by simp
qed

text \<open>
  A finite number is \<open>m * 2 ^ (e - 52)\<close>, with a significand of 53 bits unless it is subnormal.
  A ratio within one part in \<open>2 * 10 ^ 16\<close> of it rounds to it: that is less than half a unit in
  the last place, also below a power of two, where the units are half as large.
\<close>

lemma f64_of_ratio_near:
  fixes m :: nat and e :: int
  defines "v \<equiv> real m * 2 powi (e - 52)"
  assumes "0 < num" "0 < den" and near: "\<bar>real num / real den - v\<bar> \<le> v / (2 * 10 ^ 16)"
    and m: "m < 2 ^ 53" "2 ^ 52 \<le> m \<or> e = - 1022" "0 < m" and e: "- 1022 \<le> e"
    and fin: "int m + (e + 1022) * 2 ^ 52 < 0x7FF0000000000000"
  shows "f64_of_ratio num den = of_int (int m + (e + 1022) * 2 ^ 52)"
proof -
  let ?c = "real num / real den" and ?u = "2 powi (e - 52) :: real" and ?l = "ilog2 num den"
  note l = ilog2_bounds [OF assms(2,3)]
  have u: "0 < ?u" by simp
  define w where "w = ?c / ?u"
  have "w - real m = (?c - v) / ?u" using u by (simp add: w_def v_def diff_divide_distrib)
  moreover have "\<bar>?c - v\<bar> / ?u \<le> v / (2 * 10 ^ 16) / ?u" using near u by (intro divide_right_mono) simp_all
  ultimately have c: "\<bar>w - real m\<bar> \<le> real m / (2 * 10 ^ 16)" using u by (simp add: v_def)
  then have c': "w \<le> real m + real m / (2 * 10 ^ 16)" "real m - real m / (2 * 10 ^ 16) \<le> w"
    unfolding abs_le_iff by linarith+
  have wc: "x \<le> w \<longleftrightarrow> x * ?u \<le> ?c" for x unfolding w_def by (rule pos_le_divide_eq [OF u])
  have mb: "real m \<le> 2 ^ 53 - 1" using m(1) by simp
  have "\<not> 2 ^ 53 \<le> w" using c'(1) mb by simp
  have top: "?l \<le> e"
  proof (rule ccontr)
    assume "\<not> ?l \<le> e"
    then have "2 powi (e + 1) \<le> (2 :: real) powi ?l" by (intro power_int_increasing) auto
    then have "2 ^ 53 * ?u \<le> ?c" using l(1) by (simp add: power_int_add power_int_diff)
    with \<open>\<not> 2 ^ 53 \<le> w\<close> show False using wc by blast
  qed
  show ?thesis
  proof (cases "e \<le> max ?l (- 1022)")
    case True
    with top e have e': "e = max ?l (- 1022)" by simp
    have "\<bar>w - real m\<bar> < 1 / 2" using c mb by simp
    then show ?thesis using fin f64_of_ratio_at [OF assms(2,3) e'] by (simp add: w_def)
  next
    case False
    then have "2 powi (?l + 1) \<le> (2 :: real) powi e" by (intro power_int_increasing) auto
    then have "\<not> 2 ^ 52 * ?u \<le> ?c" using l(2) by (simp add: power_int_diff)
    then have "w < 2 ^ 52" by (simp only: wc [symmetric] not_le)
    moreover have "2 ^ 52 \<le> m" using m(2) False by auto
    ultimately have m52: "m = 2 ^ 52" using c' mb by simp
    with c'(2) have "2 ^ 51 \<le> w" by simp
    then have low: "2 powi (e - 1) \<le> ?c" by (simp add: wc power_int_diff)
    have "\<not> ?l < e - 1"
    proof
      assume "?l < e - 1"
      then have "2 powi (?l + 1) \<le> (2 :: real) powi (e - 1)" by (intro power_int_increasing) auto
      with low l(2) show False by simp
    qed
    with False have e': "e - 1 = max ?l (- 1022)" by auto
    have "?c / 2 powi (e - 1 - 52) = 2 * w" by (simp add: w_def power_int_diff)
    moreover have "\<bar>2 * w - real (2 ^ 53)\<bar> < 1 / 2" using c' m52 unfolding abs_less_iff by simp
    ultimately show ?thesis
      using f64_of_ratio_at [OF assms(2,3) e', of "2 ^ 53"] fin m52 by (simp add: algebra_simps)
  qed
qed

section \<open>Seventeen digits\<close>

lemma decimal_length_bounds: "0 < n \<Longrightarrow> 10 ^ (length (decimal n) - 1) \<le> n \<and> n < 10 ^ length (decimal n)"
proof (induction n rule: decimal.induct)
  case (1 n)
  show ?case
  proof (cases "n < 10")
    case False
    with 1 have "10 ^ (length (decimal (n div 10)) - 1) \<le> n div 10" "n div 10 < 10 ^ length (decimal (n div 10))"
      by (auto intro: "1.IH" [THEN conjunct1] "1.IH" [THEN conjunct2])
    moreover have "length (decimal n) = Suc (length (decimal (n div 10)))"
      using False by (simp add: decimal.simps [of n])
    moreover obtain k where "length (decimal (n div 10)) = Suc k"
      using decimal_not_Nil [of "n div 10"] by (cases "decimal (n div 10)") auto
    ultimately show ?thesis by simp linarith
  qed (use 1 in \<open>simp add: decimal.simps\<close>)
qed

lemma lead_zeros_bounds:
  "0 < num \<Longrightarrow> num < den \<Longrightarrow> num * 10 ^ lead_zeros num den < den \<and> den \<le> num * 10 ^ Suc (lead_zeros num den)"
proof (induction num den rule: lead_zeros.induct)
  case (1 num den)
  show ?case
  proof (cases "den \<le> 10 * num")
    case False
    with 1 have "10 * num * 10 ^ lead_zeros (10 * num) den < den \<and> den \<le> 10 * num * 10 ^ Suc (lead_zeros (10 * num) den)"
      by (intro "1.IH") auto
    then show ?thesis using False 1 by (simp add: lead_zeros.simps [of num] mult.assoc mult.left_commute)
  qed (use 1 in \<open>simp add: lead_zeros.simps [of num]\<close>)
qed

lemma dec_exponent_bounds:
  assumes "0 < num" "0 < den"
  shows "10 powi (dec_exponent num den - 1) \<le> real num / real den"
proof (cases "den \<le> num")
  case True
  let ?n = "num div den"
  have "0 < ?n" using True assms(2) by (simp add: div_greater_zero_iff)
  with decimal_length_bounds [of ?n] have "10 ^ (length (decimal ?n) - 1) \<le> ?n" by simp
  then have "10 ^ (length (decimal ?n) - 1) \<le> real ?n" by (metis of_nat_le_iff of_nat_power of_nat_numeral)
  also have "real ?n \<le> real num / real den" by (rule of_nat_div_le_of_nat)
  finally have "10 powi (int (length (decimal ?n) - 1)) \<le> real num / real den" by simp
  moreover have "int (length (decimal ?n) - 1) = int (length (decimal ?n)) - 1"
    using decimal_not_Nil [of ?n] by (cases "decimal ?n") auto
  ultimately show ?thesis using True by (simp add: dec_exponent_def)
next
  case False
  let ?z = "lead_zeros num den"
  have "den \<le> num * 10 ^ Suc ?z" using lead_zeros_bounds [of num den] False assms by simp
  then have "real den \<le> real num * 10 ^ Suc ?z"
    by (metis of_nat_le_iff of_nat_mult of_nat_power of_nat_numeral)
  then have "1 / 10 ^ Suc ?z \<le> real num / real den" using assms by (simp add: field_simps)
  moreover have "10 powi (- int ?z - 1) = 1 / (10 ^ Suc ?z :: real)"
    by (simp add: power_int_diff power_int_minus field_simps)
  ultimately show ?thesis using False by (simp add: dec_exponent_def)
qed

text \<open>The closer of the two decimals of \<open>n\<close> digits is within half a unit of its last digit.\<close>

lemma digit_candidates_near:
  fixes num den n :: nat
  defines "p \<equiv> dec_exponent num den - int n"
  assumes "0 < n" "0 < den"
  shows "\<exists>d q. (d, q) \<in> set (digit_candidates num den n) \<and>
    \<bar>real d * 10 powi q - real num / real den\<bar> \<le> 10 powi p / 2"
proof -
  obtain a b where ab: "(a, b) = (if 0 \<le> p then (num, den * 10 ^ nat p) else (num * 10 ^ nat (- p), den))"
    by (metis surj_pair)
  then have "0 < b" using assms(3) by (auto split: if_splits)
  have r: "real a / real b = real num / real den / 10 powi p"
    using ab ratio_scaled [of 10 p num den] by (auto split: if_splits)
  define t where "t = real (a mod b) / real b"
  have "real a = real (a div b) * real b + real (a mod b)" by (metis div_mult_mod_eq of_nat_add of_nat_mult)
  then have v: "real num / real den = (real (a div b) + t) * 10 powi p"
    using r \<open>0 < b\<close> by (simp add: t_def field_simps)
  define up where "up = (if a div b + 1 = 10 ^ n then (10 ^ (n - 1), p + 1) else (a div b + 1, p))"
  have up: "real (fst up) * 10 powi (snd up) = (real (a div b) + 1) * 10 powi p"
  proof (cases "a div b + 1 = 10 ^ n")
    case True
    then have "real (a div b) + 1 = 10 ^ n" by (metis of_nat_1 of_nat_add of_nat_numeral of_nat_power)
    moreover have "10 ^ (n - 1) * 10 powi (p + 1) = (10 ^ n * 10 powi p :: real)"
      using assms(2) by (cases n) (simp_all add: power_int_add)
    ultimately show ?thesis using True by (simp add: up_def)
  qed (simp add: up_def)
  have cands: "set (digit_candidates num den n) = {up, (a div b, p)}"
    using ab by (auto simp: digit_candidates_def p_def [symmetric] up_def Let_def split: if_splits)
  have pos: "(0 :: real) < 10 powi p" by simp
  show ?thesis
  proof (cases "b \<le> 2 * (a mod b)")
    case True
    then have "1 / 2 \<le> t" "t \<le> 1" using \<open>0 < b\<close> by (simp_all add: t_def field_simps less_imp_le)
    then have "\<bar>real (fst up) * 10 powi (snd up) - real num / real den\<bar> \<le> 10 powi p / 2"
      unfolding up v left_diff_distrib [symmetric] abs_mult using pos by simp
    then show ?thesis using cands by (intro exI [of _ "fst up"] exI [of _ "snd up"]) simp
  next
    case False
    then have "t < 1 / 2" "0 \<le> t" using \<open>0 < b\<close> by (simp_all add: t_def field_simps)
    then have "\<bar>real (a div b) * 10 powi p - real num / real den\<bar> \<le> 10 powi p / 2"
      unfolding v left_diff_distrib [symmetric] abs_mult using pos by simp
    then show ?thesis using cands by (intro exI [of _ "a div b"] exI [of _ p]) simp
  qed
qed

lemma f64_ratio_parts:
  assumes "f64_abs x \<noteq> 0" "f64_abs x < F64_INFINITY" and nd: "f64_ratio x = (num, den)"
  obtains m e where "0 < num" "0 < den" "m < 2 ^ 53" "2 ^ 52 \<le> m \<or> e = - 1022" "0 < m"
    "- 1022 \<le> e" "real num / real den = real m * 2 powi (e - 52)" "int m + (e + 1022) * 2 ^ 52 = uint (f64_abs x)"
    "uint (f64_abs x) < 0x7FF0000000000000"
proof -
  define n where "n = unat (f64_abs x)"
  let ?e = "n div 2 ^ 52" and ?f = "n mod 2 ^ 52"
  define m where "m = (if ?e = 0 then ?f else ?f + 2 ^ 52)"
  have n0: "0 < n" using assms(1) by (simp add: n_def unat_gt_0)
  have nb: "n < 0x7FF0000000000000" using assms(2) by (simp add: n_def word_less_nat_alt F64_INFINITY_def)
  have dm: "?e * 2 ^ 52 + ?f = n" "?f < 2 ^ 52" by simp_all
  let ?E = "int (max ?e 1) - 1023"
  have ratio: "f64_ratio x = (if 1075 \<le> ?e then (m * 2 ^ (?e - 1075), 1) else (m, 2 ^ (1075 - max ?e 1)))"
    unfolding f64_ratio_def Let_def n_def [symmetric] m_def ..
  show ?thesis
  proof (rule that)
    show m0: "0 < m" "m < 2 ^ 53" using dm n0 by (auto simp: m_def)
    show "2 ^ 52 \<le> m \<or> ?E = - 1022" "- 1022 \<le> ?E" by (auto simp: m_def)
    show "0 < num" "0 < den" using nd m0 unfolding ratio by (auto split: if_splits)
    show "real num / real den = real m * 2 powi (?E - 52)"
      using nd unfolding ratio by (auto simp: power_int_def power_inverse field_simps nat_diff_distrib split: if_splits)
    have "int n = int m + (?E + 1022) * 2 ^ 52"
    proof (cases "?e = 0")
      case False
      then have "max ?e 1 = ?e" by simp
      moreover have "int n = int ?e * 2 ^ 52 + int ?f"
        by (simp add: of_nat_div of_nat_mod)
      ultimately show ?thesis using False by (simp add: m_def)
    qed (use dm(1) in \<open>simp add: m_def\<close>)
    moreover have u: "int n = uint (f64_abs x)" by (simp add: n_def)
    ultimately show "int m + (?E + 1022) * 2 ^ 52 = uint (f64_abs x)" by (simp only:)
    show "uint (f64_abs x) < 0x7FF0000000000000" unfolding u [symmetric] using nb by linarith
  qed
qed

lemma f64_of_decimal_near:
  assumes "f64_abs x \<noteq> 0" "f64_abs x < F64_INFINITY" "f64_ratio x = (num, den)"
    and near: "\<bar>real d * 10 powi p - real num / real den\<bar> \<le> real num / real den / (2 * 10 ^ 16)"
  shows "f64_of_decimal d p = f64_abs x"
proof -
  obtain m e where x: "0 < num" "0 < den" "m < 2 ^ 53" "2 ^ 52 \<le> m \<or> e = - 1022" "0 < m" "- 1022 \<le> e"
    "real num / real den = real m * 2 powi (e - 52)" "int m + (e + 1022) * 2 ^ 52 = uint (f64_abs x)"
    "uint (f64_abs x) < 0x7FF0000000000000"
    using f64_ratio_parts [OF assms(1-3)] by blast
  define a b :: nat where "a = (if 0 \<le> p then d * 10 ^ nat p else d)" and "b = (if 0 \<le> p then 1 else 10 ^ nat (- p))"
  have b: "0 < b" by (simp add: b_def)
  have ab: "real a / real b = real d * 10 powi p" by (simp add: a_def b_def power_int_def power_inverse field_simps)
  have "0 < real num / real den" using x(1,2) by simp
  with near have "0 < real d * 10 powi p" by (simp add: abs_le_iff)
  with ab have "0 < a" by (cases "a = 0") auto
  have "f64_of_decimal d p = f64_of_ratio a b" by (simp add: f64_of_decimal_def a_def b_def)
  also have "\<dots> = of_int (int m + (e + 1022) * 2 ^ 52)"
    using near x by (intro f64_of_ratio_near \<open>0 < a\<close> b) (simp_all add: ab)
  finally show ?thesis unfolding x(8) by simp
qed

lemma shortest_decimal_found:
  assumes "f64_abs x \<noteq> 0" "f64_abs x < F64_INFINITY"
  shows "shortest_decimal x \<noteq> None"
proof -
  obtain num den where r: "f64_ratio x = (num, den)" by fastforce
  with f64_ratio_parts [OF assms] have nd: "f64_ratio x = (num, den)" "0 < num" "0 < den" by blast+
  let ?v = "real num / real den" and ?k = "dec_exponent num den"
  obtain d p where c: "(d, p) \<in> set (digit_candidates num den 17)" and
    "\<bar>real d * 10 powi p - ?v\<bar> \<le> 10 powi (?k - 17) / 2"
    using digit_candidates_near [of 17 den num] nd(3) by auto
  moreover have "10 powi (?k - 17) / 2 = 10 powi (?k - 1) / (2 * 10 ^ 16 :: real)" by (simp add: power_int_diff)
  ultimately have "\<bar>real d * 10 powi p - ?v\<bar> \<le> ?v / (2 * 10 ^ 16)"
    using dec_exponent_bounds [OF nd(2,3)] by simp
  then have "f64_of_decimal d p = f64_abs x" by (rule f64_of_decimal_near [OF assms nd(1)])
  moreover have "(d, p) \<in> set (concat (map (digit_candidates num den) [1..<18]))" using c by auto
  ultimately show ?thesis unfolding shortest_decimal_def nd(1) prod.case find_None_iff by blast
qed

text \<open>Every number but the NaNs is read back from its text, the sign of zero included.\<close>

lemma f64_to_string_exact: "f64_abs x \<le> F64_INFINITY \<Longrightarrow> parse_f64 (f64_to_string x) = Ok x"
  using shortest_decimal_found [of x] by (intro f64_to_string_reads_back) (auto simp: le_less)

text \<open>The text consists of ASCII characters and has no line break.\<close>

lemma plain_decimal_chars: "c \<in> set (plain_decimal d p) \<Longrightarrow> ascii_digit c \<or> c = CHR ''.''"
  using decimal_digits [of d]
  by (auto simp: plain_decimal_def Let_def list_all_iff ascii_digit_def dest: in_set_takeD in_set_dropD split: if_splits)

lemma f64_to_string_chars:
  assumes "f64_abs x \<le> F64_INFINITY"
  shows "list_all (\<lambda>c. ascii_digit c \<or> c \<in> set ''-.inf'') (f64_to_string x)"
  using assms plain_decimal_chars
  by (fastforce simp: f64_to_string_def list_all_iff ascii_digit_def split: option.splits)

lemma f64_to_string_line:
  assumes "f64_abs x \<le> F64_INFINITY"
  shows "CR \<notin> set (f64_to_string x)" "utf8_valid (f64_to_string x)"
proof -
  have "c \<noteq> CR \<and> byte_in 0 127 c" if "c \<in> set (f64_to_string x)" for c
    using that f64_to_string_chars [OF assms] not_ascii_digit
    by (fastforce simp: list_all_iff byte_in_def ascii_digit_def)
  then show "CR \<notin> set (f64_to_string x)" "utf8_valid (f64_to_string x)"
    by (auto simp: list_all_iff intro!: utf8_valid_ascii)
qed

end
