(* ===== verification/Resp_Values.thy ===== *)
theory Resp_Values
  imports Resp_Stream F64_Digits
begin

text \<open>
  What \<open>src/src/resp/parser.rs\<close> reads: the value of a decimal line, the well-formedness of
  parsed values, the absence of panics, and the round trip with the wire format. The
  printer \<open>resp_encode\<close> is the specification of that format (RESP3 as the server writes it);
  the crate itself only prints commands.
\<close>

section \<open>Integers\<close>

lemma parse_int_digits_val:
  assumes "list_all ascii_digit ds" and "int m \<le> 2 ^ 63"
  shows "parse_int_digits (- int m) ds =
    (if int (digits_val m ds) \<le> 2 ^ 63 then Ok (- int (digits_val m ds))
     else Err (Protocol ''integer overflow''))"
  using assms
proof (induction ds arbitrary: m)
  case (Cons d ds)
  let ?m = "10 * m + digit_val d"
  have mono: "?m \<le> digits_val ?m ds" by (rule digits_val_mono)
  have "Option.bind (checked_mul_i64 (- int m) 10) (\<lambda>n. checked_sub_i64 n (int (digit_val d))) =
      (if int ?m \<le> 2 ^ 63 then Some (- int ?m) else None)"
    using Cons.prems by (auto simp: checked_mul_i64_def checked_sub_i64_def i64_bounds)
  then show ?case
    using Cons.IH [of ?m] Cons.prems mono by (auto simp: mult.commute)
qed simp

lemma parse_int_digits_bad:
  "\<not> list_all ascii_digit ds \<Longrightarrow> \<exists>e. parse_int_digits n ds = Err e"
  by (induction n ds rule: parse_int_digits.induct) (auto split: option.splits)

lemma parse_int_digits_not_Panic: "parse_int_digits n ds \<noteq> Panic"
  by (induction n ds rule: parse_int_digits.induct) (auto split: option.splits)

lemma parse_int_not_Panic [simp]: "parse_int_from_bytes line \<noteq> Panic"
  by (auto simp: parse_int_from_bytes_def Let_def and_then_eqs parse_int_digits_not_Panic)

text \<open>The line as a sign and digits, the way the code splits it.\<close>

definition sign_split :: "bytes \<Rightarrow> bool \<times> bytes" where
  "sign_split bs =
     (if bs \<noteq> [] \<and> bs ! 0 = CHR ''-'' then (True, drop 1 bs)
      else if bs \<noteq> [] \<and> bs ! 0 = CHR ''+'' then (False, drop 1 bs) else (False, bs))"

lemma parse_int_from_bytes_Ok:
  "parse_int_from_bytes bs = Ok i \<longleftrightarrow>
    (let (neg, ds) = sign_split bs; m = int (digits_val 0 ds) in
     ds \<noteq> [] \<and> list_all ascii_digit ds \<and> m \<le> 2 ^ 63 \<and> i = (if neg then - m else wrap_i64 m))"
proof -
  have "parse_int_digits 0 ds = Ok n \<longleftrightarrow>
      list_all ascii_digit ds \<and> int (digits_val 0 ds) \<le> 2 ^ 63 \<and> n = - int (digits_val 0 ds)" for ds n
    using parse_int_digits_val [of ds 0] parse_int_digits_bad [of ds 0]
    by (cases "list_all ascii_digit ds") auto
  then show ?thesis
    by (auto simp: parse_int_from_bytes_def sign_split_def Let_def and_then_eq_Ok split: if_splits)
qed

lemma parse_int_in_i64:
  assumes "parse_int_from_bytes bs = Ok i"
  shows "in_i64 i"
proof -
  obtain neg ds where s: "sign_split bs = (neg, ds)" by fastforce
  with assms have "i = (if neg then - int (digits_val 0 ds) else wrap_i64 (int (digits_val 0 ds)))"
    "int (digits_val 0 ds) \<le> 2 ^ 63"
    by (simp_all add: parse_int_from_bytes_Ok Let_def)
  then show ?thesis by (cases neg) (simp, simp add: i64_bounds, simp)
qed

lemma sign_split_decimal [simp]: "sign_split (decimal n) = (False, decimal n)"
  using decimal_hd [of n] not_ascii_digit by (auto simp: sign_split_def)

lemma sign_split_minus [simp]: "sign_split (CHR ''-'' # ds) = (True, ds)"
  by (simp add: sign_split_def)

lemma parse_int_decimal: "int n \<le> i64_max \<Longrightarrow> parse_int_from_bytes (decimal n) = Ok (int n)"
  using decimal_digits [of n] by (simp add: parse_int_from_bytes_Ok i64_bounds)

lemma parse_int_decimal_int:
  assumes "in_i64 i"
  shows "parse_int_from_bytes (decimal_int i) = Ok i"
proof (cases "i < 0")
  case True
  with assms decimal_digits [of "nat (- i)"] show ?thesis
    by (simp add: decimal_int_def parse_int_from_bytes_Ok i64_bounds)
next
  case False
  with assms parse_int_decimal [of "nat i"] show ?thesis
    by (simp add: decimal_int_def i64_bounds)
qed

section \<open>Parsed values are well-formed\<close>

definition good :: "('a \<Rightarrow> bool) \<Rightarrow> ('a \<times> nat) res \<Rightarrow> bool" where
  "good P m \<longleftrightarrow> (\<forall>v n. m = Ok (v, n) \<longrightarrow> P v)"

lemma good_and_then: "(\<And>x. m = Ok x \<Longrightarrow> good P (f x)) \<Longrightarrow> good P (and_then m f)"
  by (auto simp: good_def and_then_eq_Ok)

lemma good_bind:
  "good Q m \<Longrightarrow> (\<And>v n. m = Ok (v, n) \<Longrightarrow> Q v \<Longrightarrow> good P (f (v, n))) \<Longrightarrow> good P (and_then m f)"
  by (cases m) (auto simp: good_def)

lemma good_simps [simp]: "good P (Ok (v, n)) = P v" "good P (Err e)" "good P Panic"
  by (auto simp: good_def)

lemma goodD: "good P m \<Longrightarrow> m = Ok (v, n) \<Longrightarrow> P v"
  by (simp add: good_def)

lemma utf8_or_eq_Ok: "utf8_or what bs = Ok s \<longleftrightarrow> utf8_valid bs \<and> s = bs"
  by (simp add: utf8_or_def from_utf8_eq_Ok)

lemma parse_seq_good:
  assumes "\<And>b. length b < length buf \<Longrightarrow> good P (p b)" "0 < k" "list_all P acc"
  shows "good (list_all P) (parse_seq p buf k n acc)"
  using assms(2,3)
proof (induction n arbitrary: k acc)
  case (Suc n)
  show ?case unfolding parse_seq.simps
  proof (rule good_and_then)
    fix sub assume "slice_from buf k = (Ok sub :: bytes res)"
    with Suc.prems have "length sub < length buf" by (auto simp: slice_from_eq_Ok)
    from assms(1) [OF this] show "good (list_all P)
        (and_then (p sub) (\<lambda>(val, consumed). parse_seq p buf (k + consumed) n (acc @ [val])))"
      using Suc by (auto intro!: good_and_then dest: goodD)
  qed
qed simp

lemma typed_pair_up: "list_all typed vs \<Longrightarrow> typed_pairs (pair_up vs)"
  by (induction vs rule: pair_up.induct) auto

lemma scalars_typed:
  "good typed (parse_simple_string C buf)" "good typed (parse_simple_error C buf)"
  "good typed (parse_integer C buf)" "good typed (parse_double C buf)"
  "good typed (parse_big_number C buf)" "good typed (parse_null buf)" "good typed (parse_boolean buf)"
  "good typed (parse_bulk_string C buf)" "good typed (parse_bulk_error C buf)"
  "good typed (parse_verbatim_string C buf)"
  unfolding parse_simple_string_def parse_simple_error_def parse_integer_def parse_double_def
    parse_big_number_def parse_null_def parse_boolean_def parse_bulk_string_def parse_bulk_error_def
    parse_verbatim_string_def Let_def
  by (auto intro!: good_and_then dest: parse_int_in_i64
      simp: utf8_or_eq_Ok utf8_valid_ascii byte_in_def split: if_split_asm)

lemma push_kind_utf8: "typed v \<Longrightarrow> push_kind v = Ok s \<Longrightarrow> utf8_valid s"
  by (auto simp: push_kind_def utf8_or_eq_Ok split: RespValue.splits)

lemma list_all_last: "list_all P vs \<Longrightarrow> vs \<noteq> [] \<Longrightarrow> P (last vs)"
  by (induction vs) auto

context crate_env
begin

lemma line_next_ge: "read_line C buf (Suc 0) = Ok (line, k) \<Longrightarrow> 3 \<le> k"
  using read_line_bounds(1) by fastforce

lemma aggregates_typed:
  assumes "\<And>b. length b < length buf \<Longrightarrow> good typed (p b)"
  shows "good typed (parse_array C p buf)" "good typed (parse_set C p buf)"
    "good typed (parse_map C p buf)" "good typed (parse_attribute C p buf)" "good typed (parse_push C p buf)"
proof -
  have seq: "3 \<le> k \<Longrightarrow> good (list_all typed) (parse_seq p buf (k + m) n [])"
      "3 \<le> k \<Longrightarrow> good (list_all typed) (parse_seq p buf k n [])" for k m n
    using parse_seq_good [of buf typed p "k + m" "[]" n] parse_seq_good [of buf typed p k "[]" n] assms
    by auto
  have one: "3 \<le> k \<Longrightarrow> k \<le> length buf \<Longrightarrow> good typed (p (drop k buf))" for k
    by (intro assms) simp
  show "good typed (parse_array C p buf)" "good typed (parse_set C p buf)" "good typed (parse_map C p buf)"
    unfolding parse_array_def parse_set_def parse_map_def parse_pairs_seq and_then_assoc
    by (auto intro!: good_and_then [of "read_line _ _ _"] good_and_then [of "parse_int_from_bytes _"]
        good_and_then [of "with_capacity _ _"] good_bind [OF seq(2)] typed_pair_up dest!: line_next_ge)
  show "good typed (parse_attribute C p buf)"
    unfolding parse_attribute_seq
    by (auto intro!: good_and_then [of "read_line _ _ _"] good_and_then [of "parse_int_from_bytes _"]
        good_and_then [of "with_capacity _ _"] good_bind [OF seq(2)] typed_pair_up list_all_last [of typed]
        simp del: parse_seq.simps dest!: line_next_ge parse_seq_length)
  show "good typed (parse_push C p buf)"
    unfolding parse_push_def Let_def
    by (auto intro!: good_and_then [of "read_line _ _ _"] good_and_then [of "parse_int_from_bytes _"]
        good_and_then [of "with_capacity _ _"] good_and_then [of "slice_from _ _"] good_and_then [of "push_kind _"]
        good_bind [OF seq(1)] good_bind [OF one]
        simp: slice_from_eq_Ok push_kind_utf8 dest!: line_next_ge)
qed

lemma parse_typed: "good typed (parse C buf)"
proof (induction buf rule: length_induct)
  case (1 buf)
  then have "\<And>b. length b < length buf \<Longrightarrow> good typed (parse C b)" by simp
  note t = scalars_typed aggregates_typed [OF this]
  show ?case by (subst parse.simps) (simp add: t)
qed

section \<open>No panics\<close>

text \<open>
  Every slice the parser takes is in range. What is left is the allocation of
  \<open>Vec::with_capacity(count)\<close>, whose size the peer chooses.
\<close>

lemma utf8_or_not_Panic [simp]: "utf8_or what bs \<noteq> Panic"
  by (simp add: utf8_or_def)

lemma push_kind_not_Panic [simp]: "push_kind v \<noteq> Panic"
  by (simp add: push_kind_def split: RespValue.splits)

lemma verbatim_body_not_Panic: "verbatim_body d \<noteq> Panic"
  by (auto simp: verbatim_body_def and_then_eqs)

lemma line_not_Panic:
  assumes "buf \<noteq> []" and "\<And>line k. 3 \<le> k \<Longrightarrow> k \<le> length buf \<Longrightarrow> f line k \<noteq> Panic"
  shows "and_then (read_line C buf 1) (\<lambda>(line, k). f line k) \<noteq> Panic"
  using assms read_line_not_Panic [of 1 buf] read_line_bounds(1,2) [of buf 1]
  by (fastforce simp: and_then_eq_Panic Suc_le_eq)

lemma counted_not_Panic:
  assumes "buf \<noteq> []" and "\<And>c k. 3 \<le> k \<Longrightarrow> k \<le> length buf \<Longrightarrow> g k c \<noteq> Panic"
  shows "and_then (read_line C buf 1) (\<lambda>(line, k).
           and_then (parse_int_from_bytes line) (\<lambda>c. g k c)) \<noteq> Panic"
  by (rule line_not_Panic [OF assms(1)]) (simp add: and_then_eq_Panic assms(2))

lemma scalars_not_Panic:
  assumes "buf \<noteq> []"
  shows "parse_simple_string C buf \<noteq> Panic" "parse_simple_error C buf \<noteq> Panic"
    "parse_integer C buf \<noteq> Panic" "parse_double C buf \<noteq> Panic" "parse_big_number C buf \<noteq> Panic"
    "parse_bulk_string C buf \<noteq> Panic" "parse_bulk_error C buf \<noteq> Panic"
    "parse_verbatim_string C buf \<noteq> Panic" "parse_null buf \<noteq> Panic" "parse_boolean buf \<noteq> Panic"
  unfolding parse_simple_string_def parse_simple_error_def parse_integer_def parse_double_def
    parse_big_number_def bulk_alts
  by ((rule line_not_Panic [OF assms])?, (auto simp: and_then_eq_Panic Let_def
      bulk_body_not_Panic verbatim_body_not_Panic parse_null_def parse_boolean_def split: if_split_asm)[1])+

lemma parse_seq_not_Panic:
  assumes "\<And>b. length b < length buf \<Longrightarrow> p b \<noteq> Panic" "streams_below p (length buf)"
    and "0 < k" "k \<le> length buf"
  shows "parse_seq p buf k n acc \<noteq> Panic"
  using assms(3,4)
proof (induction n arbitrary: k acc)
  case (Suc n)
  then show ?case
    using assms(1) [of "drop k buf"] step_bounds(2) [OF assms(2) Suc.prems]
    by (auto simp: and_then_eq_Panic)
qed simp

lemma aggregates_not_Panic:
  assumes "\<And>n. vec_alloc C n" and "buf \<noteq> []"
    and np: "\<And>b. length b < length buf \<Longrightarrow> parse C b \<noteq> Panic"
  shows "parse_array C (parse C) buf \<noteq> Panic" "parse_set C (parse C) buf \<noteq> Panic"
    "parse_map C (parse C) buf \<noteq> Panic" "parse_attribute C (parse C) buf \<noteq> Panic"
    "parse_push C (parse C) buf \<noteq> Panic"
proof -
  have below: "streams_below (parse C) (length buf)" using parse_streams by (simp add: streams_below_def)
  note seq = parse_seq_not_Panic [OF np below] and step = step_bounds(2) [OF below]
  show "parse_array C (parse C) buf \<noteq> Panic" "parse_set C (parse C) buf \<noteq> Panic"
    "parse_map C (parse C) buf \<noteq> Panic" "parse_attribute C (parse C) buf \<noteq> Panic"
    unfolding parse_array_def parse_set_def parse_map_def parse_attribute_seq parse_pairs_seq
    by (rule counted_not_Panic [OF assms(2)],
        (auto simp: and_then_eq_Panic seq assms(1) with_capacity_def simp del: parse_seq.simps)[1])+
  show "parse_push C (parse C) buf \<noteq> Panic"
    unfolding parse_push_def Let_def
    by (rule counted_not_Panic [OF assms(2)])
       (auto simp: and_then_eq_Panic np assms(1) with_capacity_def dest!: step [rotated 2] seq [THEN notE, rotated 2])
qed

lemma parse_not_Panic: "(\<And>n. vec_alloc C n) \<Longrightarrow> parse C buf \<noteq> Panic"
proof (induction buf rule: length_induct)
  case (1 buf)
  then have "\<And>b. length b < length buf \<Longrightarrow> parse C b \<noteq> Panic" by blast
  note np = scalars_not_Panic [of buf] aggregates_not_Panic [OF 1(2) _ this]
  show ?case by (subst parse.simps) (simp add: np)
qed

end

section \<open>The wire format\<close>

definition wire_line :: "u8 \<Rightarrow> bytes \<Rightarrow> bytes" where
  "wire_line t s = t # s @ crlf"

definition wire_bulk :: "u8 \<Rightarrow> bytes \<Rightarrow> bytes" where
  "wire_bulk t d = t # decimal (length d) @ crlf @ d @ crlf"

definition wire_count :: "u8 \<Rightarrow> nat \<Rightarrow> bytes" where
  "wire_count t n = t # decimal n @ crlf"

definition wire_double :: "f64 \<Rightarrow> bytes" where
  "wire_double d = (if d = F64_NAN then ''nan'' else f64_to_string d)"

function resp_encode :: "RespValue \<Rightarrow> bytes"
  and resp_encode_pairs :: "(RespValue \<times> RespValue) list \<Rightarrow> bytes" where
  "resp_encode (SimpleString s) = wire_line CHR ''+'' s"
| "resp_encode (Error s) = wire_line CHR ''-'' s"
| "resp_encode (Integer i) = wire_line CHR '':'' (decimal_int i)"
| "resp_encode (BulkString b) = wire_bulk CHR ''$'' b"
| "resp_encode (Array vs) = wire_count CHR ''*'' (length vs) @ concat (map resp_encode vs)"
| "resp_encode Null = CHR ''_'' # crlf"
| "resp_encode (Double d) = wire_line CHR '','' (wire_double d)"
| "resp_encode (Boolean b) = CHR ''#'' # (if b then CHR ''t'' else CHR ''f'') # crlf"
| "resp_encode (Map ps) = wire_count CHR ''%'' (length ps) @ resp_encode_pairs ps"
| "resp_encode (Set vs) = wire_count CHR ''~'' (length vs) @ concat (map resp_encode vs)"
| "resp_encode (VerbatimString e d) = wire_bulk CHR ''='' (e @ '':'' @ d)"
| "resp_encode (BigNumber s) = wire_line CHR ''('' s"
| "resp_encode (BulkError s) = wire_bulk CHR ''!'' s"
| "resp_encode (Push k vs) = wire_count CHR ''>'' (Suc (length vs)) @ wire_bulk CHR ''$'' k @ concat (map resp_encode vs)"
| "resp_encode (Attribute v ps) = wire_count CHR ''|'' (length ps) @ resp_encode_pairs ps @ resp_encode v"
| "resp_encode_pairs [] = []"
| "resp_encode_pairs ((k, v) # ps) = resp_encode k @ resp_encode v @ resp_encode_pairs ps"
  by pat_completeness auto
termination
  by (relation "measure (case_sum size (size_list (size_prod size size)))")
     (auto simp: less_Suc_eq_le intro: size_list_estimation' [where f = size])

text \<open>
  The values with a wire form: lines carry no CR, counts and lengths fit an \<open>i64\<close>, a
  verbatim string has a three-byte encoding, and of the NaNs only the canonical one is
  written. Numbers are printed as the shortest decimal that reads back.
\<close>

definition line_ok :: "bytes \<Rightarrow> bool" where
  "line_ok s \<longleftrightarrow> CR \<notin> set s \<and> utf8_valid s"

definition fits :: "nat \<Rightarrow> bool" where
  "fits n \<longleftrightarrow> int n \<le> i64_max"

function encodable :: "RespValue \<Rightarrow> bool"
  and encodable_pairs :: "(RespValue \<times> RespValue) list \<Rightarrow> bool" where
  "encodable (SimpleString s) = line_ok s"
| "encodable (Error s) = line_ok s"
| "encodable (Integer i) = in_i64 i"
| "encodable (BulkString b) = fits (length b)"
| "encodable (Array vs) = (fits (length vs) \<and> list_all encodable vs)"
| "encodable Null = True"
| "encodable (Double d) = (f64_abs d \<le> F64_INFINITY \<or> d = F64_NAN)"
| "encodable (Boolean b) = True"
| "encodable (Map ps) = (fits (length ps) \<and> encodable_pairs ps)"
| "encodable (Set vs) = (fits (length vs) \<and> list_all encodable vs)"
| "encodable (VerbatimString e d) = (length e = 3 \<and> utf8_valid e \<and> utf8_valid d \<and> fits (length d + 4))"
| "encodable (BigNumber s) = (line_ok s \<and> strip_sign s \<noteq> [] \<and> list_all ascii_digit (strip_sign s))"
| "encodable (BulkError s) = (utf8_valid s \<and> fits (length s))"
| "encodable (Push k vs) = (utf8_valid k \<and> fits (length k) \<and> fits (Suc (length vs)) \<and> list_all encodable vs)"
| "encodable (Attribute v ps) = (fits (length ps) \<and> encodable_pairs ps \<and> encodable v)"
| "encodable_pairs [] = True"
| "encodable_pairs ((k, v) # ps) = (encodable k \<and> encodable v \<and> encodable_pairs ps)"
  by pat_completeness auto
termination
  by (relation "measure (case_sum size (size_list (size_prod size size)))")
     (auto simp: less_Suc_eq_le intro: size_list_estimation' [where f = size])

fun flatten_pairs :: "('a \<times> 'a) list \<Rightarrow> 'a list" where
  "flatten_pairs [] = []"
| "flatten_pairs ((k, v) # ps) = k # v # flatten_pairs ps"

lemma flatten_pairs_simps [simp]:
  "length (flatten_pairs ps) = 2 * length ps" "pair_up (flatten_pairs ps) = ps"
  "pair_up (flatten_pairs ps @ [v]) = ps"
  by (induction ps rule: flatten_pairs.induct) auto

lemma encode_pairs_flat: "resp_encode_pairs ps = concat (map resp_encode (flatten_pairs ps))"
  by (induction ps rule: flatten_pairs.induct) auto

lemma encodable_pairs_flat: "encodable_pairs ps = list_all encodable (flatten_pairs ps)"
  by (induction ps rule: flatten_pairs.induct) auto

text \<open>The element loop on the concatenation of encoded values.\<close>

definition reads :: "(bytes \<Rightarrow> parsed) \<Rightarrow> RespValue \<Rightarrow> bool" where
  "reads p v \<longleftrightarrow> (\<forall>rest. p (resp_encode v @ rest) = Ok (v, length (resp_encode v)))"

lemma parse_seq_reads:
  assumes "list_all (reads p) vs"
  shows "parse_seq p (h @ concat (map resp_encode vs) @ rest) (length h) (length vs) acc =
    Ok (acc @ vs, length h + length (concat (map resp_encode vs)))"
  using assms
proof (induction vs arbitrary: h acc)
  case (Cons v vs)
  have "p (resp_encode v @ concat (map resp_encode vs) @ rest) = Ok (v, length (resp_encode v))"
    using Cons.prems by (simp add: reads_def)
  with Cons.IH [of "h @ resp_encode v" "acc @ [v]"] Cons.prems show ?case by simp
qed simp

context crate_env
begin

lemma counted_wire:
  assumes "fits n"
  shows "and_then (read_line C (wire_count t n @ body) (Suc 0)) (\<lambda>(line, k).
           and_then (parse_int_from_bytes line) (\<lambda>c. g k c)) = g (length (wire_count t n)) (int n)"
  using assms parse_int_decimal [of n] read_line_encoded [of "decimal n" t body]
  by (simp add: wire_count_def fits_def decimal_no_CR numeral_3_eq_3)

lemma bulk_wire:
  assumes "fits (length d)"
  shows "and_then (read_line C (wire_bulk t d @ rest) (Suc 0)) (\<lambda>(line, k).
           and_then (parse_int_from_bytes line) (\<lambda>c.
             if c < 0 then m k else bulk_body (wire_bulk t d @ rest) k (nat c) err g)) =
         and_then (g d) (\<lambda>x. Ok (x, length (wire_bulk t d)))"
proof -
  have w: "wire_bulk t d @ rest = wire_count t (length d) @ d @ crlf @ rest"
    by (simp add: wire_bulk_def wire_count_def)
  show ?thesis
    unfolding w counted_wire [OF assms]
    by (simp add: bulk_body_encoded wire_count_def wire_bulk_def)
       (simp add: bulk_body_encoded [where h = "t # decimal (length d) @ crlf", simplified])
qed

lemma line_wire:
  "CR \<notin> set s \<Longrightarrow> read_line C (wire_line t s @ rest) (Suc 0) = Ok (s, length (wire_line t s))"
  using read_line_encoded [of s t rest] by (simp add: wire_line_def numeral_3_eq_3)

lemma wire_heads [simp]:
  "(wire_line t s @ rest) ! 0 = t" "(wire_bulk t d @ rest) ! 0 = t" "(wire_count t n @ rest) ! 0 = t"
  "wire_line t s \<noteq> []" "wire_bulk t d \<noteq> []" "wire_count t n \<noteq> []"
  by (simp_all add: wire_line_def wire_bulk_def wire_count_def)

lemma reads_double:
  assumes "f64_abs d \<le> F64_INFINITY \<or> d = F64_NAN"
  shows "reads (parse C) (Double d)"
proof -
  let ?s = "wire_double d"
  have "parse_f64 ?s = Ok d"
    using assms f64_to_string_exact by (auto simp: wire_double_def parse_f64_special)
  moreover have "CR \<notin> set ?s" "utf8_valid ?s"
    using assms f64_to_string_line [of d] by (auto simp: wire_double_def byte_in_def utf8_valid_ascii)
  ultimately show ?thesis
    using parse_f64_special
    by (auto simp: reads_def parse_unfold parse_by_type_def line_wire parse_double_def utf8_or_def)
qed

lemma reads_lines:
  "line_ok s \<Longrightarrow> reads (parse C) (SimpleString s)"
  "line_ok s \<Longrightarrow> reads (parse C) (Error s)"
  "in_i64 i \<Longrightarrow> reads (parse C) (Integer i)"
  "line_ok s \<Longrightarrow> strip_sign s \<noteq> [] \<Longrightarrow> list_all ascii_digit (strip_sign s) \<Longrightarrow> reads (parse C) (BigNumber s)"
  "reads (parse C) Null" "reads (parse C) (Boolean b)"
  by (auto simp: reads_def parse_unfold parse_by_type_def line_ok_def line_wire decimal_int_no_CR
      parse_simple_string_def parse_simple_error_def parse_integer_def parse_big_number_def
      parse_null_def parse_boolean_def utf8_or_def parse_int_decimal_int)

lemma verbatim_body_encoded:
  "length e = 3 \<Longrightarrow> utf8_valid e \<Longrightarrow> utf8_valid d \<Longrightarrow> verbatim_body (e @ '':'' @ d) = Ok (VerbatimString e d)"
  by (simp add: verbatim_body_def utf8_or_def nth_append)

lemma reads_bulks:
  "fits (length b) \<Longrightarrow> reads (parse C) (BulkString b)"
  "fits (length s) \<Longrightarrow> utf8_valid s \<Longrightarrow> reads (parse C) (BulkError s)"
  "length e = 3 \<Longrightarrow> utf8_valid e \<Longrightarrow> utf8_valid d \<Longrightarrow> fits (length d + 4) \<Longrightarrow>
     reads (parse C) (VerbatimString e d)"
  by (simp_all add: reads_def parse_unfold parse_by_type_def bulk_alts bulk_wire utf8_or_def
      verbatim_body_encoded [simplified] add.commute)

lemma parse_count_Panic:
  "fits n \<Longrightarrow> \<not> vec_alloc C n \<Longrightarrow> parse C (''*'' @ decimal n @ crlf) = Panic"
  using read_line_encoded [of "decimal n" "CHR ''*''" "[]"] parse_int_decimal [of n]
  by (simp add: parse_unfold parse_by_type_def parse_array_def decimal_no_CR fits_def with_capacity_def)

lemma reads_aggregates:
  assumes "\<And>n. vec_alloc C n" and "list_all (reads (parse C)) vs"
  shows "fits (length vs) \<Longrightarrow> reads (parse C) (Array vs)"
    "fits (length vs) \<Longrightarrow> reads (parse C) (Set vs)"
    "fits (length ps) \<Longrightarrow> flatten_pairs ps = vs \<Longrightarrow> reads (parse C) (Map ps)"
  using parse_seq_reads [OF assms(2)] assms(1)
  by (auto simp: reads_def parse_unfold parse_by_type_def counted_wire parse_array_def parse_set_def
      parse_map_def parse_pairs_seq encode_pairs_flat simp flip: flatten_pairs_simps(1))

lemma reads_attribute:
  assumes "\<And>n. vec_alloc C n" and "list_all (reads (parse C)) (flatten_pairs ps)" "reads (parse C) v"
    and "fits (length ps)"
  shows "reads (parse C) (Attribute v ps)"
proof -
  have l: "length (flatten_pairs ps @ [v]) = Suc (2 * length ps)" by simp
  have "list_all (reads (parse C)) (flatten_pairs ps @ [v])" using assms(2,3) by simp
  from parse_seq_reads [OF this, unfolded l] assms(1,4) show ?thesis
    by (simp add: reads_def parse_unfold parse_by_type_def counted_wire parse_attribute_seq
        encode_pairs_flat del: parse_seq.simps)
qed

lemma reads_push:
  assumes "\<And>n. vec_alloc C n" and "list_all (reads (parse C)) vs" "utf8_valid k" "fits (length k)"
    and "fits (Suc (length vs))"
  shows "reads (parse C) (Push k vs)"
  unfolding reads_def
proof
  fix rest
  let ?h = "wire_count CHR ''>'' (Suc (length vs))" and ?b = "wire_bulk CHR ''$'' k"
  have n: "nat (1 + int (length vs)) - Suc 0 = length vs" by simp
  have kind: "parse C (?b @ concat (map resp_encode vs) @ rest) = Ok (BulkString k, length ?b)"
    using reads_bulks(1) [OF assms(4)] by (simp add: reads_def)
  show "parse C (resp_encode (Push k vs) @ rest) = Ok (Push k vs, length (resp_encode (Push k vs)))"
    using kind parse_seq_reads [OF assms(2), of "?h @ ?b" rest "[]"] assms(1,3,5)
    by (simp add: parse_unfold parse_by_type_def counted_wire parse_push_def push_kind_def utf8_or_def n)
qed

lemma parse_resp_encode:
  assumes "\<And>n. vec_alloc C n"
  shows "encodable v \<Longrightarrow> reads (parse C) v"
    and "encodable_pairs ps \<Longrightarrow> list_all (reads (parse C)) (flatten_pairs ps)"
proof (induction v and ps rule: encodable_encodable_pairs.induct)
qed (auto simp: list_all_iff intro!: reads_lines reads_double reads_bulks reads_aggregates [OF assms]
    reads_attribute [OF assms] reads_push [OF assms])

end

section \<open>Properties\<close>

text \<open>
  C6: Round trip with the wire format. Every well-formed value of any of the fifteen RESP
  types, nested to any depth, is read back from its encoding, whatever bytes follow, and
  exactly its encoding is consumed.
\<close>

theorem parse_encode_roundtrip:
  assumes "crate_env C" and "\<And>n. vec_alloc C n" and "encodable v"
  shows "parse C (resp_encode v @ rest) = Ok (v, length (resp_encode v))"
  using crate_env.parse_resp_encode(1) [OF assms] by (simp add: reads_def)

theorem parse_encode_roundtrip_witness:
  "parse (documented_crates (\<lambda>_. True))
     (resp_encode (Push ''message'' [Map [(Integer 1, Set [Null, Double 0x3FF8000000000000])]]) @ ''+OK'') =
   Ok (Push ''message'' [Map [(Integer 1, Set [Null, Double 0x3FF8000000000000])]],
       length (resp_encode (Push ''message'' [Map [(Integer 1, Set [Null, Double 0x3FF8000000000000])]])))"
proof -
  have "encodable (Push ''message'' [Map [(Integer 1, Set [Null, Double 0x3FF8000000000000])]])" by code_simp
  then show ?thesis
    by (intro parse_encode_roundtrip documented.crate_env_axioms) (simp add: documented_crates_def)
qed

text \<open>
  C26: Parsed values are well-formed: integers fit an \<open>i64\<close> and every text is valid UTF-8, in
  every element of a nested value.
\<close>

theorem parse_values_typed:
  assumes "crate_env C" and "parse C buf = Ok (v, n)"
  shows "typed v"
  using crate_env.parse_typed [OF assms(1)] assms(2) by (rule goodD)

theorem parse_values_typed_witness: "typed (Array [Integer (- 7), BulkString ''hi''])"
  using parse_values_typed [OF documented.crate_env_axioms sample_parse] .

text \<open>
  C27: The parser never panics on any input, provided the allocations it asks for succeed.
\<close>

theorem parse_never_panics:
  assumes "crate_env C" and "\<And>n. vec_alloc C n"
  shows "parse C buf \<noteq> Panic"
  using crate_env.parse_not_Panic [OF assms] .

theorem parse_never_panics_witness:
  "parse (documented_crates (\<lambda>_. True)) (''*-'' @ crlf) \<noteq> Panic"
  by (rule parse_never_panics [OF documented.crate_env_axioms]) (simp add: documented_crates_def)

text \<open>
  The hypothesis on allocation is needed: the count of an array header is passed to
  \<open>Vec::with_capacity\<close> before any element is looked at, so a short header from the peer
  aborts the process when that many elements cannot be reserved.
\<close>

lemma parse_huge_count_panics:
  assumes "crate_env C" and "int n \<le> i64_max" and "\<not> vec_alloc C n"
  shows "parse C (''*'' @ decimal n @ crlf) = Panic"
  using crate_env.parse_count_Panic [OF assms(1)] assms(2,3) by (simp add: fits_def)

lemma parse_huge_count_panics_witness:
  "parse (documented_crates (\<lambda>n. n < 10)) (''*'' @ decimal 12 @ crlf) = Panic"
  by (rule parse_huge_count_panics [OF documented.crate_env_axioms])
     (simp_all add: documented_crates_def i64_bounds)

text \<open>
  The decimal reader accepts exactly an optional sign followed by at least one digit
  with a magnitude of at most \<open>2 ^ 63\<close>, and returns the signed value wrapped to 64 bits.
\<close>

lemma parse_int_from_bytes_spec:
  "parse_int_from_bytes bs = Ok i \<longleftrightarrow>
    (\<exists>neg ds. sign_split bs = (neg, ds) \<and> ds \<noteq> [] \<and> list_all ascii_digit ds \<and>
      digits_val 0 ds \<le> 2 ^ 63 \<and>
      i = (if neg then - int (digits_val 0 ds) else wrap_i64 (int (digits_val 0 ds))))"
  by (auto simp: parse_int_from_bytes_Ok Let_def split: prod.splits)

text \<open>
  The one magnitude that does not fit as a positive number is accepted and changes
  sign: the reply \<open>:9223372036854775808\<close> is read as \<open>-9223372036854775808\<close>.
\<close>

lemma parse_integer_min_wraps:
  "parse (documented_crates (\<lambda>_. True)) ('':9223372036854775808'' @ crlf) = Ok (Integer i64_min, 22)"
  by code_simp

end
