(* ===== verification/Resp_Writer.thy ===== *)
theory Resp_Writer
  imports Resp_Values
begin

text \<open>
  \<open>src/src/resp/writer.rs\<close>: the command serializer. The output buffer is threaded through
  the loops as in the source; the capacity estimate of the source only sizes the
  allocation and has no counterpart. The lemmas relate the output to the wire format, and
  show that no argument can change how a server splits a command.
\<close>

section \<open>Operations\<close>

text \<open>The body of the argument loop: \<open>$<len>\r\n<data>\r\n\<close> appended to the buffer.\<close>

definition push_arg :: "crates \<Rightarrow> bytes \<Rightarrow> bytes \<Rightarrow> bytes" where
  "push_arg C buf arg = buf @ ''$'' @ itoa C (length arg) @ crlf @ arg @ crlf"

definition encode_command :: "crates \<Rightarrow> bytes list \<Rightarrow> bytes" where
  "encode_command C args = foldl (push_arg C) (''*'' @ itoa C (length args) @ crlf) args"

text \<open>A Rust \<open>str\<close> is its UTF-8 bytes, so \<open>as_bytes\<close> is the identity here.\<close>

definition encode_command_str :: "crates \<Rightarrow> string list \<Rightarrow> bytes" where
  "encode_command_str C args = encode_command C (map (\<lambda>s. s) args)"

definition push_command :: "crates \<Rightarrow> bytes \<Rightarrow> string list \<Rightarrow> bytes" where
  "push_command C buf cmd_args =
     foldl (push_arg C) (buf @ ''*'' @ itoa C (length cmd_args) @ crlf) cmd_args"

definition encode_pipeline :: "crates \<Rightarrow> string list list \<Rightarrow> bytes" where
  "encode_pipeline C commands = foldl (push_command C) [] commands"

section \<open>Lemmas\<close>

lemma push_args: "foldl (push_arg C) buf args = buf @ foldl (push_arg C) [] args"
proof (induction args arbitrary: buf)
  case (Cons a args)
  have "foldl (push_arg C) buf (a # args) = push_arg C buf a @ foldl (push_arg C) [] args"
    using Cons [of "push_arg C buf a"] by simp
  moreover have "foldl (push_arg C) [] (a # args) = push_arg C [] a @ foldl (push_arg C) [] args"
    using Cons [of "push_arg C [] a"] by simp
  moreover have "push_arg C buf a = buf @ push_arg C [] a" by (simp add: push_arg_def)
  ultimately show ?case by simp
qed simp

lemma push_command_append: "push_command C buf cmd = buf @ encode_command C cmd"
  unfolding push_command_def encode_command_def
  by (subst push_args, subst (2) push_args) simp

lemma foldl_push_command: "foldl (push_command C) buf cmds = buf @ concat (map (encode_command C) cmds)"
  by (induction cmds arbitrary: buf) (simp_all add: push_command_append)

lemma encode_pipeline_concat: "encode_pipeline C cmds = concat (map (encode_command C) cmds)"
  by (simp add: encode_pipeline_def foldl_push_command)

context crate_env
begin

lemma push_args_wire: "foldl (push_arg C) [] args = concat (map (wire_bulk CHR ''$'') args)"
proof (induction args)
  case (Cons a args)
  then show ?case
    by (simp add: push_args [of C "push_arg C [] a" args])
       (simp add: push_arg_def wire_bulk_def itoa_decimal)
qed simp

lemma encode_command_wire: "encode_command C args = resp_encode (Array (map BulkString args))"
  unfolding encode_command_def
  by (subst push_args) (simp add: push_args_wire wire_count_def itoa_decimal comp_def)

end

text \<open>What a command needs to have a wire form: its argument count and lengths fit an \<open>i64\<close>.\<close>

definition command_fits :: "bytes list \<Rightarrow> bool" where
  "command_fits args \<longleftrightarrow> fits (length args) \<and> list_all (\<lambda>a. fits (length a)) args"

lemma encodable_command: "command_fits args \<longleftrightarrow> encodable (Array (map BulkString args))"
  by (simp add: command_fits_def list_all_iff)

lemma map_BulkString_inj: "map BulkString xs = map BulkString ys \<longleftrightarrow> xs = ys"
  by (rule inj_map_eq_map) (simp add: inj_on_def)

text \<open>The first command of a stream of commands is determined by the bytes.\<close>

context crate_env
begin

lemma parse_encode_command:
  assumes "\<And>n. vec_alloc D n" "crate_env D" "command_fits x"
  shows "parse D (encode_command C x @ t) = Ok (Array (map BulkString x), length (encode_command C x))"
  using crate_env.parse_resp_encode(1) [OF assms(2,1)] assms(3)
  unfolding encode_command_wire encodable_command reads_def by blast

lemma encode_command_first:
  assumes "command_fits a" "command_fits b"
    and "encode_command C a @ r = encode_command C b @ s"
  shows "a = b \<and> r = s"
proof -
  note p = parse_encode_command [OF _ documented.crate_env_axioms, of "\<lambda>_. True", unfolded documented_crates_def, simplified]
  from p [OF assms(1), of r] p [OF assms(2), of s] assms(3)
  show ?thesis by (auto simp: map_BulkString_inj)
qed

lemma encode_command_not_Nil: "encode_command C a \<noteq> []"
  by (simp add: encode_command_wire)

lemma encode_pipeline_inj:
  assumes "list_all command_fits xs" "list_all command_fits ys"
    and "encode_pipeline C xs = encode_pipeline C ys"
  shows "xs = ys"
  using assms unfolding encode_pipeline_concat
proof (induction xs arbitrary: ys)
  case Nil
  then show ?case by (cases ys) (simp_all add: encode_command_not_Nil)
next
  case (Cons x xs)
  from Cons.prems(3) obtain y ys' where ys: "ys = y # ys'"
    by (cases ys) (simp_all add: encode_command_not_Nil)
  with Cons.prems encode_command_first [of x y "concat (map (encode_command C) xs)"]
  have "x = y \<and> concat (map (encode_command C) xs) = concat (map (encode_command C) ys')" by simp
  with Cons ys show ?case by simp
qed

end

section \<open>Properties\<close>

text \<open>
  C28: What is written is what is read. A serialized command is one RESP array of bulk
  strings whose elements are the arguments, byte for byte, whatever they contain, and
  nothing of what follows belongs to it.
\<close>

theorem encode_command_parses:
  assumes "crate_env C" and "\<And>n. vec_alloc C n" and "command_fits args"
  shows "parse C (encode_command C args @ rest) =
    Ok (Array (map BulkString args), length (encode_command C args))"
  using crate_env.parse_encode_command [OF assms(1,2,1,3)] .

theorem encode_command_parses_witness:
  "parse (documented_crates (\<lambda>_. True))
     (encode_command (documented_crates (\<lambda>_. True)) [''GET'', ''a'' @ crlf @ ''*1''] @ ''x'') =
   Ok (Array [BulkString ''GET'', BulkString (''a'' @ crlf @ ''*1'')], 24)"
proof -
  have "command_fits [''GET'', ''a'' @ crlf @ ''*1'']" by code_simp
  moreover have "length (encode_command (documented_crates (\<lambda>_. True)) [''GET'', ''a'' @ crlf @ ''*1'']) = 24"
    by code_simp
  ultimately show ?thesis
    using encode_command_parses [OF documented.crate_env_axioms, of "\<lambda>_. True"]
    by (simp add: documented_crates_def)
qed

text \<open>
  C29: A pipeline is the concatenation of its commands, and no two pipelines have the same
  bytes: arguments cannot forge, merge or split commands.
\<close>

theorem encode_pipeline_unambiguous:
  assumes "crate_env C" and "list_all command_fits xs" and "list_all command_fits ys"
  shows "encode_pipeline C xs = concat (map (encode_command_str C) xs) \<and>
    (encode_pipeline C xs = encode_pipeline C ys \<longleftrightarrow> xs = ys)"
  using crate_env.encode_pipeline_inj [OF assms]
  by (auto simp: encode_pipeline_concat encode_command_str_def [abs_def])

theorem encode_pipeline_unambiguous_witness:
  "encode_pipeline (documented_crates (\<lambda>_. True)) [[''PING''], [''GET'', ''k'']] \<noteq>
   encode_pipeline (documented_crates (\<lambda>_. True)) [[''PING'', ''GET'', ''k'']]"
proof -
  have "list_all command_fits [[''PING''], [''GET'', ''k'']]" "list_all command_fits [[''PING'', ''GET'', ''k'']]"
    by code_simp+
  then show ?thesis
    using encode_pipeline_unambiguous [OF documented.crate_env_axioms, of _ _ "\<lambda>_. True"] by blast
qed

end
