(* ===== verification/Tcp.thy ===== *)
theory Tcp
  imports Resp_Writer
begin

text \<open>
  \<open>src/src/connection/tcp.rs\<close>: one connection with its read buffer.

  The socket and the clock are the environment. A \<open>tcp_stream\<close> carries the script of what
  the operating system will report: the outcome of each read and of each write, with the
  time it completes (milliseconds of a monotonic clock). An operation consumes the script
  as the code awaits; \<open>None\<close> means that the script is used up while the code still waits, so
  "the call returns" is a claim about the script. The capacity of the \<open>BytesMut\<close> buffer is
  decided by the \<open>bytes\<close> crate, so each read event also carries the capacity the crate
  reports at that moment. \<open>Instant::now()\<close> is the completion time of the latest event.
  \<open>sent\<close> collects the bytes the peer has been sent, and \<open>peer\<close> is the address the socket was
  dialled to, whatever the script of the dialling says.
\<close>

section \<open>The environment\<close>

datatype read_outcome = Data bytes | ReadError io_error | TimedOut

datatype read_event = ReadEvent (ev_time: nat) (ev_capacity: nat) (ev_outcome: read_outcome)

text \<open>\<open>write_all\<close> writes everything, or fails after some of the bytes.\<close>

datatype write_event = WriteOk nat | WriteFailed nat nat io_error

record tcp_stream =
  clock :: nat
  inbox :: "read_event list"
  writes :: "write_event list"
  sent :: bytes
  peer :: string

datatype dial = Dialed tcp_stream | DialFailed io_error | DialPending

record RedisConnection =
  stream :: tcp_stream
  buf :: bytes
  max_buf_size :: nat
  read_timeout :: "nat option"
  last_used :: nat

text \<open>An \<open>async fn\<close> on a connection: pending, or an outcome and the connection after it.\<close>

type_synonym 'a conn_io = "RedisConnection \<Rightarrow> ('a res \<times> RedisConnection) option"

definition io_return :: "'a res \<Rightarrow> 'a conn_io" where
  "io_return r c = Some (r, c)"

definition io_bind :: "'a conn_io \<Rightarrow> ('a \<Rightarrow> 'b conn_io) \<Rightarrow> 'b conn_io" where
  "io_bind m f c =
     (case m c of
        None \<Rightarrow> None
      | Some (Ok x, c') \<Rightarrow> f x c'
      | Some (Err e, c') \<Rightarrow> Some (Err e, c')
      | Some (Panic, c') \<Rightarrow> Some (Panic, c'))"

section \<open>Connecting\<close>

definition DEFAULT_BUF_CAPACITY :: nat where "DEFAULT_BUF_CAPACITY = 64 * 1024"
definition DEFAULT_MAX_BUF_SIZE :: nat where "DEFAULT_MAX_BUF_SIZE = 64 * 1024 * 1024"

text \<open>The \<open>{:?}\<close> text of a \<open>Duration\<close> of whole milliseconds.\<close>

definition duration_debug :: "nat \<Rightarrow> string" where
  "duration_debug ms =
     (if 1000 \<le> ms then
        decimal (ms div 1000) @
        (let f = ms mod 1000 in
         if f = 0 then []
         else if f mod 100 = 0 then ''.'' @ decimal (f div 100)
         else if f mod 10 = 0 then ''.'' @ [digit_char (f div 100), digit_char (f div 10 mod 10)]
         else ''.'' @ [digit_char (f div 100), digit_char (f div 10 mod 10), digit_char (f mod 10)]) @ ''s''
      else if 0 < ms then decimal ms @ ''ms'' else ''0ns'')"

definition connect_with_max_buf :: "dial \<Rightarrow> string \<Rightarrow> nat \<Rightarrow> RedisConnection res option" where
  "connect_with_max_buf d addr max_size =
     (case d of
        Dialed s \<Rightarrow> Some (Ok \<lparr>stream = s\<lparr>peer := addr\<rparr>, buf = [], max_buf_size = max_size,
                          read_timeout = None, last_used = clock s\<rparr>)
      | DialFailed e \<Rightarrow> Some (Err (Connection e))
      | DialPending \<Rightarrow> None)"

definition connect :: "dial \<Rightarrow> string \<Rightarrow> RedisConnection res option" where
  "connect d addr = connect_with_max_buf d addr DEFAULT_MAX_BUF_SIZE"

definition connect_timeout_with_max_buf :: "dial \<Rightarrow> string \<Rightarrow> nat \<Rightarrow> nat \<Rightarrow> RedisConnection res" where
  "connect_timeout_with_max_buf d addr timeout max_size =
     (case connect_with_max_buf d addr max_size of
        Some result \<Rightarrow> result
      | None \<Rightarrow> Err (Timeout (''connection to '' @ addr @ '' timed out after '' @ duration_debug timeout)))"

definition connect_timeout :: "dial \<Rightarrow> string \<Rightarrow> nat \<Rightarrow> RedisConnection res" where
  "connect_timeout d addr timeout = connect_timeout_with_max_buf d addr timeout DEFAULT_MAX_BUF_SIZE"

definition set_read_timeout :: "nat \<Rightarrow> RedisConnection \<Rightarrow> RedisConnection" where
  "set_read_timeout timeout_ms c =
     c\<lparr>read_timeout := (if 0 < timeout_ms then Some timeout_ms else None)\<rparr>"

section \<open>Reading and writing\<close>

text \<open>
  Consume one read event. Without a configured timeout the expiry of a timer is no event of
  the read, so such an event is passed over.
\<close>

definition consume :: "nat \<Rightarrow> read_event list \<Rightarrow> RedisConnection \<Rightarrow> RedisConnection" where
  "consume t evs c = c\<lparr>stream := (stream c)\<lparr>clock := t, inbox := evs\<rparr>\<rparr>"

fun await_read :: "read_event list \<Rightarrow> nat conn_io" where
  "await_read [] c = None"
| "await_read (ReadEvent t cap out # evs) c =
     (case out of
        Data bs \<Rightarrow>
          (let c' = (consume t evs c)\<lparr>buf := buf c @ bs\<rparr> in
           if length bs = 0 then Some (Err (Connection (IoError UnexpectedEof ''connection closed by server'')), c')
           else Some (Ok (length bs), c'))
      | ReadError e \<Rightarrow> Some (Err (Connection e), consume t evs c)
      | TimedOut \<Rightarrow>
          (case read_timeout c of
             Some timeout \<Rightarrow>
               Some (Err (Timeout (''read timed out after '' @ duration_debug timeout)), consume t evs c)
           | None \<Rightarrow> await_read evs c))"

definition read_with_timeout :: "nat conn_io" where
  "read_with_timeout c = await_read (inbox (stream c)) c"

definition send_raw :: "bytes \<Rightarrow> unit conn_io" where
  "send_raw data c =
     (case writes (stream c) of
        [] \<Rightarrow> None
      | WriteOk t # ws \<Rightarrow>
          Some (Ok (), c\<lparr>stream := (stream c)\<lparr>clock := t, writes := ws, sent := sent (stream c) @ data\<rparr>,
                         last_used := t\<rparr>)
      | WriteFailed t n e # ws \<Rightarrow>
          Some (Err (Connection e),
                c\<lparr>stream := (stream c)\<lparr>clock := t, writes := ws, sent := sent (stream c) @ take n data\<rparr>\<rparr>))"

text \<open>
  The capacity check before a read. Growing the buffer (\<open>reserve\<close>) has no other effect on
  the model: the next capacity is part of the next event.
\<close>

definition ensure_capacity :: "nat \<Rightarrow> nat \<Rightarrow> nat \<Rightarrow> unit res" where
  "ensure_capacity cap len max_size =
     (if cap - len < 4096 then
        let new_cap = max (cap * 2) DEFAULT_BUF_CAPACITY in
        if max_size < new_cap then
          if max_size \<le> cap then
            Err (Protocol (''RESP message too large: buffer would exceed '' @ decimal max_size @ '' bytes''))
          else Ok ()
        else Ok ()
      else Ok ())"

text \<open>The capacity reported at the next read.\<close>

definition next_capacity :: "RedisConnection \<Rightarrow> nat option" where
  "next_capacity c = (case inbox (stream c) of [] \<Rightarrow> None | ev # _ \<Rightarrow> Some (ev_capacity ev))"

text \<open>
  The loop of \<open>read_response\<close> and \<open>read_raw_response\<close>: try the buffer unless it is empty,
  then make room and read. \<open>p\<close> is \<open>parse\<close> or the frame scanner; what it does not consume
  stays in the buffer.
\<close>

lemma await_read_inbox:
  "await_read evs c = Some (Ok n, c') \<Longrightarrow> length (inbox (stream c')) < length evs"
  by (induction evs c rule: await_read.induct)
     (auto simp: consume_def Let_def split: read_outcome.splits option.splits if_splits)

function read_loop :: "(bytes \<Rightarrow> ('a \<times> nat) res) \<Rightarrow> 'a conn_io" where
  "read_loop p c =
     (case (if buf c \<noteq> [] then p (buf c) else Err Incomplete) of
        Ok (value, consumed) \<Rightarrow>
          Some (Ok value, c\<lparr>buf := drop consumed (buf c), last_used := clock (stream c)\<rparr>)
      | Panic \<Rightarrow> Some (Panic, c)
      | Err e \<Rightarrow>
          if e \<noteq> Incomplete then Some (Err e, c)
          else case next_capacity c of
            None \<Rightarrow> None
          | Some cap \<Rightarrow>
              (case ensure_capacity cap (length (buf c)) (max_buf_size c) of
                 Err e \<Rightarrow> Some (Err e, c)
               | Panic \<Rightarrow> Some (Panic, c)
               | Ok _ \<Rightarrow>
                   (case read_with_timeout c of
                      None \<Rightarrow> None
                    | Some (Ok n, c') \<Rightarrow> read_loop p c'
                    | Some (Err e, c') \<Rightarrow> Some (Err e, c')
                    | Some (Panic, c') \<Rightarrow> Some (Panic, c'))))"
  by pat_completeness auto
termination
  by (relation "measure (\<lambda>(p, c). length (inbox (stream c)))")
     (auto simp: read_with_timeout_def dest: await_read_inbox)

declare read_loop.simps [simp del]

definition read_response :: "crates \<Rightarrow> RespValue conn_io" where
  "read_response C = read_loop (parse C)"

definition read_raw_response :: "crates \<Rightarrow> bytes conn_io" where
  "read_raw_response C = read_loop (raw_frame C)"

section \<open>Commands and the handshake\<close>

definition execute :: "crates \<Rightarrow> bytes list \<Rightarrow> RespValue conn_io" where
  "execute C args = io_bind (send_raw (encode_command C args)) (\<lambda>_. read_response C)"

definition execute_str :: "crates \<Rightarrow> string list \<Rightarrow> RespValue conn_io" where
  "execute_str C args = io_bind (send_raw (encode_command_str C args)) (\<lambda>_. read_response C)"

text \<open>The common tail of \<open>auth\<close> and \<open>select_db\<close>: \<open>+OK\<close>, an error reply, or anything else.\<close>

definition expect_ok :: "string \<Rightarrow> RespValue \<Rightarrow> unit res" where
  "expect_ok what response =
     (case response of
        SimpleString s \<Rightarrow>
          if s = ''OK'' then Ok ()
          else Err (Protocol (''unexpected '' @ what @ '' response: '' @ quoted (type_name response)))
      | Error msg \<Rightarrow> Err (redis_error msg)
      | other \<Rightarrow> Err (Protocol (''unexpected '' @ what @ '' response: '' @ quoted (type_name other))))"

definition auth :: "crates \<Rightarrow> string option \<Rightarrow> string \<Rightarrow> unit conn_io" where
  "auth C username password =
     io_bind (case username of
                Some user \<Rightarrow> execute_str C [''AUTH'', user, password]
              | None \<Rightarrow> execute_str C [''AUTH'', password])
       (\<lambda>response. io_return (expect_ok ''AUTH'' response))"

definition select_db :: "crates \<Rightarrow> nat \<Rightarrow> unit conn_io" where
  "select_db C db =
     (if db = 0 then io_return (Ok ())
      else io_bind (execute_str C [''SELECT'', decimal db])
             (\<lambda>response. io_return (expect_ok ''SELECT'' response)))"

definition ping :: "crates \<Rightarrow> bool conn_io" where
  "ping C = io_bind (execute_str C [''PING'']) (\<lambda>response.
     io_return (Ok (case response of SimpleString s \<Rightarrow> s = ''PONG'' | _ \<Rightarrow> False)))"

definition hello3 :: "crates \<Rightarrow> string option \<Rightarrow> string option \<Rightarrow> RespValue conn_io" where
  "hello3 C username password =
     (let args = [''HELLO'', ''3''] @
        (case password of
           Some pass \<Rightarrow> [''AUTH'', (case username of Some user \<Rightarrow> user | None \<Rightarrow> ''default''), pass]
         | None \<Rightarrow> [])
      in io_bind (execute_str C args) (\<lambda>response.
           if is_error response then
             io_return (Err (redis_error (unwrap_or ''HELLO failed'' (as_error_msg response))))
           else io_return (Ok response)))"

definition init :: "crates \<Rightarrow> string option \<Rightarrow> string option \<Rightarrow> nat \<Rightarrow> unit conn_io" where
  "init C username password db =
     io_bind (case password of Some pass \<Rightarrow> auth C username pass | None \<Rightarrow> io_return (Ok ()))
       (\<lambda>_. io_bind (select_db C db) (\<lambda>_. io_return (Ok ())))"

section \<open>The connection as a byte stream\<close>

text \<open>
  Abstraction: a connection whose reads all deliver data (and whose buffer never reaches
  the configured limit) stands for the bytes that are still to be interpreted.
\<close>

definition event_data :: "read_event \<Rightarrow> bytes" where
  "event_data ev = (case ev_outcome ev of Data bs \<Rightarrow> bs | _ \<Rightarrow> [])"

definition delivers :: "nat \<Rightarrow> read_event \<Rightarrow> bool" where
  "delivers max_size ev \<longleftrightarrow> ev_capacity ev < max_size \<and> (case ev_outcome ev of Data bs \<Rightarrow> bs \<noteq> [] | _ \<Rightarrow> False)"

definition healthy :: "RedisConnection \<Rightarrow> bool" where
  "healthy c \<longleftrightarrow> list_all (delivers (max_buf_size c)) (inbox (stream c))"

definition pending_input :: "RedisConnection \<Rightarrow> bytes" where
  "pending_input c = buf c @ concat (map event_data (inbox (stream c)))"

text \<open>What reading does not touch.\<close>

definition same_peer :: "RedisConnection \<Rightarrow> RedisConnection \<Rightarrow> bool" where
  "same_peer c c' \<longleftrightarrow> max_buf_size c' = max_buf_size c \<and> read_timeout c' = read_timeout c \<and>
     sent (stream c') = sent (stream c) \<and> writes (stream c') = writes (stream c) \<and> peer (stream c') = peer (stream c)"

lemma same_peer_refl [simp]: "same_peer c c"
  by (simp add: same_peer_def)

lemma same_peer_trans: "same_peer a b \<Longrightarrow> same_peer b c \<Longrightarrow> same_peer a c"
  by (simp add: same_peer_def)

lemma ensure_capacity_below: "cap < max_size \<Longrightarrow> ensure_capacity cap len max_size = Ok ()"
  by (simp add: ensure_capacity_def Let_def)

lemma healthy_read:
  assumes "healthy c" and "inbox (stream c) = ev # evs"
  obtains c' where "read_with_timeout c = Some (Ok (length (event_data ev)), c')" "healthy c'"
    "inbox (stream c') = evs" "buf c' = buf c @ event_data ev" "same_peer c c'"
    "next_capacity c = Some (ev_capacity ev)" "ev_capacity ev < max_buf_size c"
proof -
  obtain t cap out where ev: "ev = ReadEvent t cap out" by (cases ev)
  with assms obtain bs where out: "out = Data bs" "bs \<noteq> []" "cap < max_buf_size c"
    by (auto simp: healthy_def delivers_def split: read_outcome.splits)
  let ?c' = "(consume t evs c)\<lparr>buf := buf c @ bs\<rparr>"
  show ?thesis
    by (rule that [of ?c'])
       (use assms ev out in \<open>auto simp: read_with_timeout_def event_data_def consume_def healthy_def
          same_peer_def next_capacity_def Let_def\<close>)
qed

context stream_parser
begin

lemma read_loop_now:
  "p (buf c) = Ok (v, n) \<Longrightarrow>
     read_loop p c = Some (Ok v, c\<lparr>buf := drop n (buf c), last_used := clock (stream c)\<rparr>)"
  using empty_incomplete by (subst read_loop.simps) auto

lemma read_loop_more:
  assumes "p (buf c) = Err Incomplete" "healthy c" "inbox (stream c) = ev # evs"
    and "read_with_timeout c = Some (Ok m, c')"
  shows "read_loop p c = read_loop p c'"
proof -
  have "(if buf c \<noteq> [] then p (buf c) else Err Incomplete) = Err Incomplete" using assms(1) by simp
  moreover from assms(2,3) have "next_capacity c = Some (ev_capacity ev)" "ev_capacity ev < max_buf_size c"
    by (auto elim: healthy_read)
  ultimately show ?thesis using assms(4)
    by (subst read_loop.simps) (simp add: ensure_capacity_below)
qed

text \<open>One call returns the first value of the stream and leaves the rest of the stream.\<close>

lemma read_loop_stream:
  assumes "healthy c" and "p (pending_input c) = Ok (v, n)"
  shows "\<exists>c'. read_loop p c = Some (Ok v, c') \<and> pending_input c' = drop n (pending_input c) \<and>
    healthy c' \<and> same_peer c c' \<and> n \<le> length (pending_input c)"
  using assms
proof (induction "inbox (stream c)" arbitrary: c)
  case Nil
  then have "p (buf c) = Ok (v, n)" by (simp add: pending_input_def)
  from read_loop_now [OF this] bounds [OF this] Nil show ?case
    by (auto simp: pending_input_def healthy_def same_peer_def)
next
  case (Cons ev evs)
  note inbox = Cons.hyps(2) [symmetric]
  show ?case
  proof (cases "n \<le> length (buf c)")
    case True
    with cut_after [OF Cons.prems(2), of "length (buf c)"] have "p (buf c) = Ok (v, n)"
      by (simp add: pending_input_def)
    from read_loop_now [OF this] True Cons.prems(1) show ?thesis
      by (auto simp: pending_input_def healthy_def same_peer_def)
  next
    case False
    with cut_before [OF Cons.prems(2), of "length (buf c)"] have inc: "p (buf c) = Err Incomplete"
      by (simp add: pending_input_def)
    obtain c' where c': "read_with_timeout c = Some (Ok (length (event_data ev)), c')" "healthy c'"
      "inbox (stream c') = evs" "buf c' = buf c @ event_data ev" "same_peer c c'"
      using healthy_read [OF Cons.prems(1) inbox] .
    then have pend: "pending_input c' = pending_input c" by (simp add: pending_input_def inbox)
    from Cons.hyps(1) [OF c'(3) [symmetric] c'(2)] Cons.prems(2)
    obtain c'' where "read_loop p c' = Some (Ok v, c'')" "pending_input c'' = drop n (pending_input c)"
      "healthy c''" "same_peer c' c''" "n \<le> length (pending_input c)"
      unfolding pend by blast
    moreover have "read_loop p c = read_loop p c'" by (rule read_loop_more [OF inc Cons.prems(1) inbox c'(1)])
    ultimately show ?thesis using same_peer_trans [OF c'(5)] by auto
  qed
qed

end

text \<open>A read that times out leaves the buffer as it was: the reply may still arrive.\<close>

lemma read_loop_timeout:
  assumes "buf c = [] \<or> p (buf c) = Err Incomplete" and "read_timeout c = Some t"
    and "inbox (stream c) = ReadEvent t' cap TimedOut # evs" and "cap < max_buf_size c"
  shows "read_loop p c = Some (Err (Timeout (''read timed out after '' @ duration_debug t)), consume t' evs c)"
proof -
  have "(if buf c \<noteq> [] then p (buf c) else Err Incomplete) = Err Incomplete" using assms(1) by auto
  then show ?thesis using assms(2-4)
    by (subst read_loop.simps)
       (simp add: next_capacity_def ensure_capacity_below read_with_timeout_def)
qed

text \<open>
  A peer that accepts the connection and never says anything. Timers may expire meanwhile, but
  without a configured timeout nobody waits for them, and the read does not return.
\<close>

definition silent :: "nat \<Rightarrow> read_event \<Rightarrow> bool" where
  "silent max_size ev \<longleftrightarrow> ev_outcome ev = TimedOut \<and> ev_capacity ev < max_size"

lemma await_read_silent: "list_all (silent m) evs \<Longrightarrow> read_timeout c = None \<Longrightarrow> await_read evs c = None"
  by (induction evs c rule: await_read.induct) (simp_all add: silent_def)

lemma read_loop_silent:
  assumes "buf c = []" and "read_timeout c = None" and "list_all (silent (max_buf_size c)) (inbox (stream c))"
  shows "read_loop p c = None"
proof (cases "inbox (stream c)")
  case Nil
  then show ?thesis using assms(1) by (subst read_loop.simps) (simp add: next_capacity_def)
next
  case (Cons ev evs)
  have "read_with_timeout c = None" using await_read_silent [OF assms(3,2)] by (simp add: read_with_timeout_def)
  then show ?thesis
    using Cons assms(1,3) by (subst read_loop.simps) (simp add: next_capacity_def silent_def ensure_capacity_below)
qed

lemma execute_str_silent:
  assumes "buf c = []" and "read_timeout c = None" and "list_all (silent (max_buf_size c)) (inbox (stream c))"
    and "writes (stream c) = WriteOk t # ws"
  shows "execute_str C args c = None"
  using assms by (simp add: execute_str_def io_bind_def send_raw_def read_response_def read_loop_silent)

lemma send_raw_ok:
  assumes "writes (stream c) = WriteOk t # ws"
  obtains c' where "send_raw data c = Some (Ok (), c')" "sent (stream c') = sent (stream c) @ data"
    "writes (stream c') = ws" "pending_input c' = pending_input c" "healthy c' = healthy c" "peer (stream c') = peer (stream c)"
  using assms by (auto simp: send_raw_def pending_input_def healthy_def)

context crate_env
begin

lemma execute_str_stream:
  assumes "writes (stream c) = WriteOk t # ws" and "healthy c" and "parse C (pending_input c) = Ok (v, n)"
  obtains c' where "execute_str C args c = Some (Ok v, c')"
    "sent (stream c') = sent (stream c) @ encode_command C args" "writes (stream c') = ws"
    "pending_input c' = drop n (pending_input c)" "healthy c'" "peer (stream c') = peer (stream c)"
proof -
  obtain c1 where c1: "send_raw (encode_command_str C args) c = Some (Ok (), c1)"
    "sent (stream c1) = sent (stream c) @ encode_command_str C args" "writes (stream c1) = ws"
    "pending_input c1 = pending_input c" "healthy c1 = healthy c" "peer (stream c1) = peer (stream c)"
    using send_raw_ok [OF assms(1)] .
  with assms(2,3) parser.read_loop_stream [of c1 v n]
  obtain c2 where "read_loop (parse C) c1 = Some (Ok v, c2)" "pending_input c2 = drop n (pending_input c)"
    "healthy c2" "same_peer c1 c2" by auto
  with c1 that [of c2] show ?thesis
    by (simp add: execute_str_def io_bind_def read_response_def same_peer_def encode_command_str_def)
qed

end

lemma expect_ok_not_Panic [simp]: "expect_ok what v \<noteq> Panic"
  by (simp add: expect_ok_def split: RespValue.splits)

section \<open>Properties\<close>

text \<open>
  C8: Reading refines a byte stream. On a connection whose reads deliver data, one call of
  \<open>read_response\<close> returns, and returns the first value of the stream formed by the buffer
  and everything still to come, whatever the sizes of the reads; the stream that is left is
  exactly what follows that value.
\<close>

theorem read_response_refines_stream:
  assumes "crate_env C" and "healthy c" and "parse C (pending_input c) = Ok (v, n)"
  shows "\<exists>c'. read_response C c = Some (Ok v, c') \<and> pending_input c' = drop n (pending_input c) \<and>
    healthy c' \<and> same_peer c c'"
  using stream_parser.read_loop_stream [OF crate_env.parse_stream [OF assms(1)] assms(2,3)]
  unfolding read_response_def by blast

definition sample_conn :: "read_event list \<Rightarrow> RedisConnection" where
  "sample_conn evs = \<lparr>stream = \<lparr>clock = 0, inbox = evs, writes = [WriteOk 1, WriteOk 2], sent = [],
       peer = ''127.0.0.1:6379''\<rparr>,
     buf = [], max_buf_size = DEFAULT_MAX_BUF_SIZE, read_timeout = Some 30000, last_used = 0\<rparr>"

definition split_reply :: "read_event list" where
  "split_reply = [ReadEvent 1 65536 (Data (''*2'' @ [CR])), ReadEvent 2 65536 (Data ([LF] @ '':-7'' @ crlf @ ''$2'')),
     ReadEvent 3 65536 (Data (crlf @ ''hi'' @ crlf @ ''+OK''))]"

lemma split_reply_healthy: "healthy (sample_conn split_reply)"
  by (simp add: healthy_def sample_conn_def split_reply_def delivers_def DEFAULT_MAX_BUF_SIZE_def)

lemma split_reply_pending: "pending_input (sample_conn split_reply) = sample_reply @ ''+OK''"
  by (simp add: pending_input_def sample_conn_def split_reply_def event_data_def sample_reply_def)

lemma split_reply_parse:
  "parse (documented_crates (\<lambda>_. True)) (pending_input (sample_conn split_reply)) =
     Ok (Array [Integer (- 7), BulkString ''hi''], 17)"
  unfolding split_reply_pending by code_simp

theorem read_response_refines_stream_witness:
  "\<exists>c'. read_response (documented_crates (\<lambda>_. True)) (sample_conn split_reply) =
      Some (Ok (Array [Integer (- 7), BulkString ''hi'']), c') \<and>
    pending_input c' = ''+OK''"
  using read_response_refines_stream [OF documented.crate_env_axioms split_reply_healthy split_reply_parse]
  by (auto simp: split_reply_pending sample_reply_def)

text \<open>
  The raw path reads the same reply. \<open>read_raw_response\<close> returns the bytes of exactly
  one frame, parsing those bytes gives the value \<open>read_response\<close> would have returned, and the
  stream is left in the same place.
\<close>

lemma read_raw_response_same_reply:
  assumes "crate_env C" and "healthy c" and "parse C (pending_input c) = Ok (v, n)"
  shows "\<exists>raw c'. read_raw_response C c = Some (Ok raw, c') \<and> raw = take n (pending_input c) \<and>
    parse C raw = Ok (v, n) \<and> pending_input c' = drop n (pending_input c) \<and> healthy c'"
proof -
  note s = crate_env.parse_stream [OF assms(1)] and f = crate_env.frame_stream [OF assms(1)]
  from stream_parser.bounds [OF s assms(3)] crate_env.parse_frame_len(1) [OF assms(1,3)]
  have "raw_frame C (pending_input c) = Ok (take n (pending_input c), n)"
    by (simp add: raw_frame_eq_Ok)
  from stream_parser.read_loop_stream [OF f assms(2) this] stream_parser.cut_after [OF s assms(3) order_refl]
  show ?thesis unfolding read_raw_response_def by blast
qed

lemma read_raw_response_same_reply_witness:
  "\<exists>raw c'. read_raw_response (documented_crates (\<lambda>_. True)) (sample_conn split_reply) = Some (Ok raw, c') \<and>
    raw = sample_reply"
  using read_raw_response_same_reply [OF documented.crate_env_axioms split_reply_healthy split_reply_parse]
  by (auto simp: split_reply_pending sample_reply_def)

text \<open>
  The handshake. With a password and a database, \<open>init\<close> sends AUTH and looks at its reply
  first; only when that reply is OK does it send SELECT, and its result is then decided by
  the reply to SELECT. A rejected password is reported and nothing more is sent.
\<close>

lemma init_handshake:
  assumes "crate_env C" and "healthy c" and "writes (stream c) = [WriteOk t1, WriteOk t2]" and "0 < db"
    and "parse C (pending_input c) = Ok (v1, n1)" and "parse C (drop n1 (pending_input c)) = Ok (v2, n2)"
  shows "\<exists>c'. init C (Some user) (Some pass) db c =
      Some (and_then (expect_ok ''AUTH'' v1) (\<lambda>_. expect_ok ''SELECT'' v2), c') \<and>
    sent (stream c') = sent (stream c) @ encode_command C [''AUTH'', user, pass] @
      (if expect_ok ''AUTH'' v1 = Ok () then encode_command C [''SELECT'', decimal db] else [])"
proof -
  obtain c1 where c1: "execute_str C [''AUTH'', user, pass] c = Some (Ok v1, c1)"
    "sent (stream c1) = sent (stream c) @ encode_command C [''AUTH'', user, pass]"
    "writes (stream c1) = [WriteOk t2]" "pending_input c1 = drop n1 (pending_input c)" "healthy c1"
    using crate_env.execute_str_stream [OF assms(1,3,2,5)] .
  obtain c2 where c2: "execute_str C [''SELECT'', decimal db] c1 = Some (Ok v2, c2)"
    "sent (stream c2) = sent (stream c1) @ encode_command C [''SELECT'', decimal db]"
    using crate_env.execute_str_stream [OF assms(1) c1(3,5)] assms(6) c1(4) by metis
  show ?thesis
    using c1 c2 assms(4)
    by (cases "expect_ok ''AUTH'' v1"; cases "expect_ok ''SELECT'' v2")
       (auto simp: init_def auth_def select_db_def io_bind_def io_return_def)
qed

definition auth_rejected :: "read_event list" where
  "auth_rejected = [ReadEvent 1 65536 (Data (''-WRONGPASS no'' @ crlf)), ReadEvent 2 65536 (Data (''+OK'' @ crlf))]"

lemma init_handshake_witness:
  "\<exists>c'. init (documented_crates (\<lambda>_. True)) (Some ''u'') (Some ''p'') 3 (sample_conn auth_rejected) =
      Some (Err (redis_error ''WRONGPASS no''), c') \<and>
    sent (stream c') = encode_command (documented_crates (\<lambda>_. True)) [''AUTH'', ''u'', ''p'']"
proof -
  let ?C = "documented_crates (\<lambda>_. True)" and ?c = "sample_conn auth_rejected"
  have p: "pending_input ?c = ''-WRONGPASS no'' @ crlf @ ''+OK'' @ crlf"
    by (simp add: pending_input_def sample_conn_def auth_rejected_def event_data_def)
  have h: "healthy ?c"
    by (simp add: healthy_def sample_conn_def auth_rejected_def delivers_def DEFAULT_MAX_BUF_SIZE_def)
  have w: "writes (stream ?c) = [WriteOk 1, WriteOk 2]" by (simp add: sample_conn_def)
  have a: "parse ?C (pending_input ?c) = Ok (Error ''WRONGPASS no'', 15)" unfolding p by code_simp
  have b: "parse ?C (drop 15 (pending_input ?c)) = Ok (SimpleString ''OK'', 5)" unfolding p by code_simp
  have "(0 :: nat) < 3" by simp
  from init_handshake [OF documented.crate_env_axioms h w this a b, of "''u''" "''p''"]
  show ?thesis by (simp add: expect_ok_def sample_conn_def)
qed

end
