(* ===== verification/Config.thy ===== *)
theory Config
  imports Errors
begin

text \<open>
  \<open>src/src/config.rs\<close>: the connection configuration and the URL parser for standalone,
  sentinel and cluster URLs. The functions of the source that fill a \<open>&mut\<close> configuration
  return the new one here; on an error the source drops it as well. The lemmas show what a
  URL made of given parts parses to, and what holds of every accepted URL.
\<close>

section \<open>Data\<close>

definition DEFAULT_PORT :: nat where "DEFAULT_PORT = 6379"
definition DEFAULT_SENTINEL_PORT :: nat where "DEFAULT_SENTINEL_PORT = 26379"

datatype Topology =
    Standalone
  | SentinelTopology string "(string \<times> nat) list"
  | ClusterTopology "(string \<times> nat) list"

record ConnectionConfig =
  cfg_host :: string
  cfg_port :: nat
  cfg_username :: "string option"
  cfg_password :: "string option"
  cfg_db :: nat
  cfg_tls :: bool
  cfg_topology :: Topology
  cfg_pool_size :: nat
  cfg_connect_timeout_ms :: nat
  cfg_read_timeout_ms :: nat
  cfg_idle_timeout_ms :: nat
  cfg_max_buffer_size :: nat

definition default_config :: ConnectionConfig where
  "default_config =
     \<lparr>cfg_host = ''127.0.0.1'', cfg_port = DEFAULT_PORT, cfg_username = None, cfg_password = None,
      cfg_db = 0, cfg_tls = False, cfg_topology = Standalone, cfg_pool_size = 8,
      cfg_connect_timeout_ms = 5000, cfg_read_timeout_ms = 30000, cfg_idle_timeout_ms = 300000,
      cfg_max_buffer_size = 64 * 1024 * 1024\<rparr>"

definition primary_addr :: "ConnectionConfig \<Rightarrow> string" where
  "primary_addr config = cfg_host config @ '':'' @ decimal (cfg_port config)"

section \<open>Helpers\<close>

definition split_path :: "string \<Rightarrow> string \<times> string option" where
  "split_path rest =
     (case split_once CHR ''/'' rest of
        Some (before, after) \<Rightarrow> if after \<noteq> [] then (before, Some after) else (before, None)
      | None \<Rightarrow> (rest, None))"

definition parse_userinfo :: "ConnectionConfig \<Rightarrow> string \<Rightarrow> ConnectionConfig" where
  "parse_userinfo config userinfo =
     (case split_once CHR '':'' userinfo of
        Some (user, pass) \<Rightarrow>
          (let config = (if user \<noteq> [] then config\<lparr>cfg_username := Some user\<rparr> else config)
           in if pass \<noteq> [] then config\<lparr>cfg_password := Some pass\<rparr> else config)
      | None \<Rightarrow> if userinfo \<noteq> [] then config\<lparr>cfg_password := Some userinfo\<rparr> else config)"

definition invalid_port :: "string \<Rightarrow> PyrsedisError" where
  "invalid_port p = Protocol (''invalid port: '' @ p)"

definition parse_host_port :: "string \<Rightarrow> nat \<Rightarrow> (string \<times> nat) res" where
  "parse_host_port s default_port =
     and_then
       (if starts_with ''['' s then
          (case position CHR '']'' s of
             None \<Rightarrow> Err (Protocol (''unclosed IPv6 bracket: '' @ s))
           | Some close \<Rightarrow>
               (let h = take (close - 1) (drop 1 s); after = drop (close + 1) s in
                case strip_prefix '':'' after of
                  Some port_str \<Rightarrow> and_then (ok_or (invalid_port port_str) (parse_u16 port_str)) (\<lambda>p. Ok (h, p))
                | None \<Rightarrow> Ok (h, default_port)))
        else
          (case rsplit_once CHR '':'' s of
             Some (h, p) \<Rightarrow>
               (case parse_u16 p of
                  Some parsed_port \<Rightarrow> Ok (h, parsed_port)
                | None \<Rightarrow> if CHR '':'' \<in> set h then Ok (s, default_port) else Err (invalid_port p))
           | None \<Rightarrow> Ok (s, default_port)))
       (\<lambda>(h, p). Ok (if h = [] then ''127.0.0.1'' else h, p))"

text \<open>The database number, the same lines in the three URL parsers.\<close>

definition parse_db :: "ConnectionConfig \<Rightarrow> string option \<Rightarrow> ConnectionConfig res" where
  "parse_db config db_part =
     (case db_part of
        Some db_str \<Rightarrow>
          and_then (ok_or (Protocol (''invalid db number: '' @ db_str)) (parse_u16 db_str)) (\<lambda>n.
          Ok (config\<lparr>cfg_db := n\<rparr>))
      | None \<Rightarrow> Ok config)"

text \<open>The loop over a comma-separated host list.\<close>

fun parse_hosts :: "nat \<Rightarrow> string list \<Rightarrow> (string \<times> nat) list \<Rightarrow> (string \<times> nat) list res" where
  "parse_hosts default_port [] acc = Ok acc"
| "parse_hosts default_port (addr # addrs) acc =
     (let addr = trim addr in
      if addr = [] then parse_hosts default_port addrs acc
      else and_then (parse_host_port addr default_port) (\<lambda>hp. parse_hosts default_port addrs (acc @ [hp])))"

section \<open>The URL parsers\<close>

definition parse_standalone_url :: "ConnectionConfig \<Rightarrow> string \<Rightarrow> ConnectionConfig res" where
  "parse_standalone_url config rest =
     (let (host_part, db_part) = split_path rest in
      and_then (parse_db config db_part) (\<lambda>config.
      let (config, host_port) =
        (case rsplit_once CHR ''@'' host_part of
           Some (userinfo, hp) \<Rightarrow> (parse_userinfo config userinfo, hp)
         | None \<Rightarrow> (config, host_part)) in
      and_then (parse_host_port host_port DEFAULT_PORT) (\<lambda>(h, p).
      Ok (config\<lparr>cfg_host := h, cfg_port := p\<rparr>))))"

definition parse_sentinel_url :: "ConnectionConfig \<Rightarrow> string \<Rightarrow> ConnectionConfig res" where
  "parse_sentinel_url config rest =
     (let (host_part, db_part) = split_path rest in
      and_then (parse_db config db_part) (\<lambda>config.
      let at_count = count_list host_part CHR ''@'' in
      and_then
        (if at_count = 0 then
           Err (Protocol ''sentinel URL must include master name: redis+sentinel://master@host:port'')
         else case split_once CHR ''@'' host_part of
           None \<Rightarrow> Panic
         | Some (a, b) \<Rightarrow>
             if at_count = 1 then Ok (config, a, b)
             else and_then
               (ok_or (Protocol ''sentinel URL must include master name after credentials'')
                  (split_once CHR ''@'' b)) (\<lambda>(m, hs).
               Ok (parse_userinfo config a, m, hs))) (\<lambda>(config, master_name, sentinel_hosts).
      if master_name = [] then Err (Protocol ''empty sentinel master name'')
      else
        and_then (parse_hosts DEFAULT_SENTINEL_PORT (split_on CHR '','' sentinel_hosts) []) (\<lambda>sentinels.
        case sentinels of
          [] \<Rightarrow> Err (Protocol ''sentinel URL must include at least one sentinel host'')
        | (h, p) # _ \<Rightarrow>
            Ok (config\<lparr>cfg_host := h, cfg_port := p,
                       cfg_topology := SentinelTopology master_name sentinels\<rparr>)))))"

definition parse_cluster_url :: "ConnectionConfig \<Rightarrow> string \<Rightarrow> ConnectionConfig res" where
  "parse_cluster_url config rest =
     (let (host_part, db_part) = split_path rest in
      and_then (parse_db config db_part) (\<lambda>config.
      let (config, hosts_str) =
        (case rsplit_once CHR ''@'' host_part of
           Some (userinfo, hp) \<Rightarrow> (parse_userinfo config userinfo, hp)
         | None \<Rightarrow> (config, host_part)) in
      and_then (parse_hosts DEFAULT_PORT (split_on CHR '','' hosts_str) []) (\<lambda>nodes.
      case nodes of
        [] \<Rightarrow> Err (Protocol ''cluster URL must include at least one node'')
      | (h, p) # _ \<Rightarrow>
          Ok (config\<lparr>cfg_host := h, cfg_port := p, cfg_topology := ClusterTopology nodes\<rparr>))))"

definition from_url :: "string \<Rightarrow> ConnectionConfig res" where
  "from_url url =
     (let config = default_config in
      and_then (ok_or (Protocol (''invalid URL, missing ://: '' @ url)) (split_once_str ''://'' url)) (\<lambda>(scheme, rest).
      if scheme = ''redis'' then parse_standalone_url config rest
      else if scheme = ''rediss'' then parse_standalone_url (config\<lparr>cfg_tls := True\<rparr>) rest
      else if scheme = ''redis+sentinel'' \<or> scheme = ''redis+sentinels'' then
        parse_sentinel_url (config\<lparr>cfg_tls := (scheme = ''redis+sentinels'')\<rparr>) rest
      else if scheme = ''redis+cluster'' \<or> scheme = ''rediss+cluster'' then
        parse_cluster_url (config\<lparr>cfg_tls := (scheme = ''rediss+cluster'')\<rparr>) rest
      else Err (Protocol (''unknown URL scheme: '' @ scheme))))"

section \<open>Accepted URLs\<close>

definition good_addr :: "string \<times> nat \<Rightarrow> bool" where
  "good_addr a \<longleftrightarrow> fst a \<noteq> [] \<and> snd a < 65536"

fun good_topology :: "string \<times> nat \<Rightarrow> Topology \<Rightarrow> bool" where
  "good_topology a Standalone = True"
| "good_topology a (SentinelTopology name hosts) =
     (name \<noteq> [] \<and> hosts \<noteq> [] \<and> hd hosts = a \<and> list_all good_addr hosts)"
| "good_topology a (ClusterTopology nodes) = (nodes \<noteq> [] \<and> hd nodes = a \<and> list_all good_addr nodes)"

definition valid_config :: "ConnectionConfig \<Rightarrow> bool" where
  "valid_config cfg \<longleftrightarrow>
     good_addr (cfg_host cfg, cfg_port cfg) \<and> cfg_db cfg < 65536 \<and>
     good_topology (cfg_host cfg, cfg_port cfg) (cfg_topology cfg)"

text \<open>The fields no URL sets.\<close>

definition default_tuning :: "ConnectionConfig \<Rightarrow> bool" where
  "default_tuning cfg \<longleftrightarrow>
     cfg_pool_size cfg = 8 \<and> cfg_connect_timeout_ms cfg = 5000 \<and> cfg_read_timeout_ms cfg = 30000 \<and>
     cfg_idle_timeout_ms cfg = 300000 \<and> cfg_max_buffer_size cfg = 64 * 1024 * 1024"

lemma parse_host_port_good:
  assumes "d < 65536" and "parse_host_port s d = Ok a"
  shows "good_addr a"
  using assms
  by (auto simp: parse_host_port_def good_addr_def Let_def elim!: and_then_OkE
      split: if_split_asm option.split_asm prod.split_asm dest: parse_u16_bound)

lemma parse_host_port_not_Panic: "parse_host_port s d \<noteq> Panic"
  by (auto simp: parse_host_port_def Let_def and_then_eq_Panic split: option.split_asm if_split_asm)

lemma parse_hosts_good:
  "d < 65536 \<Longrightarrow> list_all good_addr acc \<Longrightarrow> parse_hosts d addrs acc = Ok hosts \<Longrightarrow> list_all good_addr hosts"
  by (induction d addrs acc rule: parse_hosts.induct)
     (auto simp: Let_def elim!: and_then_OkE dest: parse_host_port_good split: if_split_asm)

lemma parse_hosts_not_Panic: "parse_hosts d addrs acc \<noteq> Panic"
  by (induction d addrs acc rule: parse_hosts.induct)
     (auto simp: Let_def and_then_eq_Panic parse_host_port_not_Panic)

lemma parse_db_Ok:
  assumes "parse_db cfg part = Ok cfg'" and "cfg_db cfg < 65536"
  obtains n where "cfg' = cfg\<lparr>cfg_db := n\<rparr>" "n < 65536"
proof (cases part)
  case None
  with assms show ?thesis by (intro that [of "cfg_db cfg"]) (simp_all add: parse_db_def)
next
  case (Some x)
  with assms obtain n where "parse_u16 x = Some n" "cfg' = cfg\<lparr>cfg_db := n\<rparr>"
    by (auto simp: parse_db_def elim!: and_then_OkE)
  with that [of n] parse_u16_bound show ?thesis by simp
qed

lemma default_tuning_updates [simp]:
  "default_tuning (cfg\<lparr>cfg_db := n\<rparr>) = default_tuning cfg"
  "default_tuning (cfg\<lparr>cfg_host := h, cfg_port := p\<rparr>) = default_tuning cfg"
  "default_tuning (cfg\<lparr>cfg_host := h, cfg_port := p, cfg_topology := t\<rparr>) = default_tuning cfg"
  "default_tuning (cfg\<lparr>cfg_tls := b\<rparr>) = default_tuning cfg"
  by (simp_all add: default_tuning_def)

lemma parse_db_not_Panic: "parse_db cfg part \<noteq> Panic"
  by (auto simp: parse_db_def and_then_eq_Panic split: option.splits)

text \<open>Credentials are the only fields \<open>parse_userinfo\<close> writes.\<close>

lemma parse_userinfo_fields [simp]:
  "cfg_host (parse_userinfo cfg u) = cfg_host cfg" "cfg_port (parse_userinfo cfg u) = cfg_port cfg"
  "cfg_db (parse_userinfo cfg u) = cfg_db cfg" "cfg_tls (parse_userinfo cfg u) = cfg_tls cfg"
  "cfg_topology (parse_userinfo cfg u) = cfg_topology cfg"
  "default_tuning (parse_userinfo cfg u) = default_tuning cfg"
  by (auto simp: parse_userinfo_def Let_def default_tuning_def split: option.splits)

lemma standalone_valid:
  assumes "parse_standalone_url cfg rest = Ok cfg'" "cfg_db cfg < 65536" "cfg_topology cfg = Standalone"
    "default_tuning cfg"
  shows "valid_config cfg' \<and> default_tuning cfg' \<and> cfg_tls cfg' = cfg_tls cfg"
  using assms parse_host_port_good [of DEFAULT_PORT]
  by (auto simp: parse_standalone_url_def Let_def valid_config_def DEFAULT_PORT_def
      elim!: and_then_OkE parse_db_Ok split: prod.split_asm option.split_asm)

lemma cluster_valid:
  assumes "parse_cluster_url cfg rest = Ok cfg'" "cfg_db cfg < 65536" "default_tuning cfg"
  shows "valid_config cfg' \<and> default_tuning cfg' \<and> cfg_tls cfg' = cfg_tls cfg"
  using assms parse_hosts_good [of DEFAULT_PORT "[]"]
  by (fastforce simp: parse_cluster_url_def Let_def valid_config_def DEFAULT_PORT_def
      elim!: and_then_OkE parse_db_Ok split: prod.split_asm option.split_asm list.split_asm)

lemma sentinel_valid:
  assumes "parse_sentinel_url cfg rest = Ok cfg'" "cfg_db cfg < 65536" "default_tuning cfg"
  shows "valid_config cfg' \<and> default_tuning cfg' \<and> cfg_tls cfg' = cfg_tls cfg"
  using assms parse_hosts_good [of DEFAULT_SENTINEL_PORT "[]"]
  by (fastforce simp: parse_sentinel_url_def Let_def valid_config_def DEFAULT_SENTINEL_PORT_def
      elim!: and_then_OkE parse_db_Ok
      split: prod.split_asm option.split_asm list.split_asm if_split_asm)

lemma default_config_ok:
  "default_tuning default_config" "cfg_db default_config < 65536" "cfg_topology default_config = Standalone"
  by (simp_all add: default_config_def default_tuning_def)

lemma from_url_cases:
  assumes "from_url url = Ok cfg"
  obtains tls rest where "parse_standalone_url (default_config\<lparr>cfg_tls := tls\<rparr>) rest = Ok cfg"
  | tls rest where "parse_sentinel_url (default_config\<lparr>cfg_tls := tls\<rparr>) rest = Ok cfg"
  | tls rest where "parse_cluster_url (default_config\<lparr>cfg_tls := tls\<rparr>) rest = Ok cfg"
proof -
  have "default_config\<lparr>cfg_tls := False\<rparr> = default_config" by (simp add: default_config_def)
  with assms that(1) [of False] that(1) [of True] that(2,3) show ?thesis
    by (auto simp: from_url_def Let_def elim!: and_then_OkE split: prod.split_asm if_split_asm)
qed

lemma url_parsers_not_Panic:
  "parse_standalone_url cfg rest \<noteq> Panic" "parse_sentinel_url cfg rest \<noteq> Panic"
  "parse_cluster_url cfg rest \<noteq> Panic"
proof -
  show "parse_standalone_url cfg rest \<noteq> Panic" "parse_cluster_url cfg rest \<noteq> Panic"
    by (auto simp: parse_standalone_url_def parse_cluster_url_def Let_def and_then_eq_Panic
        parse_db_not_Panic parse_host_port_not_Panic parse_hosts_not_Panic
        split: prod.split_asm option.split_asm list.split_asm) (metis list.exhaust surj_pair)+
  have "count_list h CHR ''@'' \<noteq> 0 \<Longrightarrow> split_once CHR ''@'' h \<noteq> None" for h
    by (simp add: split_once_None count_list_0_iff)
  then show "parse_sentinel_url cfg rest \<noteq> Panic"
    by (auto simp: parse_sentinel_url_def Let_def and_then_eq_Panic
        parse_db_not_Panic parse_hosts_not_Panic
        split: prod.split_asm option.split_asm list.split_asm if_split_asm) (metis list.exhaust surj_pair)+
qed

section \<open>URLs made of parts\<close>

definition standalone_url :: "bool \<Rightarrow> string \<Rightarrow> string \<Rightarrow> string \<Rightarrow> nat \<Rightarrow> nat \<Rightarrow> string" where
  "standalone_url tls user pass h p n =
     (if tls then ''rediss'' else ''redis'') @ ''://'' @ user @ '':'' @ pass @ ''@'' @ h @ '':'' @ decimal p @ ''/'' @ decimal n"

lemma decimal_set: "c \<in> set (decimal n) \<Longrightarrow> ascii_digit c"
  using decimal_digits [of n] by (auto simp: list_all_iff)

lemma decimal_no_punct: "CHR ''/'' \<notin> set (decimal n)" "CHR '':'' \<notin> set (decimal n)" "CHR ''@'' \<notin> set (decimal n)"
  using decimal_set [of "CHR ''/''" n] decimal_set [of "CHR '':''" n] decimal_set [of "CHR ''@''" n]
  by (auto simp: ascii_digit_def)

lemma parse_host_port_decimal:
  assumes "h \<noteq> []" "\<not> starts_with ''['' h" "p < 65536"
  shows "parse_host_port (h @ '':'' @ decimal p) d = Ok (h, p)"
proof -
  have "\<not> starts_with ''['' (h @ '':'' @ decimal p)" using assms(1,2)
    by (cases h) (auto simp: starts_with_def split: if_splits)
  moreover have "rsplit_once CHR '':'' (h @ '':'' @ decimal p) = Some (h, decimal p)"
    using rsplit_once_append [of "CHR '':''" "decimal p" h] decimal_no_punct(2) by simp
  ultimately show ?thesis using assms by (simp add: parse_host_port_def parse_u16_decimal)
qed

lemma parse_standalone_parts:
  assumes "CHR ''/'' \<notin> set user" "CHR '':'' \<notin> set user" "user \<noteq> []"
    and "CHR ''/'' \<notin> set pass" "pass \<noteq> []"
    and "CHR ''/'' \<notin> set h" "CHR ''@'' \<notin> set h" "h \<noteq> []" "\<not> starts_with ''['' h"
    and "p < 65536" "n < 65536"
  shows "parse_standalone_url cfg (user @ '':'' @ pass @ ''@'' @ h @ '':'' @ decimal p @ ''/'' @ decimal n) =
    Ok (cfg\<lparr>cfg_db := n, cfg_username := Some user, cfg_password := Some pass, cfg_host := h, cfg_port := p\<rparr>)"
proof -
  let ?hp = "h @ '':'' @ decimal p" and ?u = "user @ '':'' @ pass"
  have "split_once CHR ''/'' ((?u @ ''@'' @ ?hp) @ CHR ''/'' # decimal n) = Some (?u @ ''@'' @ ?hp, decimal n)"
    using assms decimal_no_punct by (intro split_once_append) auto
  then have path: "split_path (?u @ ''@'' @ ?hp @ ''/'' @ decimal n) = (?u @ ''@'' @ ?hp, Some (decimal n))"
    by (simp add: split_path_def)
  have at: "rsplit_once CHR ''@'' (?u @ ''@'' @ ?hp) = Some (?u, ?hp)"
    using assms decimal_no_punct rsplit_once_append [of "CHR ''@''" ?hp ?u] by simp
  have "split_once CHR '':'' ?u = Some (user, pass)"
    using assms split_once_append [of "CHR '':''" user pass] by simp
  then have "parse_userinfo cfg' ?u = cfg'\<lparr>cfg_username := Some user, cfg_password := Some pass\<rparr>" for cfg'
    using assms by (simp add: parse_userinfo_def)
  with path at parse_host_port_decimal [OF assms(8,9,10)] show ?thesis
    by (simp add: parse_standalone_url_def parse_db_def parse_u16_decimal [OF assms(11)])
qed

lemma from_url_standalone:
  assumes "CHR ''/'' \<notin> set user" "CHR '':'' \<notin> set user" "user \<noteq> []"
    and "CHR ''/'' \<notin> set pass" "pass \<noteq> []"
    and "CHR ''/'' \<notin> set h" "CHR ''@'' \<notin> set h" "h \<noteq> []" "\<not> starts_with ''['' h"
    and "p < 65536" "n < 65536"
  shows "from_url (standalone_url tls user pass h p n) =
    Ok ((default_config\<lparr>cfg_tls := tls\<rparr>)\<lparr>cfg_db := n, cfg_username := Some user, cfg_password := Some pass,
          cfg_host := h, cfg_port := p\<rparr>)"
  using parse_standalone_parts [OF assms]
  by (simp add: from_url_def standalone_url_def default_config_def)

lemma default_port_text: "decimal DEFAULT_PORT = ''6379''"
  by (simp add: DEFAULT_PORT_def decimal.simps)

section \<open>Properties\<close>

text \<open>
  Parsing a URL never panics, and every accepted URL gives a usable configuration: a
  non-empty host, a 16-bit port and database, a non-empty node list whose first entry is
  the primary address for sentinel and cluster URLs, and the default pool and timeouts.
\<close>

lemma from_url_valid:
  "from_url url \<noteq> Panic \<and> (\<forall>cfg. from_url url = Ok cfg \<longrightarrow> valid_config cfg \<and> default_tuning cfg)"
proof -
  have "from_url url \<noteq> Panic"
    by (auto simp: from_url_def Let_def and_then_eq_Panic url_parsers_not_Panic split: prod.split_asm if_split_asm)
  moreover have "valid_config cfg \<and> default_tuning cfg" if "from_url url = Ok cfg" for cfg
    using that
    by (rule from_url_cases)
       (auto dest: standalone_valid sentinel_valid cluster_valid simp: default_config_ok)
  ultimately show ?thesis by blast
qed

lemma from_url_valid_witness:
  "valid_config (default_config\<lparr>cfg_tls := True, cfg_db := 3, cfg_username := Some ''u'',
     cfg_password := Some ''p@:'', cfg_host := ''h'', cfg_port := 1\<rparr>)"
  using from_url_valid [of "standalone_url True ''u'' ''p@:'' ''h'' 1 3"]
    from_url_standalone [of "''u''" "''p@:''" "''h''" 1 3 True]
  by (simp add: starts_with_def)

text \<open>
  C31: Round trip. The URL made of a user, a password, a host, a port and a database parses
  back to exactly these, with TLS on for \<open>rediss\<close>. The password may contain colons and at
  signs; none of the three texts may contain a slash, since nothing is percent-decoded.
\<close>

theorem from_url_roundtrip:
  assumes "CHR ''/'' \<notin> set user" "CHR '':'' \<notin> set user" "user \<noteq> []"
    and "CHR ''/'' \<notin> set pass" "pass \<noteq> []"
    and "CHR ''/'' \<notin> set h" "CHR ''@'' \<notin> set h" "h \<noteq> []" "\<not> starts_with ''['' h"
    and "p < 65536" and "n < 65536"
  shows "from_url (standalone_url tls user pass h p n) =
    Ok (default_config\<lparr>cfg_tls := tls, cfg_db := n, cfg_username := Some user, cfg_password := Some pass,
          cfg_host := h, cfg_port := p\<rparr>)"
  using from_url_standalone [OF assms] by (simp add: default_config_def)

theorem from_url_roundtrip_witness:
  "from_url (standalone_url False ''u'' ''p@:'' ''h'' 6380 2) =
    Ok (default_config\<lparr>cfg_tls := False, cfg_db := 2, cfg_username := Some ''u'', cfg_password := Some ''p@:'',
          cfg_host := ''h'', cfg_port := 6380\<rparr>)"
  by (rule from_url_roundtrip) (simp_all add: starts_with_def)

text \<open>
  A bare IPv6 address whose last group is a decimal number is not kept whole: its last
  group is taken as the port.
\<close>

lemma bare_ipv6_misread:
  "parse_host_port ''::1'' DEFAULT_PORT = Ok ('':'', 1) \<and>
   parse_host_port ''::ffff'' DEFAULT_PORT = Ok (''::ffff'', DEFAULT_PORT)"
  by (simp add: parse_host_port_def starts_with_def rsplit_once_def parse_u16_def parse_unsigned_def
      ascii_digit_def digit_val_def)

end
