(* ===== verification/Steps.thy ===== *)
theory Steps
  imports Main
begin

text \<open>
  What the components share about changing state. First, operations that keep a predicate of
  their state whenever they return, with the rules collected in \<open>keeps_rules\<close>. Then reachability,
  once for all step relations of the library: a step system is a start state, a step relation
  and its reachable states; a refinement is a view of one system as another.
\<close>

section \<open>Operations that keep an invariant\<close>

named_theorems keeps_rules

definition keeps :: "('s \<Rightarrow> bool) \<Rightarrow> ('s \<Rightarrow> ('a \<times> 's) option) \<Rightarrow> bool" where
  "keeps P m \<longleftrightarrow> (\<forall>s r s'. P s \<longrightarrow> m s = Some (r, s') \<longrightarrow> P s')"

lemma keepsI: "(\<And>s r s'. P s \<Longrightarrow> m s = Some (r, s') \<Longrightarrow> P s') \<Longrightarrow> keeps P m"
  by (auto simp: keeps_def)

lemma keepsD: "keeps P m \<Longrightarrow> P s \<Longrightarrow> m s = Some (r, s') \<Longrightarrow> P s'"
  by (auto simp: keeps_def)

lemma keeps_after: "m s = Some (r, s') \<Longrightarrow> keeps P m \<Longrightarrow> P s \<Longrightarrow> P s'"
  by (auto simp: keeps_def)

lemma keeps_if [keeps_rules]: "keeps P m \<Longrightarrow> keeps P m' \<Longrightarrow> keeps P (if b then m else m')"
  by simp

lemma keeps_map_result:
  assumes "keeps P m" and "\<And>s r s'. m' s = Some (r, s') \<Longrightarrow> \<exists>r'. m s = Some (r', s')"
  shows "keeps P m'"
  using assms by (fastforce simp: keeps_def)

section \<open>Reachable states\<close>

locale step_system =
  fixes start :: 's and step :: "'s \<Rightarrow> 's \<Rightarrow> bool" and reachable :: "'s \<Rightarrow> bool"
  assumes reachable_start: "reachable start"
    and reachable_step: "reachable s \<Longrightarrow> step s t \<Longrightarrow> reachable t"
    and reachable_induct: "reachable s \<Longrightarrow> P start \<Longrightarrow> (\<And>s t. reachable s \<Longrightarrow> P s \<Longrightarrow> step s t \<Longrightarrow> P t) \<Longrightarrow> P s"
begin

lemma invariant:
  assumes "I start" and "\<And>s t. I s \<Longrightarrow> step s t \<Longrightarrow> I t" and "reachable s"
  shows "I s"
  using assms(3,1) by (rule reachable_induct) (rule assms(2))

lemma reachable_run: "step\<^sup>*\<^sup>* s t \<Longrightarrow> reachable s \<Longrightarrow> reachable t"
  by (induction rule: rtranclp_induct) (auto intro: reachable_step)

lemma reachable_iff_run: "reachable s \<longleftrightarrow> step\<^sup>*\<^sup>* start s"
proof
  show "step\<^sup>*\<^sup>* start s" if "reachable s"
    using that by (rule reachable_induct) (auto intro: rtranclp.rtrancl_into_rtrancl)
qed (rule reachable_run [OF _ reachable_start])

end

locale step_refinement =
  abs: step_system start_a step_a reachable_a + conc: step_system start_c step_c reachable_c
  for start_a :: 'a and step_a reachable_a and start_c :: 'c and step_c reachable_c +
  fixes view :: "'c \<Rightarrow> 'a"
  assumes view_start: "view start_c = start_a"
    and view_step: "step_c s t \<Longrightarrow> reachable_a (view s) \<Longrightarrow> reachable_a (view t)"
begin

lemma refines:
  assumes "reachable_c s"
  shows "reachable_a (view s)"
proof (rule conc.invariant [OF _ _ assms])
  show "reachable_a (view start_c)" by (simp add: view_start abs.reachable_start)
qed (rule view_step)

text \<open>What holds of every reachable abstract state holds of the view of every reachable state.\<close>

lemma inherits: "(\<And>a. reachable_a a \<Longrightarrow> I a) \<Longrightarrow> reachable_c s \<Longrightarrow> I (view s)"
  using refines by blast

end

end
