(* ===== verification/Pool.thy ===== *)
theory Pool
  imports Tcp Config Steps
begin

text \<open>
  \<open>src/src/connection/pool.rs\<close>: the connection pool. The mutex-protected deque is a list
  (front to back), the semaphore its number of available permits. The sequential operations
  come first; the step relation \<open>pool_step\<close> then interleaves the calls of any number of
  tasks at the points where the source awaits, and its invariant bounds the connections.
  Times are milliseconds of the monotonic clock; \<open>elapsed\<close> is a saturating difference.
\<close>

section \<open>Operations\<close>

record ConnectionPool =
  idle :: "RedisConnection list"
  permits :: nat
  pool_config :: ConnectionConfig
  pool_max_size :: nat
  pool_idle_timeout :: nat

definition pool_new :: "ConnectionConfig \<Rightarrow> ConnectionPool" where
  "pool_new config =
     (let max_size = cfg_pool_size config in
      \<lparr>idle = [], permits = max_size, pool_config = config, pool_max_size = max_size,
       pool_idle_timeout = cfg_idle_timeout_ms config\<rparr>)"

definition stale :: "nat \<Rightarrow> nat \<Rightarrow> RedisConnection \<Rightarrow> bool" where
  "stale now idle_timeout conn \<longleftrightarrow> idle_timeout < now - last_used conn"

text \<open>\<open>take_healthy_connection\<close> pops from the back; the list is walked in reverse.\<close>

fun pop_healthy :: "nat \<Rightarrow> nat \<Rightarrow> RedisConnection list \<Rightarrow> RedisConnection option \<times> RedisConnection list" where
  "pop_healthy now idle_timeout [] = (None, [])"
| "pop_healthy now idle_timeout (conn # conns) =
     (if stale now idle_timeout conn then pop_healthy now idle_timeout conns
      else (Some conn, conns))"

definition take_healthy_connection :: "nat \<Rightarrow> ConnectionPool \<Rightarrow> RedisConnection option \<times> ConnectionPool" where
  "take_healthy_connection now pool =
     (let (conn, rest) = pop_healthy now (pool_idle_timeout pool) (rev (idle pool))
      in (conn, pool\<lparr>idle := rev rest\<rparr>))"

definition return_connection :: "nat \<Rightarrow> RedisConnection \<Rightarrow> ConnectionPool \<Rightarrow> ConnectionPool" where
  "return_connection now conn pool =
     (if stale now (pool_idle_timeout pool) conn then pool
      else if length (idle pool) < pool_max_size pool then pool\<lparr>idle := idle pool @ [conn]\<rparr>
      else pool)"

definition create_connection :: "crates \<Rightarrow> dial \<Rightarrow> ConnectionConfig \<Rightarrow> RedisConnection res option" where
  "create_connection C d config =
     (if cfg_tls config then
        Some (Err (Protocol
          ''TLS connections (rediss://) are not yet supported. Use redis:// or set tls=false.''))
      else
        (let addr = primary_addr config; timeout = cfg_connect_timeout_ms config in
         case connect_timeout_with_max_buf d addr timeout (cfg_max_buffer_size config) of
           Err e \<Rightarrow> Some (Err e)
         | Panic \<Rightarrow> Some Panic
         | Ok conn \<Rightarrow>
             (case init C (cfg_username config) (cfg_password config) (cfg_db config)
                     (set_read_timeout (cfg_read_timeout_ms config) conn) of
                None \<Rightarrow> None
              | Some (Ok _, conn) \<Rightarrow> Some (Ok conn)
              | Some (Err e, _) \<Rightarrow> Some (Err e)
              | Some (Panic, _) \<Rightarrow> Some Panic)))"

text \<open>The two halves of \<open>get\<close>, around its second await.\<close>

definition pool_acquire :: "nat \<Rightarrow> ConnectionPool \<Rightarrow> (RedisConnection option \<times> ConnectionPool) option" where
  "pool_acquire now pool =
     (if permits pool = 0 then None
      else Some (take_healthy_connection now (pool\<lparr>permits := permits pool - 1\<rparr>)))"

definition release_permit :: "ConnectionPool \<Rightarrow> ConnectionPool" where
  "release_permit pool = pool\<lparr>permits := permits pool + 1\<rparr>"

text \<open>
  \<open>get\<close> without interference. \<open>None\<close>: no permit, or the connection attempt is still waiting.
  When creating the connection fails, the permit is dropped with the future.
\<close>

definition pool_get :: "crates \<Rightarrow> nat \<Rightarrow> dial \<Rightarrow> ConnectionPool \<Rightarrow> (RedisConnection res \<times> ConnectionPool) option" where
  "pool_get C now d pool =
     (case pool_acquire now pool of
        None \<Rightarrow> None
      | Some (Some conn, pool) \<Rightarrow> Some (Ok conn, pool)
      | Some (None, pool) \<Rightarrow>
          (case create_connection C d (pool_config pool) of
             None \<Rightarrow> None
           | Some (Ok conn) \<Rightarrow> Some (Ok conn, pool)
           | Some (Err e) \<Rightarrow> Some (Err e, release_permit pool)
           | Some Panic \<Rightarrow> Some (Panic, release_permit pool)))"

text \<open>Dropping a guard returns the connection if it is still there, then the permit.\<close>

definition guard_drop :: "nat \<Rightarrow> RedisConnection option \<Rightarrow> ConnectionPool \<Rightarrow> ConnectionPool" where
  "guard_drop now conn pool =
     release_permit (case conn of Some c \<Rightarrow> return_connection now c pool | None \<Rightarrow> pool)"

text \<open>\<open>take\<close> empties the guard, which is then dropped.\<close>

definition guard_take :: "nat \<Rightarrow> RedisConnection \<Rightarrow> ConnectionPool \<Rightarrow> RedisConnection \<times> ConnectionPool" where
  "guard_take now conn pool = (conn, guard_drop now None pool)"

definition idle_count :: "ConnectionPool \<Rightarrow> nat" where
  "idle_count pool = length (idle pool)"

definition max_size :: "ConnectionPool \<Rightarrow> nat" where
  "max_size pool = pool_max_size pool"

definition available :: "ConnectionPool \<Rightarrow> nat" where
  "available pool = permits pool"

section \<open>Concurrent use\<close>

text \<open>
  The pool together with the connections held by guards and the number of tasks that hold
  a permit and are creating a connection. \<open>Used\<close> is any use of a held connection, \<open>Disturbed\<close>
  whatever the peer does to an idle one (bytes or a close that nobody has read yet).
\<close>

record pool_state =
  the_pool :: ConnectionPool
  held :: "RedisConnection list"
  connecting :: nat

inductive pool_step :: "crates \<Rightarrow> pool_state \<Rightarrow> pool_state \<Rightarrow> bool" for C where
  Reuse: "pool_acquire now (the_pool s) = Some (Some conn, pool) \<Longrightarrow>
    pool_step C s (s\<lparr>the_pool := pool, held := conn # held s\<rparr>)"
| Dial: "pool_acquire now (the_pool s) = Some (None, pool) \<Longrightarrow>
    pool_step C s (s\<lparr>the_pool := pool, connecting := connecting s + 1\<rparr>)"
| Connected: "0 < connecting s \<Longrightarrow> create_connection C d (pool_config (the_pool s)) = Some (Ok conn) \<Longrightarrow>
    pool_step C s (s\<lparr>held := conn # held s, connecting := connecting s - 1\<rparr>)"
| Refused: "0 < connecting s \<Longrightarrow> create_connection C d (pool_config (the_pool s)) = Some (Err e) \<Longrightarrow>
    pool_step C s (s\<lparr>the_pool := release_permit (the_pool s), connecting := connecting s - 1\<rparr>)"
| Used: "held s = pre @ conn # post \<Longrightarrow> pool_step C s (s\<lparr>held := pre @ conn' # post\<rparr>)"
| Disturbed: "idle (the_pool s) = pre @ conn # post \<Longrightarrow>
    pool_step C s (s\<lparr>the_pool := (the_pool s)\<lparr>idle := pre @ conn' # post\<rparr>\<rparr>)"
| Dropped: "held s = pre @ conn # post \<Longrightarrow>
    pool_step C s (s\<lparr>the_pool := guard_drop now (Some conn) (the_pool s), held := pre @ post\<rparr>)"
| Taken: "held s = pre @ conn # post \<Longrightarrow>
    pool_step C s (s\<lparr>the_pool := snd (guard_take now conn (the_pool s)), held := pre @ post\<rparr>)"

inductive_cases pool_stepE: "pool_step C s t"

definition pool_start :: "ConnectionConfig \<Rightarrow> pool_state" where
  "pool_start config = \<lparr>the_pool = pool_new config, held = [], connecting = 0\<rparr>"

inductive pool_reachable :: "crates \<Rightarrow> ConnectionConfig \<Rightarrow> pool_state \<Rightarrow> bool" for C config where
  start: "pool_reachable C config (pool_start config)"
| step: "pool_reachable C config s \<Longrightarrow> pool_step C s t \<Longrightarrow> pool_reachable C config t"

text \<open>
  Every permit is either available, held with a connection, or held by a task that is
  connecting; and all connections together never exceed the configured size.
\<close>

definition pool_inv :: "ConnectionConfig \<Rightarrow> pool_state \<Rightarrow> bool" where
  "pool_inv config s \<longleftrightarrow>
     pool_config (the_pool s) = config \<and>
     pool_max_size (the_pool s) = cfg_pool_size config \<and>
     pool_idle_timeout (the_pool s) = cfg_idle_timeout_ms config \<and>
     permits (the_pool s) + length (held s) + connecting s = cfg_pool_size config \<and>
     length (idle (the_pool s)) + length (held s) + connecting s \<le> cfg_pool_size config"

section \<open>Lemmas\<close>

lemma pop_healthy_split:
  "pop_healthy now t conns = (r, rest) \<Longrightarrow>
     (case r of
        Some c \<Rightarrow> \<exists>old. conns = old @ c # rest \<and> list_all (stale now t) old \<and> \<not> stale now t c
      | None \<Rightarrow> rest = [] \<and> list_all (stale now t) conns)"
proof (induction now t conns rule: pop_healthy.induct)
  case (2 now t c conns)
  show ?case
  proof (cases "stale now t c")
    case True
    with 2 show ?thesis by (cases r) (auto intro: exI [of _ "c # _"])
  next
    case False
    with 2 show ?thesis by auto
  qed
qed auto

lemma take_healthy_split:
  assumes "take_healthy_connection now pool = (r, pool')"
  shows "pool' = pool\<lparr>idle := idle pool'\<rparr> \<and>
    (case r of
       Some c \<Rightarrow> \<exists>old. idle pool = idle pool' @ c # old \<and>
         list_all (stale now (pool_idle_timeout pool)) old \<and> \<not> stale now (pool_idle_timeout pool) c
     | None \<Rightarrow> idle pool' = [] \<and> list_all (stale now (pool_idle_timeout pool)) (idle pool))"
proof -
  obtain rest where p: "pop_healthy now (pool_idle_timeout pool) (rev (idle pool)) = (r, rest)"
    and pool': "pool' = pool\<lparr>idle := rev rest\<rparr>"
    using assms by (auto simp: take_healthy_connection_def Let_def split: prod.splits)
  from pop_healthy_split [OF p] pool' show ?thesis
    by (auto simp: rev_swap [symmetric] list_all_rev split: option.splits)
       (metis list_all_rev rev_append rev.simps(2) append.assoc append_Cons append_Nil rev_rev_ident)
qed

lemma pool_acquire_facts:
  assumes "pool_acquire now pool = Some (r, pool')"
  shows "0 < permits pool" "permits pool' = permits pool - 1" "pool_config pool' = pool_config pool"
    "pool_max_size pool' = pool_max_size pool" "pool_idle_timeout pool' = pool_idle_timeout pool"
    "case r of Some c \<Rightarrow> length (idle pool') < length (idle pool) | None \<Rightarrow> idle pool' = []"
proof -
  from assms have p: "0 < permits pool"
    and t: "take_healthy_connection now (pool\<lparr>permits := permits pool - 1\<rparr>) = (r, pool')"
    by (auto simp: pool_acquire_def split: if_splits)
  from take_healthy_split [OF t] obtain xs where "pool' = pool\<lparr>permits := permits pool - 1, idle := xs\<rparr>"
    by (metis ConnectionPool.update_convs(1) ConnectionPool.surjective)
  with p take_healthy_split [OF t] show "0 < permits pool" "permits pool' = permits pool - 1"
    "pool_config pool' = pool_config pool" "pool_max_size pool' = pool_max_size pool"
    "pool_idle_timeout pool' = pool_idle_timeout pool"
    "case r of Some c \<Rightarrow> length (idle pool') < length (idle pool) | None \<Rightarrow> idle pool' = []"
    by (auto split: option.splits)
qed

lemma guard_drop_facts:
  "permits (guard_drop now conn pool) = permits pool + 1"
  "pool_config (guard_drop now conn pool) = pool_config pool"
  "pool_max_size (guard_drop now conn pool) = pool_max_size pool"
  "pool_idle_timeout (guard_drop now conn pool) = pool_idle_timeout pool"
  "length (idle (guard_drop now (Some c) pool)) \<le> length (idle pool) + 1"
  "idle (guard_drop now None pool) = idle pool"
  by (auto simp: guard_drop_def release_permit_def return_connection_def split: option.splits)

lemma pool_step_inv:
  assumes "pool_inv config s" and "pool_step C s t"
  shows "pool_inv config t"
  using assms(2)
proof cases
  case (Reuse now conn pool)
  with assms(1) pool_acquire_facts [OF Reuse(2)] show ?thesis by (auto simp: pool_inv_def)
next
  case (Dial now pool)
  with assms(1) pool_acquire_facts [OF Dial(2)] show ?thesis by (auto simp: pool_inv_def)
next
  case (Dropped pre conn post now)
  with assms(1) guard_drop_facts(5) [of now conn "the_pool s"] show ?thesis
    by (auto simp: pool_inv_def guard_drop_facts(1-4))
qed (use assms(1) in \<open>auto simp: pool_inv_def guard_drop_facts guard_take_def release_permit_def\<close>)

interpretation pool_runs: step_system "pool_start config" "pool_step C" "pool_reachable C config" for C config
  by unfold_locales (auto intro: pool_reachable.intros elim: pool_reachable.induct)

lemma pool_start_inv: "pool_inv config (pool_start config)"
  by (simp add: pool_inv_def pool_start_def pool_new_def Let_def)

lemma pool_reachable_inv: "pool_reachable C config s \<Longrightarrow> pool_inv config s"
  by (rule pool_runs.invariant [where I = "pool_inv config", OF pool_start_inv pool_step_inv])

text \<open>Below the bound, the pool-is-full branch of \<open>return_connection\<close> is not taken.\<close>

lemma return_connection_keeps:
  assumes "pool_inv config s" "held s = pre @ conn # post"
    and "\<not> stale now (cfg_idle_timeout_ms config) conn"
  shows "idle (guard_drop now (Some conn) (the_pool s)) = idle (the_pool s) @ [conn]"
  using assms by (auto simp: pool_inv_def guard_drop_def release_permit_def return_connection_def)

text \<open>The connection of a new pool is one to the address of its configuration, handshake included.\<close>

lemma io_bind_keeps [keeps_rules]: "keeps P m \<Longrightarrow> (\<And>x. keeps P (f x)) \<Longrightarrow> keeps P (io_bind m f)"
proof (rule keepsI)
  fix c r c'
  assume m: "keeps P m" and f: "\<And>x. keeps P (f x)" and c: "P c" and b: "io_bind m f c = Some (r, c')"
  obtain x c1 where x: "m c = Some (x, c1)" using b by (auto simp: io_bind_def split: option.splits)
  have "P c1" using m c x by (rule keepsD)
  with b x show "P c'" by (cases x) (auto simp: io_bind_def intro: keepsD [OF f])
qed

lemma io_return_keeps [keeps_rules]: "keeps P (io_return r)"
  by (simp add: keeps_def io_return_def)

lemma send_raw_peer [keeps_rules]: "keeps (\<lambda>c. peer (stream c) = a) (send_raw data)"
  by (rule keepsI) (auto simp: send_raw_def split: list.splits write_event.splits)

lemma await_read_peer: "await_read evs c = Some (r, c') \<Longrightarrow> peer (stream c') = peer (stream c)"
  by (induction evs c rule: await_read.induct)
     (auto simp: consume_def Let_def split: read_outcome.splits option.splits if_splits)

lemma read_loop_peer: "read_loop p c = Some (r, c') \<Longrightarrow> peer (stream c') = peer (stream c)"
proof (induction p c rule: read_loop.induct)
  case (1 p c)
  show ?case
    using "1.prems" await_read_peer "1.IH"
    by (subst (asm) read_loop.simps)
       (fastforce simp: read_with_timeout_def split: result.splits option.splits prod.splits if_splits)
qed

lemma read_response_peer [keeps_rules]: "keeps (\<lambda>c. peer (stream c) = a) (read_response C)"
  by (rule keepsI) (simp add: read_response_def read_loop_peer)

lemma init_peer: "keeps (\<lambda>c. peer (stream c) = a) (init C user pass db)"
  unfolding init_def auth_def select_db_def execute_str_def
  by (intro keeps_rules | (split option.split, intro conjI allI impI) | simp split: option.split)+

lemma create_connection_peer:
  assumes "create_connection C d config = Some (Ok conn)"
  shows "peer (stream conn) = primary_addr config"
proof -
  have "peer (stream (set_read_timeout n c)) = peer (stream c)" for n c by (simp add: set_read_timeout_def)
  with assms show ?thesis
    by (auto simp: create_connection_def connect_timeout_with_max_buf_def connect_with_max_buf_def Let_def
        dest!: keepsD [OF init_peer, rotated] split: if_splits dial.splits option.splits result.splits)
qed

lemma new_pool_peer:
  assumes "pool_get C now d (pool_new config) = Some (Ok conn, p)"
  shows "peer (stream conn) = primary_addr config"
proof -
  have "take_healthy_connection now ((pool_new config)\<lparr>permits := k\<rparr>) = (None, (pool_new config)\<lparr>permits := k\<rparr>)" for k
    by (simp add: take_healthy_connection_def pool_new_def Let_def)
  moreover have "pool_config (pool_new config) = config" by (simp add: pool_new_def Let_def)
  ultimately show ?thesis
    using assms by (auto simp: pool_get_def pool_acquire_def intro: create_connection_peer
        split: if_splits option.splits result.splits)
qed

definition dialed_state :: pool_state where
  "dialed_state = \<lparr>the_pool = (pool_new default_config)\<lparr>permits := 7\<rparr>, held = [], connecting = 1\<rparr>"

definition connected_state :: pool_state where
  "connected_state = dialed_state\<lparr>held := [set_read_timeout 30000 (sample_conn [])], connecting := 0\<rparr>"

lemma connected_reachable: "pool_reachable (documented_crates (\<lambda>_. True)) default_config connected_state"
proof -
  let ?C = "documented_crates (\<lambda>_. True)"
  have "pool_acquire 0 (pool_new default_config) = Some (None, (pool_new default_config)\<lparr>permits := 7\<rparr>)"
    by (simp add: pool_acquire_def take_healthy_connection_def pool_new_def default_config_def Let_def)
  then have "pool_step ?C (pool_start default_config) dialed_state"
    using pool_step.Dial [of 0 "pool_start default_config"] by (simp add: pool_start_def dialed_state_def)
  moreover have "create_connection ?C (Dialed (stream (sample_conn []))) default_config =
      Some (Ok (set_read_timeout 30000 (sample_conn [])))"
    by (simp add: create_connection_def connect_timeout_with_max_buf_def connect_with_max_buf_def primary_addr_def
        default_port_text default_config_def init_def select_db_def io_bind_def io_return_def set_read_timeout_def
        sample_conn_def DEFAULT_MAX_BUF_SIZE_def Let_def)
  then have "pool_step ?C dialed_state connected_state"
    using pool_step.Connected [of dialed_state ?C]
    by (simp add: dialed_state_def connected_state_def pool_new_def Let_def)
  ultimately show ?thesis by (meson pool_reachable.intros)
qed

section \<open>Properties\<close>

text \<open>
  C9: Pool accounting under any interleaving of gets, failed connects, uses, drops and
  takes: every permit is accounted for, so at most \<open>pool_size\<close> connections are handed out,
  and idle, handed-out and connecting together never exceed \<open>pool_size\<close>.
\<close>

theorem pool_never_exceeds_size:
  assumes "pool_reachable C config s"
  shows "available (the_pool s) + length (held s) + connecting s = cfg_pool_size config \<and>
    idle_count (the_pool s) + length (held s) + connecting s \<le> max_size (the_pool s)"
  using pool_reachable_inv [OF assms] by (simp add: pool_inv_def available_def idle_count_def max_size_def)

theorem pool_never_exceeds_size_witness:
  "available (the_pool connected_state) + length (held connected_state) = 8 \<and> available (the_pool connected_state) = 7"
  using pool_never_exceeds_size [OF connected_reachable]
  by (simp add: connected_state_def dialed_state_def default_config_def)

text \<open>
  A healthy connection is never lost: dropping the guard of a connection that is not
  stale puts it at the back of the idle queue, in every reachable state.
\<close>

lemma returned_connection_kept:
  assumes "pool_reachable C config s" and "held s = pre @ conn # post"
    and "\<not> stale now (cfg_idle_timeout_ms config) conn"
  shows "idle (guard_drop now (Some conn) (the_pool s)) = idle (the_pool s) @ [conn] \<and>
    available (guard_drop now (Some conn) (the_pool s)) = available (the_pool s) + 1"
  using return_connection_keeps [OF pool_reachable_inv [OF assms(1)] assms(2,3)]
  by (simp add: available_def guard_drop_facts(1))

lemma returned_connection_kept_witness:
  "idle (guard_drop 5 (Some (set_read_timeout 30000 (sample_conn []))) (the_pool connected_state)) =
     [set_read_timeout 30000 (sample_conn [])]"
  using returned_connection_kept [OF connected_reachable, of "[]" "set_read_timeout 30000 (sample_conn [])" "[]" 5]
  by (simp add: connected_state_def dialed_state_def pool_new_def stale_def set_read_timeout_def
      sample_conn_def default_config_def Let_def)

text \<open>
  Reuse is last in, first out among the fresh: \<open>get\<close> hands out the most recently
  returned connection that was used within the idle timeout, drops exactly the stale ones
  behind it, and only when every idle connection is stale is a new one created.
\<close>

lemma get_reuses_freshest:
  assumes "0 < permits pool"
  shows "\<exists>r pool'. pool_acquire now pool = Some (r, pool') \<and> permits pool' = permits pool - 1 \<and>
    (case r of
       Some conn \<Rightarrow> now - last_used conn \<le> pool_idle_timeout pool \<and>
         (\<exists>old. idle pool = idle pool' @ [conn] @ old \<and> list_all (stale now (pool_idle_timeout pool)) old)
     | None \<Rightarrow> idle pool' = [] \<and> list_all (stale now (pool_idle_timeout pool)) (idle pool))"
proof -
  obtain r pool' where t: "take_healthy_connection now (pool\<lparr>permits := permits pool - 1\<rparr>) = (r, pool')"
    by fastforce
  with assms have a: "pool_acquire now pool = Some (r, pool')" by (simp add: pool_acquire_def)
  with take_healthy_split [OF t] pool_acquire_facts(2) [OF a] show ?thesis
    by (auto simp: stale_def split: option.splits)
qed

lemma get_reuses_freshest_witness:
  "\<exists>r pool'. pool_acquire 0 (pool_new default_config) = Some (r, pool') \<and> permits pool' = 7"
  using get_reuses_freshest [of "pool_new default_config" 0]
  by (fastforce simp: pool_new_def default_config_def Let_def)

text \<open>
  TLS is refused rather than silently downgraded: with \<open>tls\<close> set in the configuration, no
  interleaving of pool operations ever hands out or keeps a connection, so no credential
  and no command is sent in plain text.
\<close>

lemma tls_pool_stays_empty:
  assumes "pool_reachable C config s" and "cfg_tls config"
  shows "held s = [] \<and> idle (the_pool s) = []"
  using assms(1)
proof (induction rule: pool_reachable.induct)
  case start
  then show ?case by (simp add: pool_start_def pool_new_def Let_def)
next
  case (step s t)
  have cfg: "pool_config (the_pool s) = config" using pool_reachable_inv [OF step(1)] by (simp add: pool_inv_def)
  from step(2,3) show ?case
    by (cases rule: pool_step.cases)
       (auto simp: cfg assms(2) create_connection_def release_permit_def
         dest: pool_acquire_facts(6))
qed

lemma tls_pool_stays_empty_witness:
  "held (pool_start (default_config\<lparr>cfg_tls := True\<rparr>)) = []"
  using tls_pool_stays_empty [OF pool_reachable.start [of "documented_crates (\<lambda>_. True)" "default_config\<lparr>cfg_tls := True\<rparr>"]]
  by simp

end
