(* ===== verification/Standalone.thy ===== *)
theory Standalone
  imports Pool
begin

text \<open>
  \<open>src/src/router/standalone.rs\<close>: the single-server router. Each call takes a connection
  from the pool, writes its commands, reads one reply per command and drops the guard,
  also when it returns early with an error. The environment of a call says when it takes
  and drops its connection and what dialing would give.
\<close>

section \<open>Operations\<close>

record call_env =
  at_get :: nat
  at_drop :: nat
  dialing :: dial

text \<open>\<open>let mut guard = self.pool.get().await?\<close>, a body that uses the connection, the drop.\<close>

definition with_guard :: "crates \<Rightarrow> call_env \<Rightarrow> 'a conn_io \<Rightarrow> ConnectionPool \<Rightarrow> ('a res \<times> ConnectionPool) option" where
  "with_guard C env body pool =
     (case pool_get C (at_get env) (dialing env) pool of
        None \<Rightarrow> None
      | Some (Err e, pool) \<Rightarrow> Some (Err e, pool)
      | Some (Panic, pool) \<Rightarrow> Some (Panic, pool)
      | Some (Ok conn, pool) \<Rightarrow>
          (case body conn of
             None \<Rightarrow> None
           | Some (r, conn) \<Rightarrow> Some (r, guard_drop (at_drop env) (Some conn) pool)))"

text \<open>The loop \<open>for _ in commands\<close> that pushes one reply per command.\<close>

fun read_replies :: "'a conn_io \<Rightarrow> 'c list \<Rightarrow> 'a list \<Rightarrow> 'a list conn_io" where
  "read_replies rd [] acc = io_return (Ok acc)"
| "read_replies rd (_ # commands) acc = io_bind rd (\<lambda>v. read_replies rd commands (acc @ [v]))"

definition standalone_new :: "ConnectionConfig \<Rightarrow> ConnectionPool" where
  "standalone_new config = pool_new config"

definition execute_raw :: "crates \<Rightarrow> call_env \<Rightarrow> string list \<Rightarrow> ConnectionPool \<Rightarrow> (bytes res \<times> ConnectionPool) option" where
  "execute_raw C env args =
     with_guard C env (io_bind (send_raw (encode_command_str C args)) (\<lambda>_. read_raw_response C))"

definition pipeline_raw :: "crates \<Rightarrow> call_env \<Rightarrow> string list list \<Rightarrow> ConnectionPool \<Rightarrow> (bytes list res \<times> ConnectionPool) option" where
  "pipeline_raw C env commands =
     with_guard C env (io_bind (send_raw (encode_pipeline C commands)) (\<lambda>_.
       read_replies (read_raw_response C) commands []))"

definition standalone_execute :: "crates \<Rightarrow> call_env \<Rightarrow> string list \<Rightarrow> ConnectionPool \<Rightarrow> (RespValue res \<times> ConnectionPool) option" where
  "standalone_execute C env args =
     with_guard C env (io_bind (send_raw (encode_command_str C args)) (\<lambda>_. read_response C))"

definition standalone_pipeline :: "crates \<Rightarrow> call_env \<Rightarrow> string list list \<Rightarrow> ConnectionPool \<Rightarrow> (RespValue list res \<times> ConnectionPool) option" where
  "standalone_pipeline C env commands =
     with_guard C env (io_bind (send_raw (encode_pipeline C commands)) (\<lambda>_.
       read_replies (read_response C) commands []))"

definition pool_idle_count :: "ConnectionPool \<Rightarrow> nat" where
  "pool_idle_count pool = idle_count pool"

definition pool_available :: "ConnectionPool \<Rightarrow> nat" where
  "pool_available pool = available pool"

section \<open>Readers\<close>

text \<open>
  The interface the pipelines rely on: a reader that returns the first item of the stream
  and advances it. \<open>read_response\<close> and \<open>read_raw_response\<close> both provide it.
\<close>

locale reply_reader =
  fixes p :: "bytes \<Rightarrow> ('a \<times> nat) res" and rd :: "'a conn_io"
  assumes reads_one: "healthy c \<Longrightarrow> p (pending_input c) = Ok (v, n) \<Longrightarrow>
    \<exists>c'. rd c = Some (Ok v, c') \<and> pending_input c' = drop n (pending_input c) \<and> healthy c' \<and> same_peer c c'"
begin

text \<open>The items at the head of a stream, one per command.\<close>

inductive items :: "bytes \<Rightarrow> 'a list \<Rightarrow> bytes \<Rightarrow> bool" where
  items_Nil: "items s [] s"
| items_Cons: "p s = Ok (v, n) \<Longrightarrow> items (drop n s) vs r \<Longrightarrow> items s (v # vs) r"

lemma read_replies_stream:
  assumes "items (pending_input c) vs rest" and "healthy c" and "length cmds = length vs"
  shows "\<exists>c'. read_replies rd cmds acc c = Some (Ok (acc @ vs), c') \<and> pending_input c' = rest \<and>
    healthy c' \<and> same_peer c c'"
  using assms
proof (induction "pending_input c" vs rest arbitrary: c cmds acc rule: items.induct)
  case items_Nil
  then show ?case by (simp add: io_return_def)
next
  case (items_Cons v n vs r)
  obtain cmd cmds' where cmds: "cmds = cmd # cmds'" using items_Cons.prems(2) by (cases cmds) auto
  obtain c1 where c1: "rd c = Some (Ok v, c1)" "pending_input c1 = drop n (pending_input c)"
    "healthy c1" "same_peer c c1" using reads_one [OF items_Cons.prems(1) items_Cons.hyps(1)] by blast
  from items_Cons.hyps(3) [OF c1(2) [symmetric] c1(3), of cmds' "acc @ [v]"] items_Cons.prems(2) cmds
  obtain c2 where "read_replies rd cmds' (acc @ [v]) c1 = Some (Ok (acc @ v # vs), c2)"
    "pending_input c2 = r" "healthy c2" "same_peer c1 c2" by auto
  with c1 cmds same_peer_trans [OF c1(4)] show ?case by (auto simp: io_bind_def)
qed

end

sublocale crate_env \<subseteq> replies: reply_reader "parse C" "read_response C"
  by unfold_locales (use parser.read_loop_stream in \<open>fastforce simp: read_response_def\<close>)

sublocale crate_env \<subseteq> frames: reply_reader "raw_frame C" "read_raw_response C"
  by unfold_locales (use framer.read_loop_stream in \<open>fastforce simp: read_raw_response_def\<close>)

section \<open>Lemmas\<close>

text \<open>A pool whose freshest connection is not stale.\<close>

definition ready :: "call_env \<Rightarrow> ConnectionPool \<Rightarrow> RedisConnection list \<Rightarrow> RedisConnection \<Rightarrow> bool" where
  "ready env pool older conn \<longleftrightarrow>
     0 < permits pool \<and> idle pool = older @ [conn] \<and> \<not> stale (at_get env) (pool_idle_timeout pool) conn"

lemma ready_get:
  assumes "ready env pool older conn"
  shows "pool_get C (at_get env) (dialing env) pool =
    Some (Ok conn, pool\<lparr>permits := permits pool - 1, idle := older\<rparr>)"
  using assms
  by (simp add: ready_def pool_get_def pool_acquire_def take_healthy_connection_def Let_def)

lemma with_guard_ready:
  assumes "ready env pool older conn"
  shows "with_guard C env body pool =
    map_option (\<lambda>(r, conn'). (r, guard_drop (at_drop env) (Some conn')
      (pool\<lparr>permits := permits pool - 1, idle := older\<rparr>))) (body conn)"
  by (simp add: with_guard_def ready_get [OF assms] split: option.split prod.split)

lemma guard_drop_fresh:
  assumes "ready env pool older conn" "length older < pool_max_size pool"
    and "\<not> stale (at_drop env) (pool_idle_timeout pool) conn'"
  shows "guard_drop (at_drop env) (Some conn') (pool\<lparr>permits := permits pool - 1, idle := older\<rparr>) =
    pool\<lparr>idle := older @ [conn']\<rparr>"
  using assms by (simp add: guard_drop_def return_connection_def release_permit_def ready_def)

context crate_env
begin

lemma items_encoded:
  assumes "\<And>n. vec_alloc C n" and "list_all encodable vs"
  shows "replies.items (concat (map resp_encode vs) @ rest) vs rest"
  using assms(2)
proof (induction vs)
  case (Cons v vs)
  with parse_resp_encode(1) [OF assms(1)] have
    "parse C (resp_encode v @ concat (map resp_encode vs) @ rest) = Ok (v, length (resp_encode v))"
    by (simp add: reads_def)
  with Cons show ?case by (auto intro!: replies.items_Cons)
qed (auto intro: replies.items_Nil)

lemma send_then_replies:
  assumes "\<And>n. vec_alloc C n" and "list_all encodable vs" and "length cmds = length vs"
    and "healthy c" "writes (stream c) = WriteOk t # ws" "pending_input c = concat (map resp_encode vs) @ rest"
  obtains c' where "io_bind (send_raw data) (\<lambda>_. read_replies (read_response C) cmds []) c = Some (Ok vs, c')"
    "sent (stream c') = sent (stream c) @ data" "pending_input c' = rest" "healthy c'"
proof -
  obtain c1 where c1: "send_raw data c = Some (Ok (), c1)" "sent (stream c1) = sent (stream c) @ data"
    "pending_input c1 = pending_input c" "healthy c1 = healthy c"
    using send_raw_ok [OF assms(5)] by metis
  obtain c2 where "read_replies (read_response C) cmds [] c1 = Some (Ok vs, c2)" "pending_input c2 = rest"
    "healthy c2" "same_peer c1 c2"
    using replies.read_replies_stream [of c1 vs rest cmds "[]"] items_encoded [OF assms(1,2), of rest]
      c1 assms(3,4,6) by auto
  with c1 that [of c2] show ?thesis by (simp add: io_bind_def same_peer_def)
qed

end

text \<open>The connection a dial without handshake gives.\<close>

definition fresh_conn :: "ConnectionConfig \<Rightarrow> tcp_stream \<Rightarrow> RedisConnection" where
  "fresh_conn config st =
     set_read_timeout (cfg_read_timeout_ms config)
       \<lparr>stream = st\<lparr>peer := primary_addr config\<rparr>, buf = [], max_buf_size = cfg_max_buffer_size config, read_timeout = None, last_used = clock st\<rparr>"

lemma stream_fresh_conn [simp]: "stream (fresh_conn config st) = st\<lparr>peer := primary_addr config\<rparr>"
  by (simp add: fresh_conn_def set_read_timeout_def)

definition no_handshake :: "ConnectionConfig \<Rightarrow> bool" where
  "no_handshake config \<longleftrightarrow> \<not> cfg_tls config \<and> cfg_password config = None \<and> cfg_db config = 0 \<and> 0 < cfg_pool_size config"

lemma fresh_pool_get:
  assumes "no_handshake config"
  shows "pool_get C now (Dialed st) (pool_new config) =
    Some (Ok (fresh_conn config st), (pool_new config)\<lparr>permits := cfg_pool_size config - 1\<rparr>)"
  using assms by (simp add: no_handshake_def pool_get_def pool_acquire_def pool_new_def take_healthy_connection_def
      create_connection_def connect_timeout_with_max_buf_def connect_with_max_buf_def Let_def init_def
      select_db_def io_bind_def io_return_def fresh_conn_def)

text \<open>A command whose reply does not come in time leaves the connection open and in sync with nothing.\<close>

lemma send_then_timeout:
  assumes "buf c = []" "read_timeout c = Some t" "inbox (stream c) = ReadEvent t' cap TimedOut # evs"
    and "cap < max_buf_size c" "writes (stream c) = WriteOk w # ws"
  obtains c' where "io_bind (send_raw data) (\<lambda>_. read_response C) c =
      Some (Err (Timeout (''read timed out after '' @ duration_debug t)), c')"
    "buf c' = []" "inbox (stream c') = evs" "writes (stream c') = ws" "last_used c' = w"
    "max_buf_size c' = max_buf_size c"
proof -
  let ?s = "c\<lparr>stream := (stream c)\<lparr>clock := w, writes := ws, sent := sent (stream c) @ data\<rparr>, last_used := w\<rparr>"
  have "read_loop (parse C) ?s =
      Some (Err (Timeout (''read timed out after '' @ duration_debug t)), consume t' evs ?s)"
    using assms(1-4) by (intro read_loop_timeout) auto
  then show ?thesis
    using assms by (intro that [of "consume t' evs ?s"])
      (simp_all add: io_bind_def send_raw_def read_response_def consume_def)
qed

section \<open>Properties\<close>

text \<open>
  A pipeline gets its own replies, in order. When the server answers the commands with
  the values \<open>vs\<close>, however the network splits their encodings, the pipeline returns exactly
  \<open>vs\<close>, has sent exactly its commands, and hands the connection back with only the bytes
  that follow.
\<close>

lemma pipeline_replies_in_order:
  assumes "crate_env C" and "\<And>n. vec_alloc C n" and "list_all encodable vs"
    and "length commands = length vs" and "ready env pool older conn"
    and "healthy conn" and "writes (stream conn) = WriteOk t # ws"
    and "pending_input conn = concat (map resp_encode vs) @ rest"
  shows "\<exists>conn'. standalone_pipeline C env commands pool =
      Some (Ok vs, guard_drop (at_drop env) (Some conn') (pool\<lparr>permits := permits pool - 1, idle := older\<rparr>)) \<and>
    sent (stream conn') = sent (stream conn) @ concat (map (encode_command C) commands) \<and>
    pending_input conn' = rest \<and> healthy conn'"
proof -
  obtain c' where c': "io_bind (send_raw (encode_pipeline C commands))
      (\<lambda>_. read_replies (read_response C) commands []) conn = Some (Ok vs, c')"
    "sent (stream c') = sent (stream conn) @ encode_pipeline C commands"
    "pending_input c' = rest" "healthy c'"
    using crate_env.send_then_replies [OF assms(1-4,6-8)] .
  then show ?thesis
    by (auto simp: standalone_pipeline_def with_guard_ready [OF assms(5)] encode_pipeline_concat)
qed

definition sample_pool :: "RedisConnection \<Rightarrow> ConnectionPool" where
  "sample_pool c = (pool_new default_config)\<lparr>idle := [c]\<rparr>"

definition sample_env :: call_env where
  "sample_env = \<lparr>at_get = 1, at_drop = 9, dialing = DialPending\<rparr>"

lemma sample_ready: "last_used c = 0 \<Longrightarrow> ready sample_env (sample_pool c) [] c"
  by (simp add: ready_def sample_env_def sample_pool_def pool_new_def default_config_def stale_def Let_def)

definition two_replies :: "read_event list" where
  "two_replies = [ReadEvent 1 65536 (Data ('':1'' @ [CR])), ReadEvent 2 65536 (Data ([LF] @ '':2'' @ crlf @ ''+x''))]"

lemma pipeline_replies_in_order_witness:
  "\<exists>pool'. standalone_pipeline (documented_crates (\<lambda>_. True)) sample_env [[''INCR'', ''a''], [''INCR'', ''a'']]
     (sample_pool (sample_conn two_replies)) = Some (Ok [Integer 1, Integer 2], pool')"
proof -
  let ?c = "sample_conn two_replies"
  have dec: "decimal 1 = ''1''" "decimal 2 = ''2''" by code_simp+
  have "healthy ?c"
    by (simp add: healthy_def sample_conn_def two_replies_def delivers_def DEFAULT_MAX_BUF_SIZE_def)
  moreover have "writes (stream ?c) = WriteOk 1 # [WriteOk 2]" by (simp add: sample_conn_def)
  moreover have "pending_input ?c = concat (map resp_encode [Integer 1, Integer 2]) @ ''+x''"
    using dec by (simp add: pending_input_def sample_conn_def two_replies_def event_data_def wire_line_def decimal_int_def)
  moreover have "list_all encodable [Integer 1, Integer 2]" by (simp add: i64_bounds)
  moreover have "ready sample_env (sample_pool ?c) [] ?c" by (rule sample_ready) (simp add: sample_conn_def)
  ultimately show ?thesis
    using pipeline_replies_in_order [OF documented.crate_env_axioms, of "\<lambda>_. True" "[Integer 1, Integer 2]"
        "[[''INCR'', ''a''], [''INCR'', ''a'']]" sample_env "sample_pool ?c" "[]" ?c 1 "[WriteOk 2]" "''+x''"]
    by (auto simp: documented_crates_def)
qed

text \<open>
  A pipeline of one command is that command: same bytes sent, same reply or error, same
  pool afterwards.
\<close>

lemma pipeline_of_one:
  "standalone_pipeline C env [args] pool =
    map_option (\<lambda>(r, pool'). (and_then r (\<lambda>v. Ok [v]), pool')) (standalone_execute C env args pool)"
proof -
  have enc: "encode_pipeline C [args] = encode_command_str C args"
    by (simp add: encode_pipeline_concat encode_command_str_def)
  have "io_bind (send_raw data) (\<lambda>_. read_replies (read_response C) [args] []) conn =
      map_option (\<lambda>(r, c). (and_then r (\<lambda>v. Ok [v]), c))
        (io_bind (send_raw data) (\<lambda>_. read_response C) conn)" for data conn
    by (auto simp: io_bind_def io_return_def split: option.splits result.splits)
  then show ?thesis
    unfolding standalone_pipeline_def standalone_execute_def with_guard_def enc
    by (auto split: option.splits result.splits)
qed

text \<open>
  C32: A timed-out command poisons its connection. The guard puts the connection back into
  the pool although the reply is still to come, so the next command on it is answered
  with the reply to the command that timed out.
\<close>

theorem timeout_misdelivers_reply:
  assumes "crate_env C" and "ready env pool older conn" and "buf conn = []" and "read_timeout conn = Some t"
    and "inbox (stream conn) = ReadEvent t' cap TimedOut # evs" and "cap < max_buf_size conn"
    and "list_all (delivers (max_buf_size conn)) evs" and "writes (stream conn) = [WriteOk w1, WriteOk w2]"
    and "parse C (concat (map event_data evs)) = Ok (reply_to_first, n)"
    and "length older < pool_max_size pool" and "at_drop env - w1 \<le> pool_idle_timeout pool"
    and "at_get env2 - w1 \<le> pool_idle_timeout pool"
  shows "\<exists>pool1 pool2.
    standalone_execute C env first pool =
      Some (Err (Timeout (''read timed out after '' @ duration_debug t)), pool1) \<and>
    standalone_execute C env2 second pool1 = Some (Ok reply_to_first, pool2)"
proof -
  let ?timeout = "Err (Timeout (''read timed out after '' @ duration_debug t))"
  obtain c1 where c1: "io_bind (send_raw (encode_command_str C first)) (\<lambda>_. read_response C) conn =
      Some (?timeout, c1)"
    "buf c1 = []" "inbox (stream c1) = evs" "writes (stream c1) = [WriteOk w2]" "last_used c1 = w1"
    "max_buf_size c1 = max_buf_size conn"
    using send_then_timeout [OF assms(3-6,8)] .
  let ?pool1 = "pool\<lparr>idle := older @ [c1]\<rparr>"
  have "guard_drop (at_drop env) (Some c1) (pool\<lparr>permits := permits pool - 1, idle := older\<rparr>) = ?pool1"
    using assms(11) c1(5) by (intro guard_drop_fresh [OF assms(2,10)]) (simp add: stale_def)
  with c1(1) have one: "standalone_execute C env first pool = Some (?timeout, ?pool1)"
    by (simp only: standalone_execute_def with_guard_ready [OF assms(2)]) simp
  have r: "ready env2 ?pool1 older c1"
    using assms(2,12) c1(5) by (simp add: ready_def stale_def)
  have h: "healthy c1" using assms(7) c1 by (simp add: healthy_def)
  have p: "parse C (pending_input c1) = Ok (reply_to_first, n)"
    using assms(9) c1 by (simp add: pending_input_def)
  obtain c2 where "execute_str C second c1 = Some (Ok reply_to_first, c2)"
    using crate_env.execute_str_stream [OF assms(1) c1(4) h p] by metis
  with one show ?thesis
    by (auto simp: standalone_execute_def execute_str_def with_guard_ready [OF r])
qed

definition late_reply :: "read_event list" where
  "late_reply = [ReadEvent 2 65536 TimedOut, ReadEvent 3 65536 (Data (''+first'' @ crlf)),
     ReadEvent 4 65536 (Data (''+second'' @ crlf))]"

theorem timeout_misdelivers_reply_witness:
  "\<exists>pool1 pool2.
    standalone_execute (documented_crates (\<lambda>_. True)) sample_env [''GET'', ''a''] (sample_pool (sample_conn late_reply)) =
      Some (Err (Timeout (''read timed out after '' @ duration_debug 30000)), pool1) \<and>
    standalone_execute (documented_crates (\<lambda>_. True)) sample_env [''GET'', ''b''] pool1 =
      Some (Ok (SimpleString ''first''), pool2)"
proof (rule timeout_misdelivers_reply [OF documented.crate_env_axioms,
      where cap = 65536 and t' = 2 and conn = "sample_conn late_reply"])
  let ?c = "sample_conn late_reply"
  show "ready sample_env (sample_pool ?c) [] ?c" by (rule sample_ready) (simp add: sample_conn_def)
  have "parse (documented_crates (\<lambda>_. True)) (''+first'' @ crlf @ ''+second'' @ crlf) =
    Ok (SimpleString ''first'', 8)" by code_simp
  then show "parse (documented_crates (\<lambda>_. True)) (concat (map event_data
      [ReadEvent 3 65536 (Data (''+first'' @ crlf)), ReadEvent 4 65536 (Data (''+second'' @ crlf))])) =
    Ok (SimpleString ''first'', 8)" by (simp add: event_data_def)
qed (simp_all add: sample_conn_def late_reply_def delivers_def DEFAULT_MAX_BUF_SIZE_def sample_pool_def
    sample_env_def pool_new_def default_config_def Let_def)

end
