(* ===== verification/Crc16.thy ===== *)
theory Crc16
  imports Prelude
begin

unbundle bit_operations_syntax

text \<open>
  \<open>src/src/crc16.rs\<close>: the table-driven CRC16-XMODEM checksum, hash tags and the slot of a
  key. A \<open>u16\<close> is a \<^typ>\<open>16 word\<close>, so shifts drop the bits they push out as in Rust. The
  table is computed as the constant initializer of the source computes it. The reference
  the checksum is compared with is the bit-serial register of the polynomial
  \<open>x^16 + x^12 + x^5 + 1\<close>, fed one message bit at a time.
\<close>

section \<open>Operations\<close>

definition SLOT_COUNT :: "16 word" where "SLOT_COUNT = 16384"

text \<open>One round of the inner loop of the table initializer.\<close>

definition crc_shift :: "16 word \<Rightarrow> 16 word" where
  "crc_shift crc =
     (if crc AND 0x8000 \<noteq> 0 then push_bit 1 crc XOR 0x1021 else push_bit 1 crc)"

definition table_entry :: "nat \<Rightarrow> 16 word" where
  "table_entry i = (crc_shift ^^ 8) (push_bit 8 (of_nat i))"

definition CRC16_TABLE :: "16 word list" where
  "CRC16_TABLE = map table_entry [0..<256]"

definition crc_index :: "16 word \<Rightarrow> u8 \<Rightarrow> nat" where
  "crc_index crc byte = unat (drop_bit 8 crc XOR of_char byte)"

definition crc_step :: "16 word \<Rightarrow> u8 \<Rightarrow> 16 word" where
  "crc_step crc byte = push_bit 8 crc XOR CRC16_TABLE ! crc_index crc byte"

definition crc16 :: "bytes \<Rightarrow> 16 word" where
  "crc16 data = foldl crc_step 0 data"

definition extract_hash_tag :: "bytes \<Rightarrow> bytes" where
  "extract_hash_tag key =
     (case position CHR 0x7B key of
        Some open \<Rightarrow>
          (case position CHR 0x7D (drop (open + 1) key) of
             Some close_offset \<Rightarrow>
               if 0 < close_offset then take close_offset (drop (open + 1) key) else key
           | None \<Rightarrow> key)
      | None \<Rightarrow> key)"

definition hash_slot :: "bytes \<Rightarrow> 16 word" where
  "hash_slot key = (let tag = extract_hash_tag key in crc16 tag mod SLOT_COUNT)"

section \<open>The checksum register is linear\<close>

lemma crc_shift_bit: "crc_shift x = push_bit 1 x XOR (if bit x 15 then 0x1021 else 0)"
proof -
  have "(0x8000 :: 16 word) = 2 ^ 15" by simp
  then have "x AND 0x8000 \<noteq> 0 \<longleftrightarrow> bit x 15"
    by (simp only: and_exp_eq_0_iff_not_bit not_not)
  then show ?thesis by (simp add: crc_shift_def)
qed

lemma crc_shift_xor: "crc_shift (x XOR y) = crc_shift x XOR crc_shift y"
  by (simp add: crc_shift_bit bit_simps push_bit_xor xor.assoc xor.left_commute)

lemma crc_shifts_xor: "(crc_shift ^^ n) (x XOR y) = (crc_shift ^^ n) x XOR (crc_shift ^^ n) y"
  by (induction n) (simp_all add: crc_shift_xor)

lemma bit_crc_shift:
  "n < 16 \<Longrightarrow> bit (crc_shift x) n \<longleftrightarrow>
     (1 \<le> n \<and> bit x (n - 1)) \<noteq> (bit x 15 \<and> bit (0x1021 :: 16 word) n)"
  unfolding crc_shift_bit bit_xor_iff bit_push_bit_iff by (simp add: impossible_bit)

text \<open>Bits that never reach the top position are only shifted.\<close>

lemma crc_shift_low: "\<not> bit x 15 \<Longrightarrow> crc_shift x = push_bit 1 x"
  by (simp only: crc_shift_bit if_False xor.right_neutral)

lemma crc_shifts_low:
  assumes "k \<le> 8" and "\<And>i. 8 \<le> i \<Longrightarrow> \<not> bit x i"
  shows "(crc_shift ^^ k) x = push_bit k x"
  using assms(1)
proof (induction k)
  case (Suc k)
  have "\<not> bit (push_bit k x) 15" using assms(2) [of "15 - k"] Suc.prems by (simp add: bit_simps)
  then have "crc_shift (push_bit k x) = push_bit 1 (push_bit k x)" by (rule crc_shift_low)
  also have "\<dots> = push_bit (Suc k) x" by (simp only: push_bit_push_bit plus_1_eq_Suc)
  finally show ?case using Suc by simp
qed simp

lemma of_char_bit: "bit (of_char c :: 16 word) i \<longleftrightarrow> i < 8 \<and> bit (of_char c :: nat) i"
proof -
  have "(of_char c :: nat) < 2 ^ 8" by simp
  then have "take_bit 8 (of_char c :: nat) = of_char c" by (rule take_bit_nat_eq_self)
  then have "i < 8" if "bit (of_char c :: nat) i" using that by (metis bit_take_bit_iff)
  moreover have "bit (of_char c :: 16 word) i \<longleftrightarrow> i < 16 \<and> bit (of_char c :: nat) i"
  proof -
    have "(of_char c :: 16 word) = word_of_int (of_char c)" by (simp only: of_int_of_char)
    moreover have "bit (of_char c :: int) i = bit (of_char c :: nat) i"
      unfolding of_nat_of_char [symmetric, where ?'a = int] by (simp only: bit_of_nat_iff_bit)
    ultimately show ?thesis by (simp add: bit_word_of_int_iff del: of_int_of_char)
  qed
  ultimately show ?thesis by auto
qed

lemma crc_index_less: "crc_index crc byte < 256"
proof -
  let ?w = "drop_bit 8 crc XOR of_char byte :: 16 word"
  have "take_bit 8 ?w = ?w"
    by (rule bit_word_eqI) (auto simp: bit_simps of_char_bit dest: bit_imp_le_length)
  then have "unat ?w < 2 ^ 8" by (metis take_bit_nat_less_exp unsigned_take_bit_eq)
  then show ?thesis by (simp add: crc_index_def)
qed

lemma crc_step_eq: "crc_step crc byte = (crc_shift ^^ 8) (crc XOR push_bit 8 (of_char byte))"
proof -
  let ?w = "drop_bit 8 crc XOR of_char byte"
  have "crc XOR push_bit 8 (of_char byte) = push_bit 8 ?w XOR take_bit 8 crc"
    by (rule bit_word_eqI) (auto simp: bit_simps)
  moreover have "(crc_shift ^^ 8) (take_bit 8 crc) = push_bit 8 crc"
    by (subst crc_shifts_low) (auto simp: bit_simps intro!: bit_word_eqI)
  moreover have "CRC16_TABLE ! crc_index crc byte = (crc_shift ^^ 8) (push_bit 8 ?w)"
    using crc_index_less [of crc byte] by (simp add: CRC16_TABLE_def table_entry_def crc_index_def)
  ultimately show ?thesis by (simp add: crc_step_def crc_shifts_xor xor.commute)
qed

section \<open>The bit-serial reference\<close>

definition serial_bit :: "16 word \<Rightarrow> bool \<Rightarrow> 16 word" where
  "serial_bit crc b = push_bit 1 crc XOR (if bit crc 15 \<noteq> b then 0x1021 else 0)"

definition byte_bits :: "u8 \<Rightarrow> bool list" where
  "byte_bits c = map (\<lambda>i. bit (of_char c :: nat) (7 - i)) [0..<8]"

definition crc_serial :: "bytes \<Rightarrow> 16 word" where
  "crc_serial data = foldl serial_bit 0 (concat (map byte_bits data))"

text \<open>Up to sixteen bits, placed at the top of the register.\<close>

fun top_bits :: "bool list \<Rightarrow> 16 word" where
  "top_bits [] = 0"
| "top_bits (b # bs) = (if b then 2 ^ 15 else 0) XOR drop_bit 1 (top_bits bs)"

lemma bit_top_bits:
  "i < 16 \<Longrightarrow> bit (top_bits bs) i \<longleftrightarrow> 15 - i < length bs \<and> bs ! (15 - i)"
proof (induction bs arbitrary: i)
  case (Cons b bs)
  show ?case
  proof (cases "i = 15")
    case True
    then show ?thesis by (simp add: bit_simps impossible_bit del: power_numeral)
  next
    case False
    with Cons.prems have "i + 1 < 16" "15 - i = Suc (15 - (i + 1))" by simp_all
    with Cons.IH [of "i + 1"] False show ?thesis
      by (simp add: bit_simps del: power_numeral)
  qed
qed simp

lemma serial_bit_eq: "serial_bit crc b = crc_shift (crc XOR (if b then 2 ^ 15 else 0))"
proof -
  have "push_bit 1 (2 ^ 15 :: 16 word) = 0" by simp
  then show ?thesis
    by (cases b) (simp_all only: serial_bit_def crc_shift_bit push_bit_xor bit_xor_iff if_True if_False
        bit_exp_iff xor.right_neutral, simp_all)
qed

lemma serial_bits:
  "length bs \<le> 16 \<Longrightarrow> foldl serial_bit crc bs = (crc_shift ^^ length bs) (crc XOR top_bits bs)"
proof (induction bs arbitrary: crc)
  case (Cons b bs)
  have "crc_shift (drop_bit 1 (top_bits bs)) = top_bits bs"
    by (rule bit_word_eqI)
       (use Cons.prems in \<open>auto simp: bit_crc_shift bit_drop_bit_eq impossible_bit bit_top_bits\<close>)
  with Cons show ?case
    by (simp add: serial_bit_eq funpow_swap1 crc_shifts_xor crc_shift_xor xor.assoc del: power_numeral)
qed simp

lemma top_byte_bits: "top_bits (byte_bits c) = push_bit 8 (of_char c)"
  by (rule bit_word_eqI) (auto simp: bit_top_bits byte_bits_def bit_push_bit_iff of_char_bit)

lemma serial_byte: "foldl serial_bit crc (byte_bits c) = crc_step crc c"
proof -
  have "length (byte_bits c) = 8" by (simp add: byte_bits_def)
  with serial_bits [of "byte_bits c" crc] show ?thesis by (simp add: top_byte_bits crc_step_eq)
qed

lemma serial_bytes: "foldl serial_bit crc (concat (map byte_bits data)) = foldl crc_step crc data"
  by (induction data arbitrary: crc) (simp_all add: serial_byte)

section \<open>Hash tags\<close>

lemma extract_hash_tag_found:
  assumes "CHR 0x7B \<notin> set pre" "CHR 0x7D \<notin> set tag" "tag \<noteq> []"
  shows "extract_hash_tag (pre @ [CHR 0x7B] @ tag @ [CHR 0x7D] @ post) = tag"
  using assms by (simp add: extract_hash_tag_def position_append_left)

lemma position_split:
  assumes "position c xs = Some i"
  obtains "xs = take i xs @ [c] @ drop (i + 1) xs" "c \<notin> set (take i xs)"
  using position_Some [OF assms] that id_take_nth_drop [of i xs] by simp

lemma extract_hash_tag_cases:
  obtains (tag) pre tag post where "key = pre @ [CHR 0x7B] @ tag @ [CHR 0x7D] @ post"
      "CHR 0x7B \<notin> set pre" "CHR 0x7D \<notin> set tag" "tag \<noteq> []" "extract_hash_tag key = tag"
  | (whole) "extract_hash_tag key = key"
proof (cases "position CHR 0x7B key")
  case None
  then show ?thesis using whole by (simp add: extract_hash_tag_def)
next
  case (Some i)
  let ?r = "drop (i + 1) key"
  show ?thesis
  proof (cases "position CHR 0x7D ?r")
    case None
    then show ?thesis using Some whole by (simp add: extract_hash_tag_def)
  next
    case (Some j)
    show ?thesis
    proof (cases "j = 0")
      case True
      then show ?thesis using Some \<open>position CHR 0x7B key = Some i\<close> whole
        by (simp add: extract_hash_tag_def)
    next
      case False
      have "key = take i key @ [CHR 0x7B] @ take j ?r @ [CHR 0x7D] @ drop (j + 1) ?r"
        using position_split [OF \<open>position CHR 0x7B key = Some i\<close>] position_split [OF Some] by metis
      moreover have "extract_hash_tag key = take j ?r"
        using Some False \<open>position CHR 0x7B key = Some i\<close> by (simp add: extract_hash_tag_def)
      ultimately show ?thesis
        using tag position_Some [OF Some] position_Some [OF \<open>position CHR 0x7B key = Some i\<close>] False
        by (metis length_0_conv length_take less_imp_le_nat min.absorb2)
    qed
  qed
qed

lemma extract_hash_tag_no_close: "CHR 0x7D \<notin> set key \<Longrightarrow> extract_hash_tag key = key"
  by (auto simp: extract_hash_tag_def position_eq_None dest: in_set_dropD split: option.splits)
     (metis in_set_dropD option.distinct(1) position_eq_None)

lemma unat_hash_slot_less: "unat (hash_slot key) < 16384"
  by (simp add: hash_slot_def Let_def SLOT_COUNT_def unat_mod)

section \<open>Properties\<close>

text \<open>
  C30: The table-driven checksum is CRC16-XMODEM: it equals the bit-serial register of the
  polynomial 0x1021 run over all message bits, most significant first, for every input.
\<close>

theorem crc16_is_bit_serial: "crc16 data = crc_serial data"
  by (simp add: crc16_def crc_serial_def serial_bytes)

text \<open>
  Every table access of the checksum is in bounds, and every slot is below 16384.
\<close>

lemma crc16_in_bounds:
  "crc_index crc byte < length CRC16_TABLE \<and> unat (hash_slot key) < 16384"
  using crc_index_less unat_hash_slot_less by (simp add: CRC16_TABLE_def)

text \<open>
  Hash tags. When a key has a non-empty section between its first opening brace and the
  first closing brace after it, that section alone decides the slot, so all keys with the
  same tag live in one slot; the slot of the tag itself is the same.
\<close>

lemma hash_slot_of_tag:
  assumes "CHR 0x7B \<notin> set pre" "CHR 0x7D \<notin> set tag" "tag \<noteq> []"
  shows "extract_hash_tag (pre @ [CHR 0x7B] @ tag @ [CHR 0x7D] @ post) = tag \<and>
    hash_slot (pre @ [CHR 0x7B] @ tag @ [CHR 0x7D] @ post) = hash_slot tag"
  using extract_hash_tag_found [OF assms, of post] extract_hash_tag_no_close [OF assms(2)]
  by (simp add: hash_slot_def)

lemma hash_slot_of_tag_witness:
  "hash_slot (''user:'' @ [CHR 0x7B] @ ''42'' @ [CHR 0x7D] @ '':name'') = hash_slot ''42''"
  using hash_slot_of_tag [of "''user:''" "''42''" "'':name''"] by simp

end
