(* ===== verification/Cluster.thy ===== *)
theory Cluster
  imports Standalone Crc16 "HOL-Library.Multiset"
begin

text \<open>
  \<open>src/src/router/cluster.rs\<close>: the slot map, key extraction, and the cluster router with
  its redirects and pipelines. Slots and ports are natural numbers below \<open>2^16\<close>. The router's
  two locks protect single reads and writes of the node table and of the slot map, so its
  state is the pair of them. Every checkout of a connection draws its environment (times,
  outcome of dialing) from a script in the state; \<open>None\<close> means that the call still waits.
  The iteration order of a Rust \<open>HashMap\<close> is unspecified: it is the parameter \<open>order\<close>.
\<close>

section \<open>Commands and keys\<close>

definition read_only_commands :: "string list" where
  "read_only_commands =
     [''GET'', ''MGET'', ''KEYS'', ''SCAN'', ''TYPE'', ''TTL'', ''PTTL'', ''EXISTS'',
      ''STRLEN'', ''GETRANGE'', ''SUBSTR'', ''HGET'', ''HMGET'', ''HGETALL'', ''HKEYS'',
      ''HVALS'', ''HLEN'', ''HEXISTS'', ''HSCAN'', ''HRANDFIELD'', ''LRANGE'', ''LLEN'',
      ''LINDEX'', ''LPOS'', ''SMEMBERS'', ''SCARD'', ''SISMEMBER'', ''SMISMEMBER'',
      ''SRANDMEMBER'', ''SSCAN'', ''SUNION'', ''SINTER'', ''SDIFF'', ''ZRANGE'',
      ''ZRANGEBYSCORE'', ''ZRANGEBYLEX'', ''ZREVRANGE'', ''ZREVRANGEBYSCORE'',
      ''ZREVRANGEBYLEX'', ''ZCARD'', ''ZSCORE'', ''ZMSCORE'', ''ZCOUNT'', ''ZLEXCOUNT'',
      ''ZRANK'', ''ZREVRANK'', ''ZRANDMEMBER'', ''ZSCAN'', ''XRANGE'', ''XREVRANGE'', ''XLEN'',
      ''XREAD'', ''XINFO'', ''OBJECT'', ''DEBUG'', ''BITCOUNT'', ''BITPOS'', ''GETBIT'',
      ''PFCOUNT'', ''GEODIST'', ''GEOHASH'', ''GEOPOS'', ''GEORADIUS_RO'',
      ''GEORADIUSBYMEMBER_RO'', ''GEOSEARCH'', ''GRAPH.RO_QUERY'']"

definition is_read_only_command :: "string \<Rightarrow> bool" where
  "is_read_only_command cmd \<longleftrightarrow> to_ascii_uppercase cmd \<in> set read_only_commands"

definition keyless_commands :: "string list" where
  "keyless_commands =
     [''PING'', ''INFO'', ''DBSIZE'', ''CLUSTER'', ''CONFIG'', ''CLIENT'', ''COMMAND'',
      ''TIME'', ''RANDOMKEY'', ''WAIT'', ''SAVE'', ''BGSAVE'', ''BGREWRITEAOF'', ''FLUSHALL'',
      ''FLUSHDB'', ''LASTSAVE'', ''SLOWLOG'', ''DEBUG'', ''MULTI'', ''EXEC'', ''DISCARD'',
      ''SCRIPT'', ''SUBSCRIBE'', ''UNSUBSCRIBE'', ''PSUBSCRIBE'', ''PUNSUBSCRIBE'', ''QUIT'']"

text \<open>\<open>args.iter().enumerate()\<close>: the argument after the first STREAMS that has one.\<close>

fun after_streams :: "string list \<Rightarrow> string option" where
  "after_streams (a # b # rest) =
     (if eq_ignore_ascii_case a ''STREAMS'' then Some b else after_streams (b # rest))"
| "after_streams _ = None"

definition extract_key :: "string list \<Rightarrow> string option" where
  "extract_key args =
     (case args of
        [] \<Rightarrow> None
      | cmd0 # params \<Rightarrow>
          (let cmd = to_ascii_uppercase cmd0 in
           if cmd \<in> set keyless_commands then None
           else if cmd = ''EVAL'' \<or> cmd = ''EVALSHA'' then
             (if 4 \<le> length args then
                (case parse_usize (args ! 2) of
                   Some numkeys \<Rightarrow> if 0 < numkeys \<and> 3 < length args then Some (args ! 3) else None
                 | None \<Rightarrow> None)
              else None)
           else if cmd = ''XREAD'' \<or> cmd = ''XREADGROUP'' then after_streams args
           else (case params of key # _ \<Rightarrow> Some key | [] \<Rightarrow> None)))"

section \<open>Slot map\<close>

record SlotRange =
  range_start :: nat
  range_end :: nat
  range_master :: string
  range_replicas :: "string list"

datatype ordering = Less | Equal | Greater

definition slot_cmp :: "nat \<Rightarrow> SlotRange \<Rightarrow> ordering" where
  "slot_cmp slot r = (if slot < range_start r then Greater else if range_end r < slot then Less else Equal)"

text \<open>
  \<open>slice::binary_search_by\<close>: halve the interval \<open>[left, right)\<close> until the probe answers
  \<open>Equal\<close> or the interval is empty. Only the index of a hit is used.
\<close>

function binary_search_by :: "('a \<Rightarrow> ordering) \<Rightarrow> 'a list \<Rightarrow> nat \<Rightarrow> nat \<Rightarrow> nat option" where
  "binary_search_by f xs left right =
     (if left < right then
        (let mid = left + (right - left) div 2 in
         case f (xs ! mid) of
           Less \<Rightarrow> binary_search_by f xs (mid + 1) right
         | Greater \<Rightarrow> binary_search_by f xs left mid
         | Equal \<Rightarrow> Some mid)
      else None)"
  by pat_completeness auto
termination
  by (relation "measure (\<lambda>(f, xs, left, right). right - left)") auto

declare binary_search_by.simps [simp del]

definition find_range :: "SlotRange list \<Rightarrow> nat \<Rightarrow> nat option" where
  "find_range ranges slot = binary_search_by (slot_cmp slot) ranges 0 (length ranges)"

definition master_for_slot :: "SlotRange list \<Rightarrow> nat \<Rightarrow> string option" where
  "master_for_slot ranges slot = map_option (\<lambda>i. range_master (ranges ! i)) (find_range ranges slot)"

definition replica_for_slot :: "SlotRange list \<Rightarrow> nat \<Rightarrow> string option" where
  "replica_for_slot ranges slot =
     map_option (\<lambda>i.
       let range = ranges ! i in
       if range_replicas range = [] then range_master range
       else range_replicas range ! (slot mod length (range_replicas range))) (find_range ranges slot)"

definition update_slot_master :: "SlotRange list \<Rightarrow> nat \<Rightarrow> string \<Rightarrow> SlotRange list" where
  "update_slot_master ranges slot addr =
     (case find_range ranges slot of
        Some i \<Rightarrow> ranges[i := (ranges ! i)\<lparr>range_master := addr\<rparr>]
      | None \<Rightarrow> ranges)"

definition parse_node_addr :: "RespValue \<Rightarrow> string res" where
  "parse_node_addr val =
     (case val of
        Array items \<Rightarrow>
          if length items < 2 then Err (Cluster ''CLUSTER SLOTS: node array too short'')
          else
            and_then (ok_or (Cluster ''CLUSTER SLOTS: invalid host'') (as_str (items ! 0))) (\<lambda>h.
            and_then (ok_or (Cluster ''CLUSTER SLOTS: invalid port'') (as_int (items ! 1))) (\<lambda>p.
            Ok (h @ '':'' @ decimal_int p)))
      | _ \<Rightarrow> Err (Cluster ''CLUSTER SLOTS: expected node array''))"

text \<open>\<open>as u16\<close> on an \<open>i64\<close> keeps the low sixteen bits.\<close>

definition as_u16 :: "int \<Rightarrow> nat" where
  "as_u16 i = nat (i mod 65536)"

definition ok_list :: "'a res \<Rightarrow> 'a list" where
  "ok_list r = (case r of Ok x \<Rightarrow> [x] | _ \<Rightarrow> [])"

fun parse_slot_entries :: "RespValue list \<Rightarrow> SlotRange list \<Rightarrow> SlotRange list res" where
  "parse_slot_entries [] ranges = Ok ranges"
| "parse_slot_entries (entry # entries) ranges =
     (case entry of
        Array items \<Rightarrow>
          if length items < 3 then parse_slot_entries entries ranges
          else
            and_then (ok_or (Cluster ''CLUSTER SLOTS: invalid slot start'') (as_int (items ! 0))) (\<lambda>s.
            and_then (ok_or (Cluster ''CLUSTER SLOTS: invalid slot end'') (as_int (items ! 1))) (\<lambda>e.
            and_then (parse_node_addr (items ! 2)) (\<lambda>master.
            let replicas = concat (map (\<lambda>node. ok_list (parse_node_addr node)) (drop 3 items)) in
            parse_slot_entries entries
              (ranges @ [\<lparr>range_start = as_u16 s, range_end = as_u16 e, range_master = master,
                          range_replicas = replicas\<rparr>]))))
      | _ \<Rightarrow> parse_slot_entries entries ranges)"

definition from_cluster_slots :: "RespValue \<Rightarrow> SlotRange list res" where
  "from_cluster_slots resp =
     (case resp of
        Array slots \<Rightarrow> and_then (parse_slot_entries slots []) (\<lambda>ranges. Ok (sort_key range_start ranges))
      | _ \<Rightarrow> Err (Cluster (''CLUSTER SLOTS: expected array, got '' @ quoted (type_name resp))))"

section \<open>The router\<close>

definition MAX_REDIRECTS :: nat where "MAX_REDIRECTS = 5"

record ClusterRouter =
  nodes :: "(string \<times> ConnectionPool) list"
  slot_map :: "SlotRange list"
  cluster_config :: ConnectionConfig
  read_from_replicas :: bool
  env_script :: "call_env list"

type_synonym 'a cluster_io = "ClusterRouter \<Rightarrow> ('a res \<times> ClusterRouter) option"

definition cl_return :: "'a res \<Rightarrow> 'a cluster_io" where
  "cl_return r s = Some (r, s)"

definition cl_bind :: "'a cluster_io \<Rightarrow> ('a \<Rightarrow> 'b cluster_io) \<Rightarrow> 'b cluster_io" where
  "cl_bind m f s =
     (case m s of
        None \<Rightarrow> None
      | Some (Ok x, s') \<Rightarrow> f x s'
      | Some (Err e, s') \<Rightarrow> Some (Err e, s')
      | Some (Panic, s') \<Rightarrow> Some (Panic, s'))"

text \<open>
  \<open>ensure_pool_for\<close>: \<open>rsplitn(2, ':')\<close> yields two parts exactly when there is a colon, the
  port first. \<open>node_pool_config\<close> is the configuration of the pool it inserts.
\<close>

definition node_pool_config :: "ConnectionConfig \<Rightarrow> string \<Rightarrow> ConnectionConfig option" where
  "node_pool_config config addr =
     (case rsplit_once CHR '':'' addr of
        Some (h, p) \<Rightarrow> Some (config\<lparr>cfg_host := h, cfg_port := unwrap_or 6379 (parse_u16 p), cfg_db := 0\<rparr>)
      | None \<Rightarrow> None)"

definition ensure_pool_for :: "ConnectionConfig \<Rightarrow> (string \<times> ConnectionPool) list \<Rightarrow> string \<Rightarrow> (string \<times> ConnectionPool) list" where
  "ensure_pool_for config ns addr =
     (if map_of ns addr \<noteq> None then ns
      else case node_pool_config config addr of
        Some cfg \<Rightarrow> (addr, pool_new cfg) # ns
      | None \<Rightarrow> ns)"

text \<open>
  \<open>get_pool\<close> returns a shared pool of the table, or, for an address without a colon, a
  pool of its own that lives as long as the guard.
\<close>

definition get_pool :: "string \<Rightarrow> ClusterRouter \<Rightarrow> ConnectionPool \<times> ClusterRouter" where
  "get_pool addr s =
     (let ns = ensure_pool_for (cluster_config s) (nodes s) addr in
      (unwrap_or (pool_new (cluster_config s)) (map_of ns addr), s\<lparr>nodes := ns\<rparr>))"

text \<open>Write a pool back to the table, if it is in the table.\<close>

definition put_pool :: "string \<Rightarrow> ConnectionPool \<Rightarrow> ClusterRouter \<Rightarrow> ClusterRouter" where
  "put_pool addr pool s = s\<lparr>nodes := map (\<lambda>(a, p). if a = addr then (a, pool) else (a, p)) (nodes s)\<rparr>"

definition current_pool :: "string \<Rightarrow> ClusterRouter \<Rightarrow> ConnectionPool" where
  "current_pool addr s = unwrap_or (pool_new (cluster_config s)) (map_of (nodes s) addr)"

text \<open>\<open>get_pool(addr).get().await?\<close> and the drop of the guard it returns.\<close>

definition node_get :: "crates \<Rightarrow> string \<Rightarrow> (RedisConnection \<times> nat) cluster_io" where
  "node_get C addr s =
     (case env_script s of
        [] \<Rightarrow> None
      | env # envs \<Rightarrow>
          (let (pool, s) = get_pool addr (s\<lparr>env_script := envs\<rparr>) in
           case pool_get C (at_get env) (dialing env) pool of
             None \<Rightarrow> None
           | Some (Ok conn, pool) \<Rightarrow> Some (Ok (conn, at_drop env), put_pool addr pool s)
           | Some (Err e, pool) \<Rightarrow> Some (Err e, put_pool addr pool s)
           | Some (Panic, pool) \<Rightarrow> Some (Panic, put_pool addr pool s)))"

definition node_drop :: "string \<Rightarrow> nat \<Rightarrow> RedisConnection \<Rightarrow> ClusterRouter \<Rightarrow> ClusterRouter" where
  "node_drop addr t conn s = put_pool addr (guard_drop t (Some conn) (current_pool addr s)) s"

text \<open>A guard whose whole use is one sequence of connection operations.\<close>

definition on_node :: "crates \<Rightarrow> string \<Rightarrow> 'a conn_io \<Rightarrow> 'a cluster_io" where
  "on_node C addr body =
     cl_bind (node_get C addr) (\<lambda>(conn, t) s.
       case body conn of
         None \<Rightarrow> None
       | Some (r, conn) \<Rightarrow> Some (r, node_drop addr t conn s))"

text \<open>The ASK redirect: ASKING, its reply, the command, its reply.\<close>

definition ask_node :: "crates \<Rightarrow> string \<Rightarrow> string list \<Rightarrow> RespValue cluster_io" where
  "ask_node C addr args =
     on_node C addr
       (io_bind (send_raw (encode_command_str C [''ASKING''])) (\<lambda>_.
        io_bind (read_response C) (\<lambda>_.
        io_bind (send_raw (encode_command_str C args)) (\<lambda>_.
        read_response C))))"

definition update_map :: "nat \<Rightarrow> string \<Rightarrow> ClusterRouter \<Rightarrow> ClusterRouter" where
  "update_map slot addr s = s\<lparr>slot_map := update_slot_master (slot_map s) slot addr\<rparr>"

text \<open>The kind of redirect in a reply, if the reply is a simple error.\<close>

definition reply_kind :: "RespValue \<Rightarrow> (RedisErrorKind \<times> string) option" where
  "reply_kind v = (case v of Error msg \<Rightarrow> Some (fst (from_error_msg msg), msg) | _ \<Rightarrow> None)"

fun execute_on :: "crates \<Rightarrow> nat \<Rightarrow> string \<Rightarrow> string list \<Rightarrow> RespValue cluster_io" where
  "execute_on C redirects_left addr args =
     cl_bind (on_node C addr
       (io_bind (send_raw (encode_command_str C args)) (\<lambda>_. read_response C))) (\<lambda>result s.
     case reply_kind result of
       Some (Moved slot new_addr, msg) \<Rightarrow>
         (case redirects_left of
            0 \<Rightarrow> Some (Err (Cluster ''too many MOVED redirects''), s)
          | Suc n \<Rightarrow> execute_on C n new_addr args (update_map slot new_addr s))
     | Some (Ask slot new_addr, msg) \<Rightarrow>
         (case redirects_left of
            0 \<Rightarrow> Some (Err (Cluster ''too many ASK redirects''), s)
          | Suc n \<Rightarrow> ask_node C new_addr args s)
     | Some (ClusterDown, msg) \<Rightarrow> Some (Err (Cluster msg), s)
     | Some (TryAgain, msg) \<Rightarrow>
         (case redirects_left of
            0 \<Rightarrow> Some (Err (redis_error msg), s)
          | Suc n \<Rightarrow> execute_on C n addr args s)
     | _ \<Rightarrow> Some (Ok result, s))"

declare execute_on.simps [simp del]

text \<open>The target of a command: the node of its slot, or any master for a command without key.\<close>

definition target_addr :: "ClusterRouter \<Rightarrow> string list \<Rightarrow> string" where
  "target_addr s args =
     (case extract_key args of
        Some key \<Rightarrow>
          (let slot = unat (hash_slot key);
               is_read = (args \<noteq> [] \<and> is_read_only_command (args ! 0)) in
           if is_read \<and> read_from_replicas s then
             unwrap_or (unwrap_or [] (master_for_slot (slot_map s) slot)) (replica_for_slot (slot_map s) slot)
           else unwrap_or [] (master_for_slot (slot_map s) slot))
      | None \<Rightarrow> (case slot_map s of r # _ \<Rightarrow> range_master r | [] \<Rightarrow> []))"

definition execute_routed :: "crates \<Rightarrow> string list \<Rightarrow> RespValue cluster_io" where
  "execute_routed C args s =
     (if args = [] then Some (Err (Protocol ''empty command''), s)
      else let addr = target_addr s args in
        if addr = [] then Some (Err (Cluster ''no node available for command''), s)
        else execute_on C MAX_REDIRECTS addr args s)"

section \<open>Pipelines\<close>

type_synonym command_group = "(nat \<times> string list) list"

text \<open>\<open>groups.entry(addr).or_default().push((idx, cmd))\<close>.\<close>

fun push_group :: "string \<Rightarrow> nat \<times> string list \<Rightarrow> (string \<times> command_group) list \<Rightarrow> (string \<times> command_group) list" where
  "push_group addr item [] = [(addr, [item])]"
| "push_group addr item ((a, g) # groups) =
     (if a = addr then (a, g @ [item]) # groups else (a, g) # push_group addr item groups)"

fun group_commands :: "ClusterRouter \<Rightarrow> nat \<Rightarrow> string list list \<Rightarrow> (string \<times> command_group) list \<Rightarrow> (string \<times> command_group) list" where
  "group_commands s idx [] groups = groups"
| "group_commands s idx (cmd_args # commands) groups =
     group_commands s (idx + 1) commands (push_group (target_addr s cmd_args) (idx, cmd_args) groups)"

fun send_group :: "crates \<Rightarrow> command_group \<Rightarrow> unit conn_io" where
  "send_group C [] = io_return (Ok ())"
| "send_group C ((idx, cmd_args) # grp) =
     io_bind (send_raw (encode_command_str C cmd_args)) (\<lambda>_. send_group C grp)"

type_synonym replies = "RespValue option list"

text \<open>
  The reading loop of one group. The connection of the group stays checked out while a
  redirected command runs on its new node.
\<close>

fun read_group :: "crates \<Rightarrow> command_group \<Rightarrow> replies \<Rightarrow> RedisConnection \<Rightarrow> ClusterRouter
    \<Rightarrow> (replies res \<times> RedisConnection \<times> ClusterRouter) option" where
  "read_group C [] results conn s = Some (Ok results, conn, s)"
| "read_group C ((idx, cmd_args) # grp) results conn s =
     (case read_response C conn of
        None \<Rightarrow> None
      | Some (Err e, conn) \<Rightarrow> Some (Err e, conn, s)
      | Some (Panic, conn) \<Rightarrow> Some (Panic, conn, s)
      | Some (Ok resp, conn) \<Rightarrow>
          (case (case reply_kind resp of
                   Some (Moved slot new_addr, msg) \<Rightarrow>
                     execute_on C (MAX_REDIRECTS - 1) new_addr cmd_args (update_map slot new_addr s)
                 | Some (Ask slot new_addr, msg) \<Rightarrow> ask_node C new_addr cmd_args s
                 | _ \<Rightarrow> Some (Ok resp, s)) of
             None \<Rightarrow> None
           | Some (Err e, s) \<Rightarrow> Some (Err e, conn, s)
           | Some (Panic, s) \<Rightarrow> Some (Panic, conn, s)
           | Some (Ok v, s) \<Rightarrow> read_group C grp (results[idx := Some v]) conn s))"

definition run_group :: "crates \<Rightarrow> string \<times> command_group \<Rightarrow> replies \<Rightarrow> replies cluster_io" where
  "run_group C ag results =
     (let (addr, grp) = ag in
      if addr = [] then
        cl_return (Ok (foldl (\<lambda>rs (idx, _). rs[idx := Some (Error ''no node for slot'')]) results grp))
      else
        cl_bind (node_get C addr) (\<lambda>(conn, t) s.
          case send_group C grp conn of
            None \<Rightarrow> None
          | Some (Err e, conn) \<Rightarrow> Some (Err e, node_drop addr t conn s)
          | Some (Panic, conn) \<Rightarrow> Some (Panic, node_drop addr t conn s)
          | Some (Ok _, conn) \<Rightarrow>
              (case read_group C grp results conn s of
                 None \<Rightarrow> None
               | Some (r, conn, s) \<Rightarrow> Some (r, node_drop addr t conn s))))"

fun run_groups :: "crates \<Rightarrow> (string \<times> command_group) list \<Rightarrow> replies \<Rightarrow> replies cluster_io" where
  "run_groups C [] results = cl_return (Ok results)"
| "run_groups C (ag # groups) results = cl_bind (run_group C ag results) (run_groups C groups)"

definition cluster_pipeline ::
    "crates \<Rightarrow> ((string \<times> command_group) list \<Rightarrow> (string \<times> command_group) list) \<Rightarrow> string list list
     \<Rightarrow> RespValue list cluster_io" where
  "cluster_pipeline C order commands s =
     (let groups = group_commands s 0 commands [] in
      cl_bind (run_groups C (order groups) (replicate (length commands) None))
        (\<lambda>results. cl_return (Ok (map (unwrap_or Null) results))) s)"

section \<open>Topology refresh\<close>

definition ensure_pools :: "ConnectionConfig \<Rightarrow> SlotRange list \<Rightarrow> (string \<times> ConnectionPool) list \<Rightarrow> (string \<times> ConnectionPool) list" where
  "ensure_pools config ranges ns =
     foldl (\<lambda>ns range. foldl (ensure_pool_for config) (ensure_pool_for config ns (range_master range))
       (range_replicas range)) ns ranges"

definition refresh_slots_from :: "crates \<Rightarrow> string \<Rightarrow> unit cluster_io" where
  "refresh_slots_from C addr s =
     (case env_script s of
        [] \<Rightarrow> None
      | env # envs \<Rightarrow>
          (let s = s\<lparr>env_script := envs\<rparr>; config = cluster_config s in
           case connect_timeout_with_max_buf (dialing env) addr (cfg_connect_timeout_ms config)
                  (cfg_max_buffer_size config) of
             Err e \<Rightarrow> Some (Err e, s)
           | Panic \<Rightarrow> Some (Panic, s)
           | Ok conn \<Rightarrow>
               (case io_bind (init C (cfg_username config) (cfg_password config) 0)
                       (\<lambda>_. execute_str C [''CLUSTER'', ''SLOTS'']) conn of
                  None \<Rightarrow> None
                | Some (Err e, _) \<Rightarrow> Some (Err e, s)
                | Some (Panic, _) \<Rightarrow> Some (Panic, s)
                | Some (Ok resp, _) \<Rightarrow>
                    (case from_cluster_slots resp of
                       Err e \<Rightarrow> Some (Err e, s)
                     | Panic \<Rightarrow> Some (Panic, s)
                     | Ok new_map \<Rightarrow>
                         Some (Ok (), s\<lparr>nodes := ensure_pools config new_map (nodes s), slot_map := new_map\<rparr>)))))"

text \<open>Try the seeds in order; keep the last error if none works.\<close>

fun try_seeds :: "crates \<Rightarrow> (string \<times> nat) list \<Rightarrow> PyrsedisError option \<Rightarrow> PyrsedisError option cluster_io" where
  "try_seeds C [] last_err = cl_return (Ok last_err)"
| "try_seeds C ((h, p) # seeds) last_err = (\<lambda>s.
     case refresh_slots_from C (h @ '':'' @ decimal p) s of
        None \<Rightarrow> None
      | Some (Ok _, s) \<Rightarrow> Some (Ok None, s)
      | Some (Err e, s) \<Rightarrow> try_seeds C seeds (Some e) s
      | Some (Panic, s) \<Rightarrow> Some (Panic, s))"

definition cluster_new :: "crates \<Rightarrow> (string \<times> nat) list \<Rightarrow> ConnectionConfig \<Rightarrow> bool \<Rightarrow> call_env list
    \<Rightarrow> ClusterRouter res option" where
  "cluster_new C seeds config replicas envs =
     (if seeds = [] then Some (Err (Cluster ''at least one seed node is required''))
      else case try_seeds C seeds None
             \<lparr>nodes = [], slot_map = [], cluster_config = config, read_from_replicas = replicas, env_script = envs\<rparr> of
        None \<Rightarrow> None
      | Some (Ok (Some e), s) \<Rightarrow> Some (Err (Cluster (''could not connect to any seed node: '' @ display_error e)))
      | Some (Ok None, s) \<Rightarrow> Some (Ok s)
      | Some (Err e, s) \<Rightarrow> Some (Err e)
      | Some (Panic, s) \<Rightarrow> Some Panic)"

text \<open>
  The background task: on every tick it asks the first node of the map for the topology, in
  the iteration order \<open>order\<close> of the hash map, and ignores errors. The loop runs as long as
  the router lives, here for a number of ticks.
\<close>

definition refresh_tick :: "crates \<Rightarrow> (string list \<Rightarrow> string list) \<Rightarrow> unit cluster_io" where
  "refresh_tick C order s =
     (case order (map fst (nodes s)) of
        [] \<Rightarrow> Some (Ok (), s)
      | addr # _ \<Rightarrow>
          (case refresh_slots_from C addr s of
             None \<Rightarrow> None
           | Some (Panic, s) \<Rightarrow> Some (Panic, s)
           | Some (_, s) \<Rightarrow> Some (Ok (), s)))"

fun refresh_ticks :: "crates \<Rightarrow> (string list \<Rightarrow> string list) \<Rightarrow> nat \<Rightarrow> unit cluster_io" where
  "refresh_ticks C order 0 = cl_return (Ok ())"
| "refresh_ticks C order (Suc n) = cl_bind (refresh_tick C order) (\<lambda>_. refresh_ticks C order n)"

definition cluster_pool_idle_count :: "ClusterRouter \<Rightarrow> nat" where
  "cluster_pool_idle_count s = sum_list (map (\<lambda>(_, p). idle_count p) (nodes s))"

definition cluster_pool_available :: "ClusterRouter \<Rightarrow> nat" where
  "cluster_pool_available s = sum_list (map (\<lambda>(_, p). available p) (nodes s))"

section \<open>Slot lookup\<close>

text \<open>A well-formed slot map: non-empty ranges, in order, without overlap.\<close>

definition wf_slots :: "SlotRange list \<Rightarrow> bool" where
  "wf_slots ranges \<longleftrightarrow>
     list_all (\<lambda>r. range_start r \<le> range_end r) ranges \<and>
     sorted_wrt (\<lambda>r r'. range_end r < range_start r') ranges"

definition covers :: "SlotRange \<Rightarrow> nat \<Rightarrow> bool" where
  "covers r slot \<longleftrightarrow> range_start r \<le> slot \<and> slot \<le> range_end r"

lemma slot_cmp_Equal: "slot_cmp slot r = Equal \<longleftrightarrow> covers r slot"
  by (auto simp: slot_cmp_def covers_def)

lemma wf_slots_nth:
  assumes "wf_slots ranges" "i < j" "j < length ranges"
  shows "range_end (ranges ! i) < range_start (ranges ! j)" "range_start (ranges ! i) \<le> range_end (ranges ! i)"
    "range_start (ranges ! j) \<le> range_end (ranges ! j)"
  using assms sorted_wrt_nth_less [of "\<lambda>r r'. range_end r < range_start r'" ranges i j]
  by (auto simp: wf_slots_def list_all_length)

text \<open>A probe that misses rules out its side of the list.\<close>

lemma probe_Less:
  assumes "wf_slots ranges" "m < length ranges" "slot_cmp slot (ranges ! m) = Less"
    and "i < length ranges" "covers (ranges ! i) slot"
  shows "m < i"
proof (rule ccontr)
  assume "\<not> m < i"
  with assms wf_slots_nth [OF assms(1), of i m] show False
    by (cases "i = m") (auto simp: slot_cmp_def covers_def split: if_splits)
qed

lemma probe_Greater:
  assumes "wf_slots ranges" "m < length ranges" "slot_cmp slot (ranges ! m) = Greater"
    and "i < length ranges" "covers (ranges ! i) slot"
  shows "i < m"
proof (rule ccontr)
  assume "\<not> i < m"
  with assms wf_slots_nth [OF assms(1), of m i] show False
    by (cases "i = m") (auto simp: slot_cmp_def covers_def split: if_splits)
qed

lemma binary_search_result:
  assumes "wf_slots ranges" "right \<le> length ranges"
    and "\<And>i. i < length ranges \<Longrightarrow> covers (ranges ! i) slot \<Longrightarrow> left \<le> i \<and> i < right"
  shows "case binary_search_by (slot_cmp slot) ranges left right of
      Some i \<Rightarrow> i < length ranges \<and> covers (ranges ! i) slot
    | None \<Rightarrow> \<forall>i < length ranges. \<not> covers (ranges ! i) slot"
  using assms(2,3)
proof (induction "right - left" arbitrary: left right rule: less_induct)
  case less
  show ?case
  proof (cases "left < right")
    case False
    with less.prems(2) show ?thesis by (subst binary_search_by.simps) fastforce
  next
    case True
    let ?m = "left + (right - left) div 2"
    have m: "?m < right" "left \<le> ?m" "?m < length ranges" using True less.prems(1) by auto
    show ?thesis
    proof (cases "slot_cmp slot (ranges ! ?m)")
      case Less
      have "case binary_search_by (slot_cmp slot) ranges (?m + 1) right of
          Some i \<Rightarrow> i < length ranges \<and> covers (ranges ! i) slot
        | None \<Rightarrow> \<forall>i < length ranges. \<not> covers (ranges ! i) slot"
        using less.prems m probe_Less [OF assms(1) m(3) Less]
        by (intro less.hyps) (auto simp: Suc_le_eq)
      with True Less show ?thesis by (subst binary_search_by.simps) (simp add: Let_def)
    next
      case Greater
      have "case binary_search_by (slot_cmp slot) ranges left ?m of
          Some i \<Rightarrow> i < length ranges \<and> covers (ranges ! i) slot
        | None \<Rightarrow> \<forall>i < length ranges. \<not> covers (ranges ! i) slot"
        using less.prems m probe_Greater [OF assms(1) m(3) Greater]
        by (intro less.hyps) auto
      with True Greater show ?thesis by (subst binary_search_by.simps) (simp add: Let_def)
    next
      case Equal
      then have "covers (ranges ! ?m) slot" by (simp add: slot_cmp_Equal)
      with Equal True m show ?thesis by (subst binary_search_by.simps) (simp add: Let_def)
    qed
  qed
qed

lemma covers_unique:
  assumes "wf_slots ranges" "i < length ranges" "j < length ranges"
    and "covers (ranges ! i) slot" "covers (ranges ! j) slot"
  shows "i = j"
  using assms wf_slots_nth [OF assms(1), of i j] wf_slots_nth [OF assms(1), of j i]
  by (cases i j rule: linorder_cases) (auto simp: covers_def)

lemma find_range_iff:
  assumes "wf_slots ranges"
  shows "find_range ranges slot = Some i \<longleftrightarrow> i < length ranges \<and> covers (ranges ! i) slot"
  using binary_search_result [OF assms order_refl, of slot 0] covers_unique [OF assms]
  by (auto simp: find_range_def split: option.split_asm)

lemma master_for_slot_iff:
  assumes "wf_slots ranges"
  shows "master_for_slot ranges slot = Some a \<longleftrightarrow> (\<exists>r \<in> set ranges. covers r slot \<and> range_master r = a)"
  by (auto simp: master_for_slot_def find_range_iff [OF assms] in_set_conv_nth) (use nth_mem in blast)

text \<open>The replica of a range a read goes to: they take turns by slot, and the master stands in for none.\<close>

definition replica_choice :: "nat \<Rightarrow> string \<Rightarrow> string list \<Rightarrow> string" where
  "replica_choice slot m rs = (if rs = [] then m else rs ! (slot mod length rs))"

lemma replica_for_slot_iff:
  assumes "wf_slots ranges"
  shows "replica_for_slot ranges slot = Some a \<longleftrightarrow>
    (\<exists>r \<in> set ranges. covers r slot \<and> replica_choice slot (range_master r) (range_replicas r) = a)"
  by (auto simp: replica_for_slot_def replica_choice_def Let_def find_range_iff [OF assms] in_set_conv_nth split: if_splits)
     (use nth_mem in blast)+

lemma wf_slots_update:
  assumes "wf_slots ranges"
  shows "wf_slots (ranges[i := (ranges ! i)\<lparr>range_master := a\<rparr>])"
proof (cases "i < length ranges")
  case True
  then show ?thesis
    using assms wf_slots_nth [OF assms]
    by (auto simp: wf_slots_def list_all_length sorted_wrt_iff_nth_less nth_list_update)
qed (simp add: assms list_update_beyond)

lemma covers_update: "covers (r\<lparr>range_master := a\<rparr>) slot = covers r slot"
  by (simp add: covers_def)

lemma update_slot_master_lookup:
  assumes "wf_slots ranges" "r \<in> set ranges" "covers r slot"
  shows "master_for_slot (update_slot_master ranges slot a) slot' =
    (if covers r slot' then Some a else master_for_slot ranges slot')"
proof -
  from assms(2) obtain i where i: "i < length ranges" "ranges ! i = r" by (auto simp: in_set_conv_nth)
  with assms have f: "find_range ranges slot = Some i" by (simp add: find_range_iff)
  let ?new = "ranges[i := r\<lparr>range_master := a\<rparr>]"
  have new: "update_slot_master ranges slot a = ?new" using f i by (simp add: update_slot_master_def)
  have wf: "wf_slots ?new" using wf_slots_update [OF assms(1), of i a] i by simp
  have same: "find_range ?new slot' = find_range ranges slot'"
  proof -
    have "find_range ?new slot' = Some j \<longleftrightarrow> find_range ranges slot' = Some j" for j
      using i by (auto simp: find_range_iff [OF wf] find_range_iff [OF assms(1)] nth_list_update covers_update)
    then show ?thesis by (cases "find_range ranges slot'") auto
  qed
  show ?thesis
  proof (cases "find_range ranges slot'")
    case None
    with i find_range_iff [OF assms(1), of slot' i] show ?thesis
      by (simp add: new master_for_slot_def same)
  next
    case (Some j)
    with find_range_iff [OF assms(1), of slot' j] have j: "j < length ranges" "covers (ranges ! j) slot'" by auto
    with covers_unique [OF assms(1) i(1) j(1), of slot'] i Some show ?thesis
      by (auto simp: new master_for_slot_def same nth_list_update)
  qed
qed

section \<open>Reading the topology\<close>

text \<open>The reply a cluster gives to CLUSTER SLOTS, from a list of slot assignments.\<close>

type_synonym node_addr = "string \<times> nat"
type_synonym slot_entry = "nat \<times> nat \<times> node_addr \<times> node_addr list"

definition node_reply :: "node_addr \<Rightarrow> RespValue" where
  "node_reply a = Array [BulkString (fst a), Integer (int (snd a)), BulkString ''node-id'']"

definition node_text :: "node_addr \<Rightarrow> string" where
  "node_text a = fst a @ '':'' @ decimal (snd a)"

fun entry_reply :: "slot_entry \<Rightarrow> RespValue" where
  "entry_reply (s, e, m, rs) =
     Array (Integer (int s) # Integer (int e) # node_reply m # map node_reply rs)"

fun entry_range :: "slot_entry \<Rightarrow> SlotRange" where
  "entry_range (s, e, m, rs) =
     \<lparr>range_start = s, range_end = e, range_master = node_text m, range_replicas = map node_text rs\<rparr>"

fun entry_ok :: "slot_entry \<Rightarrow> bool" where
  "entry_ok (s, e, m, rs) \<longleftrightarrow> s \<le> e \<and> e < 65536 \<and> list_all (\<lambda>a. utf8_valid (fst a)) (m # rs)"

definition disjoint_entries :: "slot_entry list \<Rightarrow> bool" where
  "disjoint_entries es \<longleftrightarrow>
     sorted_wrt (\<lambda>a b. range_end (entry_range a) < range_start (entry_range b) \<or>
                      range_end (entry_range b) < range_start (entry_range a)) es"

lemma as_u16_small: "s < 65536 \<Longrightarrow> as_u16 (int s) = s"
  by (simp add: as_u16_def)

lemma parse_node_reply: "utf8_valid (fst a) \<Longrightarrow> parse_node_addr (node_reply a) = Ok (node_text a)"
  by (simp add: parse_node_addr_def node_reply_def node_text_def decimal_int_def)

lemma parse_replica_replies:
  "list_all (\<lambda>a. utf8_valid (fst a)) rs \<Longrightarrow>
     concat (map (\<lambda>node. ok_list (parse_node_addr node)) (map node_reply rs)) = map node_text rs"
  by (induction rs) (simp_all add: parse_node_reply ok_list_def)

lemma parse_slot_entries_reply:
  "list_all entry_ok es \<Longrightarrow>
     parse_slot_entries (map entry_reply es) acc = Ok (acc @ map entry_range es)"
proof (induction es arbitrary: acc)
  case (Cons x es)
  obtain s e m rs where x: "x = (s, e, m, rs)" by (cases x)
  with Cons.prems have "s < 65536" "e < 65536" "utf8_valid (fst m)" "list_all (\<lambda>a. utf8_valid (fst a)) rs"
    by auto
  with Cons x parse_replica_replies [of rs] show ?case
    by (simp add: as_u16_small parse_node_reply)
qed simp

lemma from_cluster_slots_reply:
  "list_all entry_ok es \<Longrightarrow>
     from_cluster_slots (Array (map entry_reply es)) = Ok (sort_key range_start (map entry_range es))"
  by (simp add: from_cluster_slots_def parse_slot_entries_reply)

text \<open>Sorting disjoint ranges by their start gives a well-formed map.\<close>

lemma insort_wf:
  assumes "wf_slots rs" "range_start x \<le> range_end x"
    and "\<And>r. r \<in> set rs \<Longrightarrow> range_end r < range_start x \<or> range_end x < range_start r"
  shows "wf_slots (insort_key range_start x rs)"
  using assms
proof (induction rs)
  case (Cons r rs)
  then have r: "range_end r < range_start x \<or> range_end x < range_start r" "range_start r \<le> range_end r"
    by (auto simp: wf_slots_def)
  show ?case
  proof (cases "range_start x \<le> range_start r")
    case True
    with r Cons.prems have "range_end x < range_start r" by auto
    with True Cons.prems show ?thesis by (fastforce simp: wf_slots_def)
  next
    case False
    with r Cons.prems(2) have "range_end r < range_start x" by auto
    with False Cons show ?thesis by (auto simp: wf_slots_def set_insort_key)
  qed
qed (simp add: wf_slots_def)

lemma sort_wf:
  "list_all entry_ok es \<Longrightarrow> disjoint_entries es \<Longrightarrow> wf_slots (sort_key range_start (map entry_range es))"
proof (induction es)
  case (Cons x es)
  have "range_start (entry_range x) \<le> range_end (entry_range x)" using Cons.prems(1) by (cases x) auto
  with Cons show ?case by (auto simp: disjoint_entries_def intro!: insort_wf)
qed (simp add: wf_slots_def)

section \<open>Checkouts\<close>

text \<open>Each use of a node draws one environment from the script.\<close>

lemma put_pool_env [simp]: "env_script (put_pool addr pool s) = env_script s"
  by (simp add: put_pool_def)

lemma node_get_env: "node_get C addr s = Some (r, s') \<Longrightarrow> env_script s = hd (env_script s) # env_script s'"
  by (auto simp: node_get_def get_pool_def Let_def split: list.splits option.splits result.splits)

lemma on_node_env:
  assumes "on_node C addr body s = Some (r, s')"
  shows "length (env_script s) = Suc (length (env_script s'))"
proof -
  from assms obtain r1 s1 where g: "node_get C addr s = Some (r1, s1)" and "env_script s' = env_script s1"
    by (auto simp: on_node_def cl_bind_def node_drop_def split: option.splits result.splits prod.splits)
  moreover from node_get_env [OF g] have "length (env_script s) = Suc (length (env_script s1))"
    by (metis length_Cons)
  ultimately show ?thesis by simp
qed

lemma ask_node_env: "ask_node C addr args s = Some (r, s') \<Longrightarrow> length (env_script s) = Suc (length (env_script s'))"
  unfolding ask_node_def by (rule on_node_env)

lemma execute_on_env:
  "execute_on C n addr args s = Some (r, s') \<Longrightarrow>
     length (env_script s) \<le> length (env_script s') + n + 1"
proof (induction n arbitrary: addr s)
  case 0
  then show ?case
    by (auto simp: execute_on.simps [of C 0] cl_bind_def split: option.splits result.splits prod.splits
        RedisErrorKind.splits dest!: on_node_env)
next
  case (Suc n)
  let ?m = "on_node C addr (io_bind (send_raw (encode_command_str C args)) (\<lambda>_. read_response C)) s"
  obtain r1 s1 where m: "?m = Some (r1, s1)"
    using Suc.prems by (auto simp: execute_on.simps [of C "Suc n"] cl_bind_def split: option.splits)
  have e: "length (env_script s) = Suc (length (env_script s1))" by (rule on_node_env [OF m])
  have u: "env_script (update_map slot a s1) = env_script s1" for slot a by (simp add: update_map_def)
  from Suc.prems m consider "s' = s1"
    | slot a where "execute_on C n a args (update_map slot a s1) = Some (r, s')"
    | a where "execute_on C n a args s1 = Some (r, s')"
    | a where "ask_node C a args s1 = Some (r, s')"
    by (auto simp: execute_on.simps [of C "Suc n"] cl_bind_def split: result.splits option.splits prod.splits
        RedisErrorKind.splits)
  then show ?case
    by cases (use e u Suc.IH ask_node_env in fastforce)+
qed

section \<open>Pipelines answer every command\<close>

lemma mset_push_group:
  "mset (concat (map snd (push_group a item groups))) = add_mset item (mset (concat (map snd groups)))"
  by (induction a item groups rule: push_group.induct) auto

lemma mset_group_commands:
  "mset (concat (map snd (group_commands s idx cmds groups))) =
     mset (enumerate idx cmds) + mset (concat (map snd groups))"
  by (induction s idx cmds groups rule: group_commands.induct) (simp_all add: mset_push_group)

definition group_ok :: "ClusterRouter \<Rightarrow> nat \<Rightarrow> string \<Rightarrow> command_group \<Rightarrow> bool" where
  "group_ok s n a g \<longleftrightarrow>
     list_all (\<lambda>ic. target_addr s (snd ic) = a \<and> fst ic < n) g \<and> sorted_wrt (<) (map fst g)"

definition grouped :: "ClusterRouter \<Rightarrow> nat \<Rightarrow> (string \<times> command_group) list \<Rightarrow> bool" where
  "grouped s n groups \<longleftrightarrow> list_all (\<lambda>(a, g). group_ok s n a g) groups"

lemma group_ok_Suc: "group_ok s n a g \<Longrightarrow> group_ok s (Suc n) a g"
  by (auto simp: group_ok_def list_all_iff less_Suc_eq)

lemma group_ok_snoc: "group_ok s n (target_addr s c) g \<Longrightarrow> group_ok s (Suc n) (target_addr s c) (g @ [(n, c)])"
  by (auto simp: group_ok_def list_all_iff less_Suc_eq sorted_wrt_append)

lemma grouped_Suc: "grouped s n groups \<Longrightarrow> grouped s (Suc n) groups"
  by (auto simp: grouped_def list_all_iff group_ok_Suc)

lemma grouped_push:
  "grouped s n groups \<Longrightarrow> grouped s (Suc n) (push_group (target_addr s c) (n, c) groups)"
proof (induction groups)
  case Nil
  then show ?case by (simp add: grouped_def group_ok_def)
next
  case (Cons ag groups)
  obtain a g where ag: "ag = (a, g)" by (cases ag)
  have "grouped s (Suc n) groups" using Cons.prems grouped_Suc by (simp add: grouped_def)
  with Cons ag show ?case
    by (auto simp: grouped_def group_ok_snoc group_ok_Suc)
qed

lemma grouped_group_commands:
  "grouped s idx groups \<Longrightarrow> grouped s (idx + length cmds) (group_commands s idx cmds groups)"
proof (induction s idx cmds groups rule: group_commands.induct)
  case (2 s idx c cmds groups)
  from 2(1) [OF grouped_push [OF 2(2), of c, unfolded Suc_eq_plus1]] show ?case by simp
qed simp

text \<open>Which replies are present after a group has run.\<close>

definition answered :: "nat set \<Rightarrow> replies \<Rightarrow> bool" where
  "answered I results \<longleftrightarrow> (\<forall>i \<in> I. i < length results \<longrightarrow> results ! i \<noteq> None)"

lemma answered_update: "answered I results \<Longrightarrow> answered (insert i I) (results[i := Some v])"
  by (cases "i < length results") (auto simp: answered_def nth_list_update list_update_beyond)

lemma read_group_answers:
  assumes "read_group C g results conn s = Some (Ok results', conn', s')" "answered I results"
  shows "length results' = length results \<and> answered (I \<union> fst ` set g) results'"
  using assms
proof (induction C g results conn s arbitrary: I rule: read_group.induct)
  case (2 C idx cmd_args g results conn s)
  from "2.prems"(1) obtain conn1 v s1 resp where r: "read_response C conn = Some (Ok resp, conn1)"
    and k: "(case reply_kind resp of
                   Some (Moved slot new_addr, msg) \<Rightarrow>
                     execute_on C (MAX_REDIRECTS - 1) new_addr cmd_args (update_map slot new_addr s)
                 | Some (Ask slot new_addr, msg) \<Rightarrow> ask_node C new_addr cmd_args s
                 | _ \<Rightarrow> Some (Ok resp, s)) = Some (Ok v, s1)"
    and rest: "read_group C g (results[idx := Some v]) conn1 s1 = Some (Ok results', conn', s')"
    by (auto split: option.split_asm result.split_asm prod.split_asm)
  from "2.IH" [OF r refl refl k refl refl rest answered_update [OF "2.prems"(2)]]
  show ?case by simp
qed auto

lemma no_node_answers:
  "answered I results \<Longrightarrow>
    (let rs = foldl (\<lambda>rs (idx, _). rs[idx := Some v]) results g in
     length rs = length results \<and> answered (I \<union> fst ` set g) rs)"
proof (induction g arbitrary: results I)
  case (Cons x g)
  from Cons.IH [OF answered_update [OF Cons.prems, of "fst x" v]] show ?case
    by (simp add: Let_def split_def)
qed simp

lemma run_group_answers:
  assumes "run_group C ag results s = Some (Ok results', s')" "answered I results"
  shows "length results' = length results \<and> answered (I \<union> fst ` set (snd ag)) results'"
proof (cases "fst ag = []")
  case True
  with assms no_node_answers [OF assms(2), of "Error ''no node for slot''" "snd ag"] show ?thesis
    by (auto simp: run_group_def cl_return_def split_def Let_def)
next
  case False
  with assms(1) obtain conn s1 conn' s2 where
    "read_group C (snd ag) results conn s1 = Some (Ok results', conn', s2)"
    by (auto simp: run_group_def cl_bind_def split_def Let_def
        split: option.split_asm result.split_asm prod.split_asm)
  from read_group_answers [OF this assms(2)] show ?thesis .
qed

lemma run_groups_answers:
  assumes "run_groups C groups results s = Some (Ok results', s')" "answered I results"
  shows "length results' = length results \<and> answered (I \<union> fst ` set (concat (map snd groups))) results'"
  using assms
proof (induction groups arbitrary: results s I)
  case Nil
  then show ?case by (simp add: cl_return_def)
next
  case (Cons ag groups)
  from Cons.prems(1) obtain r1 s1 where g: "run_group C ag results s = Some (Ok r1, s1)"
    and rest: "run_groups C groups r1 s1 = Some (Ok results', s')"
    by (auto simp: cl_bind_def split: option.split_asm result.split_asm prod.split_asm)
  from run_group_answers [OF g Cons.prems(2)]
  have r1: "length r1 = length results" "answered (I \<union> fst ` set (snd ag)) r1" by simp_all
  from Cons.IH [OF rest r1(2)] r1(1) show ?case by (simp add: Un_assoc image_Un)
qed

section \<open>Properties\<close>


definition sample_entries :: "slot_entry list" where
  "sample_entries = [(8192, 16383, (''b'', 2), []), (0, 8191, (''a'', 1), [(''c'', 3), (''d'', 4)])]"

lemma sample_entries_ok: "list_all entry_ok sample_entries" "disjoint_entries sample_entries"
  by (simp_all add: sample_entries_def disjoint_entries_def utf8_valid_ascii byte_in_def)


text \<open>
  A command goes where its slot lives: on a well-formed map the target of a command
  with a key is the master of the range covering the key's slot, or one of that range's
  replicas when the command is read-only and replica reads are on. A write is never sent
  to a replica.
\<close>

lemma target_is_owner:
  assumes "wf_slots (slot_map s)" and "extract_key args = Some key"
    and "r \<in> set (slot_map s)" and "covers r (unat (hash_slot key))"
  shows "target_addr s args = range_master r \<or>
    (is_read_only_command (hd args) \<and> read_from_replicas s \<and> target_addr s args \<in> set (range_replicas r))"
proof -
  let ?slot = "unat (hash_slot key)"
  from assms(3) obtain i where i: "i < length (slot_map s)" "slot_map s ! i = r" by (auto simp: in_set_conv_nth)
  with assms(1,4) have f: "find_range (slot_map s) ?slot = Some i" by (simp add: find_range_iff)
  have ne: "args \<noteq> []" using assms(2) by (auto simp: extract_key_def)
  then have "args ! 0 = hd args" by (simp add: hd_conv_nth)
  with f i ne show ?thesis
    by (auto simp: target_addr_def assms(2) master_for_slot_def replica_for_slot_def Let_def)
qed

definition sample_router :: ClusterRouter where
  "sample_router = \<lparr>nodes = [], slot_map = [\<lparr>range_start = 0, range_end = 16383, range_master = ''a:1'',
     range_replicas = []\<rparr>], cluster_config = default_config, read_from_replicas = False, env_script = []\<rparr>"

lemma target_is_owner_witness: "target_addr sample_router [''SET'', ''k'', ''v''] = ''a:1''"
proof -
  let ?r = "\<lparr>range_start = 0, range_end = 16383, range_master = ''a:1'', range_replicas = []\<rparr>"
  have "wf_slots (slot_map sample_router)" by (simp add: sample_router_def wf_slots_def)
  moreover have "extract_key [''SET'', ''k'', ''v''] = Some ''k''" by code_simp
  moreover have "?r \<in> set (slot_map sample_router)" by (simp add: sample_router_def)
  moreover have "covers ?r (unat (hash_slot ''k''))"
    using unat_hash_slot_less [of "''k''"] by (simp add: covers_def)
  ultimately show ?thesis using target_is_owner [of sample_router "[''SET'', ''k'', ''v'']" "''k''" ?r] by simp
qed

text \<open>
  After a MOVED reply the map points the slot at the new node. The whole range of the
  slot moves with it, all other slots keep their master, and the map stays well-formed.
\<close>

lemma moved_updates_range:
  assumes "wf_slots ranges" and "r \<in> set ranges" and "covers r slot"
  shows "wf_slots (update_slot_master ranges slot a) \<and>
    master_for_slot (update_slot_master ranges slot a) slot = Some a \<and>
    (\<forall>slot'. master_for_slot (update_slot_master ranges slot a) slot' =
      (if covers r slot' then Some a else master_for_slot ranges slot'))"
proof -
  have "wf_slots (update_slot_master ranges slot a)"
    using wf_slots_update [OF assms(1)] assms(1) by (simp add: update_slot_master_def split: option.split)
  with update_slot_master_lookup [OF assms] assms(3) show ?thesis by simp
qed

lemma moved_updates_range_witness:
  "master_for_slot (update_slot_master (slot_map sample_router) 5 ''b:2'') 9000 = Some ''b:2''"
  using moved_updates_range [of "slot_map sample_router"
      "\<lparr>range_start = 0, range_end = 16383, range_master = ''a:1'', range_replicas = []\<rparr>" 5 "''b:2''"]
  by (simp add: sample_router_def wf_slots_def covers_def)



text \<open>
  C33: A cluster pipeline loses no command. Its commands are split into one group per target
  node, each command in exactly one group, in the order they were given; and whenever the
  pipeline returns, whatever the order in which the groups run, there is one reply per
  command and none was left unset.
\<close>

theorem pipeline_answers_all:
  assumes "\<And>gs. mset (order gs) = mset gs"
  shows "mset (concat (map snd (group_commands s 0 commands []))) = mset (enumerate 0 commands) \<and>
    grouped s (length commands) (group_commands s 0 commands []) \<and>
    (\<forall>results s'. run_groups C (order (group_commands s 0 commands [])) (replicate (length commands) None) s =
        Some (Ok results, s') \<longrightarrow> length results = length commands \<and> None \<notin> set results)"
proof -
  let ?gs = "group_commands s 0 commands []"
  have parts: "mset (concat (map snd ?gs)) = mset (enumerate 0 commands)"
    using mset_group_commands [of s 0 commands "[]"] by simp
  have "fst ` set (concat (map snd (order ?gs))) = {0..<length commands}"
  proof -
    have "set (concat (map snd (order ?gs))) = set (concat (map snd ?gs))"
      using mset_eq_setD [OF assms [of ?gs]] by simp
    also have "\<dots> = set (enumerate 0 commands)" using parts by (metis set_mset_mset)
    finally have "fst ` set (concat (map snd (order ?gs))) = set (map fst (enumerate 0 commands))"
      by (simp only: set_map)
    then show ?thesis by (simp only: map_fst_enumerate set_upt add_0)
  qed
  moreover have "answered {} (replicate (length commands) None)" by (simp add: answered_def)
  ultimately have "length results = length commands \<and> None \<notin> set results"
    if "run_groups C (order ?gs) (replicate (length commands) None) s = Some (Ok results, s')" for results s'
    using run_groups_answers [OF that, of "{}"] by (auto simp: answered_def in_set_conv_nth)
  with parts grouped_group_commands [of s 0 "[]" commands] show ?thesis by (simp add: grouped_def)
qed

theorem pipeline_answers_all_witness:
  "mset (concat (map snd (group_commands sample_router 0 [[''GET'', ''a''], [''GET'', ''b'']] []))) =
     mset [(0, [''GET'', ''a'']), (1, [''GET'', ''b''])]"
  using pipeline_answers_all [of "\<lambda>gs. gs" sample_router "[[''GET'', ''a''], [''GET'', ''b'']]"] by simp

section \<open>Background refresh\<close>

text \<open>An outcome of dialing that is not a connection.\<close>

definition unreachable :: "call_env \<Rightarrow> bool" where
  "unreachable env \<longleftrightarrow> (\<forall>addr t m. \<exists>e. connect_timeout_with_max_buf (dialing env) addr t m = Err e)"

lemma refresh_unreachable:
  assumes "env_script s = env # envs" and "unreachable env"
  shows "\<exists>e. refresh_slots_from C addr s = Some (Err e, s\<lparr>env_script := envs\<rparr>)"
proof -
  obtain e where "connect_timeout_with_max_buf (dialing env) addr (cfg_connect_timeout_ms (cluster_config s))
      (cfg_max_buffer_size (cluster_config s)) = Err e"
    using assms(2) unfolding unreachable_def by blast
  then show ?thesis using assms(1) by (simp add: refresh_slots_from_def Let_def)
qed

text \<open>
  The background task always asks the same node: pools are never removed and a failed refresh
  changes nothing, so while that node is down every tick fails and the slot map stays as it
  is, whatever the other nodes would answer.
\<close>

lemma refresh_stuck_on_dead_node:
  assumes "n \<le> length (env_script s)" and "list_all unreachable (take n (env_script s))"
    and "order (map fst (nodes s)) \<noteq> []"
  shows "refresh_ticks C order n s = Some (Ok (), s\<lparr>env_script := drop n (env_script s)\<rparr>)"
  using assms
proof (induction n arbitrary: s)
  case 0
  then show ?case by (simp add: cl_return_def)
next
  case (Suc n)
  then obtain env envs where env: "env_script s = env # envs" by (cases "env_script s") auto
  let ?s = "s\<lparr>env_script := envs\<rparr>"
  obtain addr rest where "order (map fst (nodes s)) = addr # rest" using Suc.prems(3) by (cases "order (map fst (nodes s))") auto
  moreover obtain e where "refresh_slots_from C addr s = Some (Err e, ?s)"
    using refresh_unreachable [OF env] Suc.prems(2) env by auto
  ultimately have "refresh_tick C order s = Some (Ok (), ?s)" by (simp add: refresh_tick_def)
  with Suc.IH [of ?s] Suc.prems env show ?case by (simp add: cl_bind_def)
qed

text \<open>
  The topology is read on connections without a read timeout: a seed that accepts the
  connection and stays silent blocks the constructor, and a silent node the background task.
\<close>

lemma refresh_silent:
  assumes "env_script s = env # envs" and "dialing env = Dialed st" and "writes st = WriteOk t # ws"
    and "list_all (silent (cfg_max_buffer_size (cluster_config s))) (inbox st)"
  shows "refresh_slots_from C addr s = None"
  using assms
  by (cases "cfg_password (cluster_config s)"; cases "cfg_username (cluster_config s)")
     (simp_all add: refresh_slots_from_def connect_timeout_with_max_buf_def connect_with_max_buf_def init_def auth_def
      select_db_def io_bind_def io_return_def execute_str_silent Let_def)

lemma silent_seed_blocks:
  assumes "envs = env # envs'" and "dialing env = Dialed st" and "writes st = WriteOk t # ws"
    and "list_all (silent (cfg_max_buffer_size config)) (inbox st)"
  shows "cluster_new C (seed # seeds) config replicas envs = None"
  using assms by (cases seed) (simp add: cluster_new_def refresh_silent)

end
