(* ===== verification/Cluster_Pools.thy ===== *)
theory Cluster_Pools
  imports Cluster
begin

text \<open>
  The state of the cluster router over its whole life (\<open>src/src/router/cluster.rs\<close>): commands,
  pipelines and ticks of the background refresh, in any order and with any outcome of dialing,
  writing and reading. While a pipeline follows a redirect it holds the connection of its
  group, so the invariant counts the guards held per address; between calls none is held.
\<close>

section \<open>Balanced pools\<close>

text \<open>A pool of which \<open>h\<close> guards are held.\<close>

definition balanced :: "nat \<Rightarrow> ConnectionPool \<Rightarrow> bool" where
  "balanced h p \<longleftrightarrow> permits p + h = pool_max_size p \<and> length (idle p) + h \<le> pool_max_size p"

text \<open>What using a pool does not touch.\<close>

definition same_pool :: "ConnectionPool \<Rightarrow> ConnectionPool \<Rightarrow> bool" where
  "same_pool p p' \<longleftrightarrow> pool_config p' = pool_config p \<and> pool_max_size p' = pool_max_size p \<and>
     pool_idle_timeout p' = pool_idle_timeout p"

lemma balanced_new: "balanced 0 (pool_new config)"
  by (simp add: balanced_def pool_new_def Let_def)

lemma pool_get_balanced:
  assumes "balanced h p" and "pool_get C now d p = Some (r, p')"
  shows "balanced (if is_ok r then Suc h else h) p' \<and> same_pool p p'"
proof -
  obtain o1 p1 where a: "pool_acquire now p = Some (o1, p1)"
    using assms(2) by (auto simp: pool_get_def split: option.splits)
  have "balanced (Suc h) p1 \<and> same_pool p p1"
    using assms(1) pool_acquire_facts [OF a] by (auto simp: balanced_def same_pool_def split: option.splits)
  moreover have "balanced (Suc h) p1 \<Longrightarrow> balanced h (release_permit p1)"
    by (auto simp: balanced_def release_permit_def)
  ultimately show ?thesis
    using assms(2) a by (auto simp: pool_get_def same_pool_def release_permit_def split: option.splits result.splits)
qed

lemma guard_drop_balanced:
  "balanced (Suc h) p \<Longrightarrow> balanced h (guard_drop now (Some conn) p) \<and> same_pool p (guard_drop now (Some conn) p)"
  using guard_drop_facts(5) [of now conn p] by (auto simp: balanced_def same_pool_def guard_drop_facts)

text \<open>A call that takes one guard gives it back, however it ends.\<close>

lemma with_guard_balanced:
  assumes "balanced h p" and "with_guard C env body p = Some (r, p')"
  shows "balanced h p' \<and> same_pool p p'"
proof -
  obtain r1 p1 where g: "pool_get C (at_get env) (dialing env) p = Some (r1, p1)"
    using assms(2) by (auto simp: with_guard_def split: option.splits)
  note b = pool_get_balanced [OF assms(1) g]
  show ?thesis
  proof (cases r1)
    case (Ok conn)
    with assms(2) g obtain conn' where "p' = guard_drop (at_drop env) (Some conn') p1"
      by (auto simp: with_guard_def split: option.splits)
    with b Ok guard_drop_balanced [of h p1] show ?thesis by (auto simp: same_pool_def)
  qed (use assms(2) g b in \<open>auto simp: with_guard_def\<close>)
qed

section \<open>The node table\<close>

definition pools_ok :: "ConnectionConfig \<Rightarrow> (string \<Rightarrow> nat) \<Rightarrow> (string \<times> ConnectionPool) list \<Rightarrow> bool" where
  "pools_ok config h ns \<longleftrightarrow> distinct (map fst ns) \<and>
     (\<forall>(a, p) \<in> set ns. balanced (h a) p \<and> node_pool_config config a = Some (pool_config p) \<and>
        pool_max_size p = cfg_pool_size config) \<and>
     (\<forall>a. 0 < h a \<longrightarrow> a \<in> fst ` set ns \<or> node_pool_config config a = None)"

text \<open>The invariant of the router, with a predicate \<open>Q\<close> of the slot map to be chosen.\<close>

definition cluster_ok :: "(SlotRange list \<Rightarrow> bool) \<Rightarrow> ConnectionConfig \<Rightarrow> (string \<Rightarrow> nat) \<Rightarrow> ClusterRouter \<Rightarrow> bool" where
  "cluster_ok Q config h s \<longleftrightarrow> cluster_config s = config \<and> pools_ok config h (nodes s) \<and> Q (slot_map s)"

lemma ensure_pool_for_ok:
  assumes "pools_ok config h ns"
  shows "pools_ok config h (ensure_pool_for config ns a)"
    and "a \<in> fst ` set (ensure_pool_for config ns a) \<or> node_pool_config config a = None"
proof -
  have new: "pools_ok config h ((a, pool_new cfg) # ns)"
    if "map_of ns a = None" "node_pool_config config a = Some cfg" for cfg
  proof -
    have "h a = 0" using assms that by (auto simp: pools_ok_def map_of_eq_None_iff)
    moreover have "cfg_pool_size cfg = cfg_pool_size config"
      using that(2) by (auto simp: node_pool_config_def split: option.splits)
    moreover have "balanced 0 (pool_new cfg)" by (rule balanced_new)
    ultimately show ?thesis
      using assms that by (auto simp: pools_ok_def map_of_eq_None_iff pool_new_def Let_def)
  qed
  then show "pools_ok config h (ensure_pool_for config ns a)"
    using assms by (auto simp: ensure_pool_for_def split: option.splits)
  show "a \<in> fst ` set (ensure_pool_for config ns a) \<or> node_pool_config config a = None"
    by (auto simp: ensure_pool_for_def map_of_eq_None_iff split: option.splits)
qed

lemma ensure_pools_ok:
  assumes "pools_ok config h ns"
  shows "pools_ok config h (ensure_pools config ranges ns)"
proof -
  have each: "pools_ok config h (foldl (ensure_pool_for config) ns as)" if "pools_ok config h ns" for ns as
    using that by (induction as arbitrary: ns) (auto intro: ensure_pool_for_ok)
  from assms show ?thesis
    unfolding ensure_pools_def by (induction ranges arbitrary: ns) (auto intro: each ensure_pool_for_ok)
qed

text \<open>Replacing the pool of one address, when the number of guards held there changes.\<close>

lemma put_pool_ok:
  assumes "cluster_ok Q config h s" and "a \<in> fst ` set (nodes s) \<or> node_pool_config config a = None"
    and "\<And>p. (a, p) \<in> set (nodes s) \<Longrightarrow> balanced k p' \<and> same_pool p p'"
  shows "cluster_ok Q config (h(a := k)) (put_pool a p' s)"
proof -
  let ?f = "\<lambda>(b, p). if b = a then (b, p') else (b, p)"
  have keys: "map fst (map ?f (nodes s)) = map fst (nodes s)" by auto
  then have set_keys: "fst ` set (map ?f (nodes s)) = fst ` set (nodes s)" by (metis list.set_map)
  have "pools_ok config (h(a := k)) (map ?f (nodes s))"
    unfolding pools_ok_def keys set_keys
    using assms by (auto simp: cluster_ok_def pools_ok_def same_pool_def split: if_splits)
  then show ?thesis using assms(1) by (simp add: cluster_ok_def put_pool_def)
qed

lemma map_of_node:
  "cluster_ok Q config h s \<Longrightarrow> (a, p) \<in> set (nodes s) \<Longrightarrow> map_of (nodes s) a = Some p \<and> balanced (h a) p"
  by (auto simp: cluster_ok_def pools_ok_def)

lemma held_known:
  "cluster_ok Q config h s \<Longrightarrow> 0 < h a \<Longrightarrow> a \<in> fst ` set (nodes s) \<or> node_pool_config config a = None"
  by (simp add: cluster_ok_def pools_ok_def)

lemma node_get_ok:
  assumes "cluster_ok Q config h s" and "node_get C a s = Some (r, s')"
  shows "cluster_ok Q config (if is_ok r then h(a := Suc (h a)) else h) s'"
proof -
  obtain env envs where env: "env_script s = env # envs"
    using assms(2) by (auto simp: node_get_def split: list.splits)
  let ?ns = "ensure_pool_for config (nodes s) a"
  let ?s = "s\<lparr>env_script := envs, nodes := ?ns\<rparr>" and ?p = "unwrap_or (pool_new config) (map_of ?ns a)"
  have c: "cluster_config s = config" using assms(1) by (simp add: cluster_ok_def)
  have ok: "cluster_ok Q config h ?s" using assms(1) by (auto simp: cluster_ok_def intro: ensure_pool_for_ok)
  have ins: "a \<in> fst ` set (nodes ?s) \<or> node_pool_config config a = None"
    using ensure_pool_for_ok(2) [of config h "nodes s" a] assms(1) by (simp add: cluster_ok_def)
  obtain r1 p1 where g: "pool_get C (at_get env) (dialing env) ?p = Some (r1, p1)" "s' = put_pool a p1 ?s"
    "is_ok r = is_ok r1"
    using assms(2) env c by (auto simp: node_get_def get_pool_def Let_def split: option.splits result.splits)
  have "balanced (if is_ok r1 then Suc (h a) else h a) p1 \<and> same_pool p p1" if "(a, p) \<in> set (nodes ?s)" for p
    using map_of_node [OF ok that] pool_get_balanced [OF _ g(1), of "h a"] by simp
  from put_pool_ok [OF ok ins this] g(2,3) show ?thesis by (auto split: if_splits)
qed

lemma node_drop_ok:
  assumes "cluster_ok Q config (h(a := Suc (h a))) s"
  shows "cluster_ok Q config h (node_drop a t conn s)"
proof -
  have ins: "a \<in> fst ` set (nodes s) \<or> node_pool_config config a = None"
    using held_known [OF assms, of a] by simp
  have "balanced (h a) (guard_drop t (Some conn) (current_pool a s)) \<and> same_pool p (guard_drop t (Some conn) (current_pool a s))"
    if "(a, p) \<in> set (nodes s)" for p
    using map_of_node [OF assms that] guard_drop_balanced [of "h a" p] by (simp add: current_pool_def)
  from put_pool_ok [OF assms ins this] show ?thesis by (simp add: node_drop_def)
qed

section \<open>Commands\<close>

abbreviation keeps_ok :: "(SlotRange list \<Rightarrow> bool) \<Rightarrow> ConnectionConfig \<Rightarrow> (string \<Rightarrow> nat) \<Rightarrow> 'a cluster_io \<Rightarrow> bool" where
  "keeps_ok Q config h m \<equiv> keeps (cluster_ok Q config h) m"

lemma keeps_return [keeps_rules]: "keeps P (cl_return r)"
  by (simp add: keeps_def cl_return_def)

lemma keeps_bind [keeps_rules]: "keeps P m \<Longrightarrow> (\<And>x. keeps P (f x)) \<Longrightarrow> keeps P (cl_bind m f)"
proof (rule keepsI)
  fix s r s'
  assume m: "keeps P m" and f: "\<And>x. keeps P (f x)" and s: "P s" and b: "cl_bind m f s = Some (r, s')"
  obtain x s1 where x: "m s = Some (x, s1)" using b by (auto simp: cl_bind_def split: option.splits)
  have "P s1" using m s x by (rule keepsD)
  with b x show "P s'" by (cases x) (auto simp: cl_bind_def intro: keepsD [OF f])
qed

lemma on_node_ok [keeps_rules]: "keeps_ok Q config h (on_node C a body)"
proof (rule keepsI)
  fix s r s'
  assume s: "cluster_ok Q config h s" and "on_node C a body s = Some (r, s')"
  then obtain g s1 where g: "node_get C a s = Some (g, s1)"
    and s': "(\<not> is_ok g \<and> s' = s1) \<or> (\<exists>t conn. is_ok g \<and> s' = node_drop a t conn s1)"
    by (auto simp: on_node_def cl_bind_def split: option.splits result.splits prod.splits)
  from node_get_ok [OF s g] s' show "cluster_ok Q config h s'" by (auto intro: node_drop_ok)
qed

lemma ask_node_ok [keeps_rules]: "keeps_ok Q config h (ask_node C a args)"
  unfolding ask_node_def by (rule on_node_ok)

text \<open>What a redirect keeps of the slot map.\<close>

locale slot_invariant =
  fixes Q :: "SlotRange list \<Rightarrow> bool"
  assumes redirect: "Q ranges \<Longrightarrow> Q (update_slot_master ranges slot a)"
begin

lemma update_map_ok: "cluster_ok Q config h s \<Longrightarrow> cluster_ok Q config h (update_map slot a s)"
  by (simp add: cluster_ok_def update_map_def redirect)

lemma execute_on_ok [keeps_rules]: "keeps_ok Q config h (execute_on C n addr args)"
proof (induction n arbitrary: addr)
  case 0
  show ?case unfolding execute_on.simps [of C 0]
    by (intro keeps_bind on_node_ok keepsI) (auto split: option.splits RedisErrorKind.splits)
next
  case (Suc n)
  show ?case unfolding execute_on.simps [of C "Suc n"]
    by (intro keeps_bind on_node_ok keepsI)
       (auto split: option.splits RedisErrorKind.splits intro: update_map_ok
         dest!: keeps_after [OF _ Suc.IH] keeps_after [OF _ ask_node_ok [of Q config h]])
qed

lemma execute_routed_ok [keeps_rules]: "keeps_ok Q config h (execute_routed C args)"
  by (rule keepsI) (auto simp: execute_routed_def Let_def split: if_splits dest: keepsD [OF execute_on_ok])

section \<open>Pipelines\<close>

lemma redirected_ok:
  assumes "cluster_ok Q config h s"
    and "(case reply_kind resp of
             Some (Moved slot a, msg) \<Rightarrow> execute_on C n a args (update_map slot a s)
           | Some (Ask slot a, msg) \<Rightarrow> ask_node C a args s
           | _ \<Rightarrow> Some (Ok resp, s)) = Some (r, s')"
  shows "cluster_ok Q config h s'"
  using assms
  by (auto split: option.splits prod.splits RedisErrorKind.splits
      elim: keeps_after [OF _ execute_on_ok] keeps_after [OF _ ask_node_ok] intro: update_map_ok)

lemma read_group_ok:
  assumes "read_group C g results conn s = Some (r, conn', s')" and "cluster_ok Q config h s"
  shows "cluster_ok Q config h s'"
  using assms
proof (induction C g results conn s rule: read_group.induct)
  case (2 C idx cmd_args g results conn s)
  show ?case
  proof (cases "read_response C conn")
    case (Some rc)
    obtain rr conn1 where rc: "rc = (rr, conn1)" by (cases rc)
    show ?thesis
    proof (cases rr)
      case (Ok resp)
      from "2.prems"(1) Some rc Ok obtain v s1 where
        k: "(case reply_kind resp of
              Some (Moved slot new_addr, msg) \<Rightarrow>
                execute_on C (MAX_REDIRECTS - 1) new_addr cmd_args (update_map slot new_addr s)
            | Some (Ask slot new_addr, msg) \<Rightarrow> ask_node C new_addr cmd_args s
            | _ \<Rightarrow> Some (Ok resp, s)) = Some (v, s1)"
        by (auto split: option.split_asm)
      have s1: "cluster_ok Q config h s1" using redirected_ok [OF "2.prems"(2) k] .
      show ?thesis
      proof (cases v)
        case (Ok w)
        from "2.prems"(1) have "read_group C g (results[idx := Some w]) conn1 s1 = Some (r, conn', s')"
          using Some rc \<open>rr = Ok resp\<close> k Ok by simp
        from "2.IH" [OF Some [unfolded rc \<open>rr = Ok resp\<close>] refl refl k [unfolded Ok] refl refl this s1]
        show ?thesis .
      qed (use "2.prems"(1) Some rc \<open>rr = Ok resp\<close> k s1 in auto)
    qed (use "2.prems" Some rc in auto)
  qed (use "2.prems" in auto)
qed auto

lemma run_group_ok [keeps_rules]: "keeps_ok Q config h (run_group C ag results)"
proof (rule keepsI)
  fix s r s'
  assume s: "cluster_ok Q config h s" and run: "run_group C ag results s = Some (r, s')"
  obtain a g where ag: "ag = (a, g)" by (cases ag)
  show "cluster_ok Q config h s'"
  proof (cases "a = []")
    case True
    with run ag s show ?thesis by (simp add: run_group_def cl_return_def)
  next
    case False
    with run ag obtain x s1 where x: "node_get C a s = Some (x, s1)"
      by (auto simp: run_group_def cl_bind_def split: option.splits)
    have s1: "cluster_ok Q config (if is_ok x then h(a := Suc (h a)) else h) s1" using node_get_ok [OF s x] .
    show ?thesis
    proof (cases x)
      case (Ok ct)
      obtain s2 t conn' where "s' = node_drop a t conn' s2" "cluster_ok Q config (h(a := Suc (h a))) s2"
        using run ag False x Ok s1
        by (cases ct) (auto simp: run_group_def cl_bind_def split: option.splits result.splits prod.splits
            dest: read_group_ok)
      then show ?thesis by (auto intro: node_drop_ok)
    qed (use run ag False x s1 in \<open>auto simp: run_group_def cl_bind_def\<close>)
  qed
qed

lemma run_groups_ok [keeps_rules]: "keeps_ok Q config h (run_groups C groups results)"
  by (induction groups arbitrary: results) (auto intro!: keeps_rules)

lemma cluster_pipeline_ok [keeps_rules]: "keeps_ok Q config h (cluster_pipeline C order commands)"
  by (rule keepsI) (auto simp: cluster_pipeline_def Let_def intro: keeps_rules
      dest: keepsD [OF keeps_bind [OF run_groups_ok keeps_return]])

end

section \<open>Refresh\<close>

text \<open>What moreover holds of every slot map a server can send.\<close>

locale topology_invariant = slot_invariant +
  assumes topology: "from_cluster_slots resp = Ok ranges \<Longrightarrow> Q ranges" and empty: "Q []"
begin

lemma refresh_slots_from_ok [keeps_rules]: "keeps_ok Q config h (refresh_slots_from C addr)"
  by (rule keepsI)
     (auto simp: refresh_slots_from_def Let_def cluster_ok_def dest: topology
       intro: ensure_pools_ok split: list.splits option.splits result.splits)

lemma refresh_tick_ok [keeps_rules]: "keeps_ok Q config h (refresh_tick C order)"
  by (rule keepsI)
     (auto simp: refresh_tick_def split: list.splits option.splits result.splits dest: keepsD [OF refresh_slots_from_ok])

lemma try_seeds_ok [keeps_rules]: "keeps_ok Q config h (try_seeds C seeds last_err)"
proof (induction seeds arbitrary: last_err)
  case Nil
  show ?case by (simp add: keeps_rules)
next
  case (Cons hp seeds)
  show ?case
    by (cases hp, rule keepsI)
       (auto split: option.splits result.splits dest!: keeps_after [OF _ refresh_slots_from_ok [of config h]]
         keeps_after [OF _ Cons.IH])
qed

lemma cluster_new_ok:
  assumes "cluster_new C seeds config replicas envs = Some (Ok s)"
  shows "cluster_ok Q config (\<lambda>_. 0) s"
proof -
  let ?s = "\<lparr>nodes = [], slot_map = [], cluster_config = config, read_from_replicas = replicas, env_script = envs\<rparr>"
  have "cluster_ok Q config (\<lambda>_. 0) ?s" by (simp add: cluster_ok_def pools_ok_def empty)
  with assms show ?thesis
    by (auto simp: cluster_new_def dest: keepsD [OF try_seeds_ok] split: if_splits option.splits result.splits)
qed

end

section \<open>The invariants\<close>

text \<open>Everything of a range but its master.\<close>

definition range_shape :: "SlotRange \<Rightarrow> SlotRange" where
  "range_shape r = r\<lparr>range_master := []\<rparr>"

lemma update_slot_master_shape: "map range_shape (update_slot_master ranges slot a) = map range_shape ranges"
proof (cases "find_range ranges slot")
  case (Some i)
  then show ?thesis
    by (cases "i < length ranges")
       (simp_all add: update_slot_master_def range_shape_def map_update list_update_beyond list_update_same_conv)
qed (simp add: update_slot_master_def)

lemma starts_of_shape: "map range_start ranges = map range_start (map range_shape ranges)"
  by (simp add: range_shape_def)

interpretation shape: slot_invariant "\<lambda>ranges. map range_shape ranges = shapes" for shapes
  by unfold_locales (simp add: update_slot_master_shape)

interpretation sorted_starts: topology_invariant "\<lambda>ranges. sorted (map range_start ranges)"
proof unfold_locales
  show "sorted (map range_start (update_slot_master ranges slot a))" if "sorted (map range_start ranges)" for ranges slot a
    using that by (metis starts_of_shape update_slot_master_shape)
qed (auto simp: from_cluster_slots_def and_then_eq_Ok split: RespValue.splits)

section \<open>The life of a router\<close>

inductive command_step :: "crates \<Rightarrow> ClusterRouter \<Rightarrow> ClusterRouter \<Rightarrow> bool" for C where
  Command: "execute_routed C args s = Some (r, s') \<Longrightarrow> command_step C s s'"
| Commands: "cluster_pipeline C order commands s = Some (r, s') \<Longrightarrow> command_step C s s'"

inductive cluster_step :: "crates \<Rightarrow> ClusterRouter \<Rightarrow> ClusterRouter \<Rightarrow> bool" for C where
  Call: "command_step C s s' \<Longrightarrow> cluster_step C s s'"
| Tick: "refresh_tick C order s = Some (r, s') \<Longrightarrow> cluster_step C s s'"

inductive cluster_reachable :: "crates \<Rightarrow> ClusterRouter \<Rightarrow> ClusterRouter \<Rightarrow> bool" for C s0 where
  start: "cluster_reachable C s0 s0"
| step: "cluster_reachable C s0 s \<Longrightarrow> cluster_step C s t \<Longrightarrow> cluster_reachable C s0 t"

interpretation cluster_runs: step_system s0 "cluster_step C" "cluster_reachable C s0" for C s0
  by unfold_locales (auto intro: cluster_reachable.intros elim: cluster_reachable.induct)

context slot_invariant
begin

lemma command_step_ok:
  assumes "cluster_ok Q config h s" and "command_step C s t"
  shows "cluster_ok Q config h t"
  using assms(2)
  by cases (auto dest: keepsD [OF execute_routed_ok assms(1)] keepsD [OF cluster_pipeline_ok assms(1)])

lemma commands_ok: "(command_step C)\<^sup>*\<^sup>* s t \<Longrightarrow> cluster_ok Q config h s \<Longrightarrow> cluster_ok Q config h t"
  by (induction rule: rtranclp_induct) (auto intro: command_step_ok)

end

context topology_invariant
begin

lemma cluster_step_ok:
  assumes "cluster_ok Q config h s" and "cluster_step C s t"
  shows "cluster_ok Q config h t"
  using assms(2) by cases (auto intro: command_step_ok [OF assms(1)] dest: keepsD [OF refresh_tick_ok assms(1)])

lemma cluster_reachable_ok:
  assumes "cluster_new C seeds config replicas envs = Some (Ok s0)" and "cluster_reachable C s0 s"
  shows "cluster_ok Q config (\<lambda>_. 0) s"
  by (rule cluster_runs.invariant [where I = "cluster_ok Q config (\<lambda>_. 0)", OF cluster_new_ok [OF assms(1)]
        cluster_step_ok assms(2)])

end

lemma wf_slots_shape: "wf_slots ranges = wf_slots (map range_shape ranges)"
  by (simp add: wf_slots_def range_shape_def list_all_length sorted_wrt_iff_nth_less)

section \<open>Properties\<close>

text \<open>The constructor on a seed that answers: a pool for every node of the topology it reports.\<close>

lemma cluster_new_reply:
  assumes "crate_env C" and "cfg_password config = None" and "dialing env = Dialed st" and "writes st = WriteOk t # ws"
    and "list_all (delivers (cfg_max_buffer_size config)) (inbox st)"
    and "parse C (concat (map event_data (inbox st))) = Ok (v, n)" and "from_cluster_slots v = Ok ranges"
  shows "cluster_new C (seed # seeds) config replicas (env # envs) =
    Some (Ok \<lparr>nodes = ensure_pools config ranges [], slot_map = ranges, cluster_config = config,
              read_from_replicas = replicas, env_script = envs\<rparr>)"
proof -
  let ?c = "\<lparr>stream = st\<lparr>peer := fst seed @ '':'' @ decimal (snd seed)\<rparr>, buf = [],
      max_buf_size = cfg_max_buffer_size config, read_timeout = None, last_used = clock st\<rparr>"
  have h: "healthy ?c" and w: "writes (stream ?c) = WriteOk t # ws" and p: "parse C (pending_input ?c) = Ok (v, n)"
    using assms(4-6) by (simp_all add: healthy_def pending_input_def)
  obtain c' where "execute_str C [''CLUSTER'', ''SLOTS''] ?c = Some (Ok v, c')"
    using crate_env.execute_str_stream [OF assms(1) w h p] by metis
  with assms(2,3,7) show ?thesis
    by (cases seed) (simp add: cluster_new_def refresh_slots_from_def connect_timeout_with_max_buf_def
        connect_with_max_buf_def init_def select_db_def io_bind_def io_return_def Let_def)
qed

definition slots_stream :: tcp_stream where
  "slots_stream = \<lparr>clock = 0, inbox = [ReadEvent 1 65536 (Data (''*1'' @ crlf @ ''*3'' @ crlf @ '':0'' @ crlf @ '':9'' @ crlf @
     ''*2'' @ crlf @ ''$1'' @ crlf @ ''a'' @ crlf @ '':1'' @ crlf))], writes = [WriteOk 1], sent = [], peer = []\<rparr>"

definition one_range :: "SlotRange list" where
  "one_range = [\<lparr>range_start = 0, range_end = 9, range_master = ''a:1'', range_replicas = []\<rparr>]"

definition small_cluster :: ClusterRouter where
  "small_cluster = \<lparr>nodes = [(''a:1'', pool_new (default_config\<lparr>cfg_host := ''a'', cfg_port := 1\<rparr>))], slot_map = one_range,
     cluster_config = default_config, read_from_replicas = False, env_script = []\<rparr>"

lemma small_cluster_new:
  "cluster_new (documented_crates (\<lambda>_. True)) [(''s'', 7)] default_config False
     (\<lparr>at_get = 0, at_drop = 0, dialing = Dialed slots_stream\<rparr> # envs) = Some (Ok (small_cluster\<lparr>env_script := envs\<rparr>))"
proof -
  let ?C = "documented_crates (\<lambda>_. True)" and ?v = "Array [Array [Integer 0, Integer 9, Array [BulkString ''a'', Integer 1]]]"
  have d: "concat (map event_data (inbox slots_stream)) = ''*1'' @ crlf @ ''*3'' @ crlf @ '':0'' @ crlf @ '':9'' @ crlf @
     ''*2'' @ crlf @ ''$1'' @ crlf @ ''a'' @ crlf @ '':1'' @ crlf" by (simp add: slots_stream_def event_data_def)
  have "parse ?C (concat (map event_data (inbox slots_stream))) = Ok (?v, 31)" unfolding d by code_simp
  moreover have "from_cluster_slots ?v = Ok one_range" by code_simp
  moreover have "ensure_pools default_config one_range [] = nodes small_cluster"
    by (simp add: ensure_pools_def one_range_def ensure_pool_for_def small_cluster_def node_pool_config_def rsplit_once_def
        parse_u16_def parse_unsigned_def ascii_digit_def digit_val_def default_config_def)
  ultimately show ?thesis
    using cluster_new_reply [OF documented.crate_env_axioms, of default_config
        "\<lparr>at_get = 0, at_drop = 0, dialing = Dialed slots_stream\<rparr>" slots_stream 1 "[]" "\<lambda>_. True" ?v 31 one_range
        "(''s'', 7)" "[]" False envs]
    by (simp add: small_cluster_def slots_stream_def delivers_def default_config_def)
qed

text \<open>
  No call leaks a connection of the cluster router. After any sequence of commands,
  pipelines and topology refreshes, whatever the nodes and the network did: every node has one
  pool, all its permits are available again, it keeps no more idle connections than its size,
  and it is configured for the address it is filed under; the slot map is sorted.
\<close>

lemma cluster_pools_balanced:
  assumes "cluster_new C seeds config replicas envs = Some (Ok s0)" and "cluster_reachable C s0 s"
  shows "distinct (map fst (nodes s)) \<and> sorted (map range_start (slot_map s)) \<and>
    (\<forall>(a, p) \<in> set (nodes s). available p = cfg_pool_size config \<and> idle_count p \<le> cfg_pool_size config \<and>
       node_pool_config config a = Some (pool_config p)) \<and>
    cluster_pool_available s = length (nodes s) * cfg_pool_size config"
proof -
  have ok: "cluster_ok (\<lambda>ranges. sorted (map range_start ranges)) config (\<lambda>_. 0) s"
    by (rule sorted_starts.cluster_reachable_ok [OF assms])
  then have each: "\<forall>(a, p) \<in> set (nodes s). available p = cfg_pool_size config \<and> idle_count p \<le> cfg_pool_size config \<and>
       node_pool_config config a = Some (pool_config p)"
    by (auto simp: cluster_ok_def pools_ok_def balanced_def available_def idle_count_def)
  then have "map (\<lambda>(_, p). available p) (nodes s) = map (\<lambda>_. cfg_pool_size config) (nodes s)" by auto
  then have "cluster_pool_available s = length (nodes s) * cfg_pool_size config"
    by (simp add: cluster_pool_available_def map_replicate_const sum_list_replicate)
  with ok each show ?thesis by (auto simp: cluster_ok_def pools_ok_def)
qed

lemma cluster_pools_balanced_witness: "cluster_pool_available small_cluster = 8"
  using cluster_pools_balanced [OF small_cluster_new [of "[]"] cluster_reachable.start]
  by (simp add: small_cluster_def default_config_def cluster_pool_available_def)

text \<open>Which connection the router gets for an address.\<close>

lemma fst_get_pool:
  "fst (get_pool a s) = (case map_of (nodes s) a of Some p \<Rightarrow> p
     | None \<Rightarrow> pool_new (unwrap_or (cluster_config s) (node_pool_config (cluster_config s) a)))"
  by (auto simp: get_pool_def Let_def ensure_pool_for_def split: option.splits)

definition gets :: "crates \<Rightarrow> call_env \<Rightarrow> string \<Rightarrow> ClusterRouter \<Rightarrow> RedisConnection \<Rightarrow> bool" where
  "gets C env a s conn \<longleftrightarrow> (\<exists>p. pool_get C (at_get env) (dialing env) (fst (get_pool a s)) = Some (Ok conn, p))"

text \<open>
  The connection got for an address in state \<open>s\<close> has become \<open>conn'\<close> and was given back to the
  pool it came from, which in state \<open>s'\<close> is filed under that address.
\<close>

definition gave_back :: "crates \<Rightarrow> call_env \<Rightarrow> string \<Rightarrow> ClusterRouter \<Rightarrow> RedisConnection \<Rightarrow> ClusterRouter \<Rightarrow> bool" where
  "gave_back C env a s conn' s' \<longleftrightarrow>
     (\<exists>conn p. pool_get C (at_get env) (dialing env) (fst (get_pool a s)) = Some (Ok conn, p) \<and>
        map_of (nodes s') a = Some (guard_drop (at_drop env) (Some conn') p))"

lemma put_pool_simps [simp]:
  "cluster_config (put_pool a q s) = cluster_config s" "slot_map (put_pool a q s) = slot_map s"
  by (simp_all add: put_pool_def)

lemma put_pool_other: "b \<noteq> a \<Longrightarrow> map_of (nodes (put_pool a q s)) b = map_of (nodes s) b"
proof -
  have "b \<noteq> a \<Longrightarrow> map_of (map (\<lambda>(c, p). if c = a then (c, q) else (c, p)) ns) b = map_of ns b" for ns
    by (induction ns) auto
  then show "b \<noteq> a \<Longrightarrow> map_of (nodes (put_pool a q s)) b = map_of (nodes s) b" by (simp add: put_pool_def)
qed

lemma put_pool_same: "map_of (nodes s) a \<noteq> None \<Longrightarrow> map_of (nodes (put_pool a q s)) a = Some q"
proof -
  have "map_of ns a \<noteq> None \<Longrightarrow> map_of (map (\<lambda>(c, p). if c = a then (c, q) else (c, p)) ns) a = Some q" for ns
    by (induction ns) (auto split: if_splits)
  then show "map_of (nodes s) a \<noteq> None \<Longrightarrow> map_of (nodes (put_pool a q s)) a = Some q" by (simp add: put_pool_def)
qed

lemma node_pool_config_colon: "node_pool_config config a = None \<longleftrightarrow> CHR '':'' \<notin> set a"
  using rsplit_once_None [of "CHR '':''" a] by (auto simp: node_pool_config_def split: option.splits)

lemma on_node_gets:
  assumes "env_script s = env # envs" and "gets C env a s conn" and "body conn = Some (r, conn')"
  obtains s' where "on_node C a body s = Some (r, s')" "env_script s' = envs" "slot_map s' = slot_map s"
    "\<forall>b. b \<noteq> a \<longrightarrow> map_of (nodes s') b = map_of (nodes s) b" "cluster_config s' = cluster_config s"
    "CHR '':'' \<in> set a \<longrightarrow> gave_back C env a s conn' s'"
proof -
  obtain p where p: "pool_get C (at_get env) (dialing env) (fst (get_pool a s)) = Some (Ok conn, p)"
    using assms(2) by (auto simp: gets_def)
  let ?ns = "ensure_pool_for (cluster_config s) (nodes s) a"
  let ?s1 = "put_pool a p (s\<lparr>env_script := envs, nodes := ?ns\<rparr>)"
  let ?s' = "node_drop a (at_drop env) conn' ?s1"
  have "get_pool a (s\<lparr>env_script := envs\<rparr>) = (fst (get_pool a s), s\<lparr>env_script := envs, nodes := ?ns\<rparr>)"
    by (simp add: get_pool_def Let_def)
  then have run: "on_node C a body s = Some (r, ?s')"
    using assms(1,3) p by (simp add: on_node_def cl_bind_def node_get_def)
  have other: "map_of (nodes ?s') b = map_of (nodes s) b" if "b \<noteq> a" for b
    using that by (simp add: node_drop_def put_pool_other ensure_pool_for_def split: option.split)
  have "map_of (nodes ?s') a = Some (guard_drop (at_drop env) (Some conn') p)" if "CHR '':'' \<in> set a"
  proof -
    have "map_of ?ns a \<noteq> None"
      using that node_pool_config_colon [of "cluster_config s" a] by (auto simp: ensure_pool_for_def split: option.splits)
    then have "map_of (nodes ?s1) a = Some p" by (simp add: put_pool_same)
    then show ?thesis by (simp add: node_drop_def put_pool_same current_pool_def)
  qed
  with p have "CHR '':'' \<in> set a \<longrightarrow> gave_back C env a s conn' ?s'" by (auto simp: gave_back_def)
  with run other show thesis by (intro that [of ?s']) (simp_all add: node_drop_def put_pool_def)
qed

text \<open>What the router would get for an address depends on the pool of that address only.\<close>

lemma get_pool_cong:
  assumes "map_of (nodes t) b = map_of (nodes s) b" and "cluster_config t = cluster_config s"
  shows "fst (get_pool b t) = fst (get_pool b s)"
  by (simp only: fst_get_pool assms)

lemma gets_cong:
  assumes "map_of (nodes t) b = map_of (nodes s) b" and "cluster_config t = cluster_config s"
  shows "gets C env b t = gets C env b s" and "gave_back C env b t = gave_back C env b s"
  by (simp_all add: gets_def gave_back_def get_pool_cong [OF assms] fun_eq_iff)

lemma update_map_simps [simp]:
  "nodes (update_map slot a s) = nodes s" "cluster_config (update_map slot a s) = cluster_config s"
  "env_script (update_map slot a s) = env_script s" "slot_map (update_map slot a s) = update_slot_master (slot_map s) slot a"
  by (simp_all add: update_map_def)

text \<open>
  One hop: the first node answers MOVED, the second one answers. Both were sent the command,
  and both connections are back in the pools they came from.
\<close>

lemma execute_on_moved:
  assumes "crate_env C" and "env_script s = env1 # env2 # envs" and "a \<noteq> b"
    and "gets C env1 a s c1" and "healthy c1" and "writes (stream c1) = WriteOk t1 # ws1"
    and "parse C (pending_input c1) = Ok (Error msg, n1)" and "fst (from_error_msg msg) = Moved slot b"
    and "gets C env2 b s c2" and "healthy c2" and "writes (stream c2) = WriteOk t2 # ws2"
    and "parse C (pending_input c2) = Ok (v, n2)" and "as_error_msg v = None"
  obtains s' c1' c2' where "execute_on C (Suc k) a args s = Some (Ok v, s')"
    "slot_map s' = update_slot_master (slot_map s) slot b"
    "sent (stream c1') = sent (stream c1) @ encode_command C args" "peer (stream c1') = peer (stream c1)"
    "sent (stream c2') = sent (stream c2) @ encode_command C args" "peer (stream c2') = peer (stream c2)"
    "CHR '':'' \<in> set a \<longrightarrow> gave_back C env1 a s c1' s'" "CHR '':'' \<in> set b \<longrightarrow> gave_back C env2 b s c2' s'"
proof -
  let ?body = "io_bind (send_raw (encode_command_str C args)) (\<lambda>_. read_response C)"
  obtain c1' where b1: "?body c1 = Some (Ok (Error msg), c1')"
    and c1': "sent (stream c1') = sent (stream c1) @ encode_command C args" "peer (stream c1') = peer (stream c1)"
    using crate_env.execute_str_stream [OF assms(1,6,5,7)] by (metis execute_str_def)
  obtain c2' where b2: "?body c2 = Some (Ok v, c2')"
    and c2': "sent (stream c2') = sent (stream c2) @ encode_command C args" "peer (stream c2') = peer (stream c2)"
    using crate_env.execute_str_stream [OF assms(1,11,10,12)] by (metis execute_str_def)
  obtain s1 where s1: "on_node C a ?body s = Some (Ok (Error msg), s1)" "env_script s1 = env2 # envs"
    "slot_map s1 = slot_map s" "cluster_config s1 = cluster_config s"
    and other1: "\<forall>b. b \<noteq> a \<longrightarrow> map_of (nodes s1) b = map_of (nodes s) b"
    and g1: "CHR '':'' \<in> set a \<longrightarrow> gave_back C env1 a s c1' s1"
    by (rule on_node_gets [where body = ?body, OF assms(2,4) b1])
  let ?s1 = "update_map slot b s1"
  have same: "map_of (nodes ?s1) b = map_of (nodes s) b" "cluster_config ?s1 = cluster_config s"
    using other1 assms(3) s1(4) by simp_all
  have "gets C env2 b ?s1 c2" "env_script ?s1 = env2 # envs" using gets_cong(1) [OF same] assms(9) s1(2) by simp_all
  then obtain s2 where s2: "on_node C b ?body ?s1 = Some (Ok v, s2)" "slot_map s2 = slot_map ?s1"
    and other2: "\<forall>a. a \<noteq> b \<longrightarrow> map_of (nodes s2) a = map_of (nodes ?s1) a"
    and g2: "CHR '':'' \<in> set b \<longrightarrow> gave_back C env2 b ?s1 c2' s2"
    using on_node_gets [where body = ?body, of ?s1 env2 envs C b c2, OF _ _ b2] by blast
  have "reply_kind v = None" using assms(13) by (cases v) (simp_all add: reply_kind_def)
  then have "execute_on C k b args ?s1 = Some (Ok v, s2)" by (subst execute_on.simps) (simp add: cl_bind_def s2(1))
  moreover have "reply_kind (Error msg) = Some (Moved slot b, msg)" using assms(8) by (simp add: reply_kind_def)
  ultimately have "execute_on C (Suc k) a args s = Some (Ok v, s2)" by (subst execute_on.simps) (simp add: cl_bind_def s1(1))
  moreover have "CHR '':'' \<in> set a \<longrightarrow> gave_back C env1 a s c1' s2"
    using g1 other2 assms(3) by (simp add: gave_back_def)
  moreover have "CHR '':'' \<in> set b \<longrightarrow> gave_back C env2 b s c2' s2" using g2 gets_cong(2) [OF same] by simp
  ultimately show thesis using that [of s2 c1' c2'] s2(2) s1(3) c1' c2' by simp
qed

text \<open>
  An ASK reply is followed for this command only: ASKING and the command go to the other node,
  the reply to ASKING is read and ignored, whatever it is, and the slot map stays.
\<close>

lemma ask_is_followed:
  assumes "crate_env C" and "env_script s = env1 # env2 # envs" and "a \<noteq> b"
    and "gets C env1 a s c1" and "healthy c1" and "writes (stream c1) = WriteOk t1 # ws1"
    and "parse C (pending_input c1) = Ok (Error msg, n1)" and "fst (from_error_msg msg) = Ask slot b"
    and "gets C env2 b s c2" and "healthy c2" and "writes (stream c2) = WriteOk t2 # WriteOk t3 # ws2"
    and "parse C (pending_input c2) = Ok (w, n2)" and "parse C (drop n2 (pending_input c2)) = Ok (v, n3)"
  shows "\<exists>s'. execute_on C (Suc k) a args s = Some (Ok v, s') \<and> slot_map s' = slot_map s"
proof -
  let ?send = "\<lambda>args. io_bind (send_raw (encode_command_str C args)) (\<lambda>_. read_response C)"
  obtain c1' where b1: "?send args c1 = Some (Ok (Error msg), c1')"
    using crate_env.execute_str_stream [OF assms(1,6,5,7)] by (metis execute_str_def)
  obtain c3 where c3: "execute_str C [''ASKING''] c2 = Some (Ok w, c3)" "writes (stream c3) = WriteOk t3 # ws2"
    "pending_input c3 = drop n2 (pending_input c2)" "healthy c3"
    using crate_env.execute_str_stream [OF assms(1,11,10,12)] by metis
  obtain c4 where c4: "execute_str C args c3 = Some (Ok v, c4)"
    using crate_env.execute_str_stream [OF assms(1) c3(2,4)] assms(13) c3(3) by metis
  let ?ask = "io_bind (send_raw (encode_command_str C [''ASKING''])) (\<lambda>_. io_bind (read_response C) (\<lambda>_. ?send args))"
  have b2: "?ask c2 = Some (Ok v, c4)"
    using c3(1) c4 by (auto simp: execute_str_def io_bind_def split: option.splits result.splits)
  obtain s1 where s1: "on_node C a (?send args) s = Some (Ok (Error msg), s1)" "env_script s1 = env2 # envs"
    "slot_map s1 = slot_map s" "\<forall>b. b \<noteq> a \<longrightarrow> map_of (nodes s1) b = map_of (nodes s) b" "cluster_config s1 = cluster_config s"
    by (rule on_node_gets [where body = "?send args", OF assms(2,4) b1])
  then have g: "gets C env2 b s1 c2" using gets_cong(1) [of s1 b s] assms(3,9) by simp
  obtain s2 where s2: "ask_node C b args s1 = Some (Ok v, s2)" "slot_map s2 = slot_map s1"
    unfolding ask_node_def by (rule on_node_gets [where body = ?ask, OF s1(2) g b2])
  have "reply_kind (Error msg) = Some (Ask slot b, msg)" using assms(8) by (simp add: reply_kind_def)
  with s1 s2 show ?thesis by (subst execute_on.simps) (simp add: cl_bind_def)
qed

text \<open>The pool the router makes for an address it did not know connects to that address.\<close>

lemma unknown_node_peer:
  assumes "map_of (nodes s) (h @ '':'' @ decimal p) = None" and "p < 65536" and "gets C env (h @ '':'' @ decimal p) s conn"
  shows "peer (stream conn) = h @ '':'' @ decimal p"
proof -
  have "rsplit_once CHR '':'' (h @ '':'' @ decimal p) = Some (h, decimal p)"
    using rsplit_once_append [of "CHR '':''" "decimal p" h] decimal_no_punct(2) by simp
  then show ?thesis
    using assms parse_u16_decimal [OF assms(2)]
    by (auto simp: gets_def fst_get_pool node_pool_config_def primary_addr_def dest!: new_pool_peer)
qed

text \<open>
  C21: A moved slot is followed. When the node a command is routed to answers MOVED, the command is
  sent again, byte for byte, on the connection the router gets for the address the reply names,
  and the answer read there is the result. Both nodes have been sent exactly the encoded command,
  each on the connection that came out of its pool and went back into it; for an address the
  router did not know this is a connection dialled to that address. The slot map sends the range
  of the slot to the new node from now on.
\<close>

theorem moved_is_followed:
  assumes "crate_env C" and "args \<noteq> []" and "target_addr s args = a" and "CHR '':'' \<in> set a" and "CHR '':'' \<in> set b"
    and "env_script s = env1 # env2 # envs" and "a \<noteq> b" and "gets C env1 a s c1" and "healthy c1" and "writes (stream c1) = WriteOk t1 # ws1"
    and "parse C (pending_input c1) = Ok (Error msg, n1)" and "fst (from_error_msg msg) = Moved slot b"
    and "gets C env2 b s c2" and "healthy c2" and "writes (stream c2) = WriteOk t2 # ws2"
    and "parse C (pending_input c2) = Ok (v, n2)" and "as_error_msg v = None"
  shows "\<exists>s' c1' c2'. execute_routed C args s = Some (Ok v, s') \<and>
    gave_back C env1 a s c1' s' \<and> sent (stream c1') = sent (stream c1) @ encode_command C args \<and>
    gave_back C env2 b s c2' s' \<and> sent (stream c2') = sent (stream c2) @ encode_command C args \<and>
    (\<forall>h p. b = h @ '':'' @ decimal p \<longrightarrow> p < 65536 \<longrightarrow> map_of (nodes s) b = None \<longrightarrow> peer (stream c2') = b) \<and>
    slot_map s' = update_slot_master (slot_map s) slot b \<and>
    (wf_slots (slot_map s) \<longrightarrow> (\<exists>r \<in> set (slot_map s). covers r slot) \<longrightarrow> master_for_slot (slot_map s') slot = Some b)"
proof -
  have five: "MAX_REDIRECTS = Suc 4" and a: "a \<noteq> []" using assms(4) by (auto simp: MAX_REDIRECTS_def)
  obtain s' c1' c2' where s': "execute_on C (Suc 4) a args s = Some (Ok v, s')" "slot_map s' = update_slot_master (slot_map s) slot b"
    and sent: "sent (stream c1') = sent (stream c1) @ encode_command C args" "sent (stream c2') = sent (stream c2) @ encode_command C args"
    and peer: "peer (stream c2') = peer (stream c2)"
    and given: "gave_back C env1 a s c1' s'" "gave_back C env2 b s c2' s'"
    using execute_on_moved [OF assms(1,6-17), of 4 args] assms(4,5) by blast
  have "execute_routed C args s = Some (Ok v, s')"
    using s'(1) five a assms(2,3) by (simp add: execute_routed_def)
  moreover have "master_for_slot (slot_map s') slot = Some b"
    if "wf_slots (slot_map s)" "r \<in> set (slot_map s)" "covers r slot" for r
    using update_slot_master_lookup [OF that, of b slot] that(3) s'(2) by simp
  moreover have "peer (stream c2') = b" if "b = h @ '':'' @ decimal p" "p < 65536" "map_of (nodes s) b = None" for h p
    using unknown_node_peer [of s h p C env2 c2] that assms(13) peer by simp
  ultimately show ?thesis using sent given s'(2) by blast
qed

definition line_stream :: "bytes \<Rightarrow> tcp_stream" where
  "line_stream bs = \<lparr>clock = 0, inbox = [ReadEvent 1 65536 (Data (bs @ crlf))], writes = [WriteOk 1], sent = [], peer = []\<rparr>"

definition line_env :: "bytes \<Rightarrow> call_env" where
  "line_env bs = \<lparr>at_get = 0, at_drop = 0, dialing = Dialed (line_stream bs)\<rparr>"

lemma line_gets:
  assumes "fst (get_pool a s) = pool_new cfg" and "no_handshake cfg"
  shows "gets C (line_env bs) a s (fresh_conn cfg (line_stream bs))"
  using fresh_pool_get [OF assms(2), of C 0 "line_stream bs"] assms(1) by (simp add: gets_def line_env_def)

lemma line_conn:
  assumes "65536 < cfg_max_buffer_size cfg"
  shows "healthy (fresh_conn cfg (line_stream bs))" "pending_input (fresh_conn cfg (line_stream bs)) = bs @ crlf"
    "writes (stream (fresh_conn cfg (line_stream bs))) = WriteOk 1 # []"
  using assms by (simp_all add: healthy_def pending_input_def fresh_conn_def set_read_timeout_def line_stream_def
      delivers_def event_data_def)

definition moved_cluster :: ClusterRouter where
  "moved_cluster = small_cluster\<lparr>env_script := [line_env ''-MOVED 3 b:2'', line_env ''+PONG'']\<rparr>"

definition node_a :: ConnectionConfig where "node_a = default_config\<lparr>cfg_host := ''a'', cfg_port := 1\<rparr>"
definition node_b :: ConnectionConfig where "node_b = default_config\<lparr>cfg_host := ''b'', cfg_port := 2\<rparr>"

lemma moved_cluster_gets:
  "gets C (line_env bs) ''a:1'' moved_cluster (fresh_conn node_a (line_stream bs))"
  "gets C (line_env bs) ''b:2'' moved_cluster (fresh_conn node_b (line_stream bs))"
proof -
  have "node_pool_config default_config ''b:2'' = Some node_b"
    by (simp add: node_pool_config_def rsplit_once_def parse_u16_def parse_unsigned_def ascii_digit_def digit_val_def
        default_config_def node_b_def)
  then show "gets C (line_env bs) ''a:1'' moved_cluster (fresh_conn node_a (line_stream bs))"
    "gets C (line_env bs) ''b:2'' moved_cluster (fresh_conn node_b (line_stream bs))"
    by (auto intro!: line_gets simp: fst_get_pool moved_cluster_def small_cluster_def no_handshake_def default_config_def
        node_a_def node_b_def)
qed

text \<open>The facts about this redirect, in the order of the hypotheses of \<open>execute_on_moved\<close>.\<close>

lemma moved_cluster_facts:
  "env_script moved_cluster = [line_env ''-MOVED 3 b:2'', line_env ''+PONG'']" "''a:1'' \<noteq> ''b:2''"
  "gets C (line_env ''-MOVED 3 b:2'') ''a:1'' moved_cluster (fresh_conn node_a (line_stream ''-MOVED 3 b:2''))"
  "healthy (fresh_conn node_a (line_stream ''-MOVED 3 b:2''))"
  "writes (stream (fresh_conn node_a (line_stream ''-MOVED 3 b:2''))) = [WriteOk 1]"
  "parse (documented_crates (\<lambda>_. True)) (pending_input (fresh_conn node_a (line_stream ''-MOVED 3 b:2''))) =
     Ok (Error ''MOVED 3 b:2'', 14)"
  "fst (from_error_msg ''MOVED 3 b:2'') = Moved 3 ''b:2''"
  "gets C (line_env ''+PONG'') ''b:2'' moved_cluster (fresh_conn node_b (line_stream ''+PONG''))"
  "healthy (fresh_conn node_b (line_stream ''+PONG''))"
  "writes (stream (fresh_conn node_b (line_stream ''+PONG''))) = [WriteOk 1]"
  "parse (documented_crates (\<lambda>_. True)) (pending_input (fresh_conn node_b (line_stream ''+PONG''))) =
     Ok (SimpleString ''PONG'', 7)"
  "as_error_msg (SimpleString ''PONG'') = None"
proof -
  have big: "65536 < cfg_max_buffer_size node_a" "65536 < cfg_max_buffer_size node_b"
    by (simp_all add: default_config_def node_a_def node_b_def)
  show "healthy (fresh_conn node_a (line_stream ''-MOVED 3 b:2''))" "healthy (fresh_conn node_b (line_stream ''+PONG''))"
    "writes (stream (fresh_conn node_a (line_stream ''-MOVED 3 b:2''))) = [WriteOk 1]"
    "writes (stream (fresh_conn node_b (line_stream ''+PONG''))) = [WriteOk 1]"
    using line_conn [OF big(1)] line_conn [OF big(2)] by simp_all
  show "parse (documented_crates (\<lambda>_. True)) (pending_input (fresh_conn node_a (line_stream ''-MOVED 3 b:2''))) =
     Ok (Error ''MOVED 3 b:2'', 14)" unfolding line_conn(2) [OF big(1)] by code_simp
  show "parse (documented_crates (\<lambda>_. True)) (pending_input (fresh_conn node_b (line_stream ''+PONG''))) =
     Ok (SimpleString ''PONG'', 7)" unfolding line_conn(2) [OF big(2)] by code_simp
  have "decimal 3 = ''3''" by code_simp
  then show "fst (from_error_msg ''MOVED 3 b:2'') = Moved 3 ''b:2''" using from_error_msg_moved [of 3 "''b:2''"] by simp
qed (simp_all add: moved_cluster_gets moved_cluster_def [THEN arg_cong [where f = env_script]])

lemma moved_cluster_target: "target_addr moved_cluster [''PING''] = ''a:1''"
proof -
  have "extract_key [''PING''] = None" by code_simp
  then show ?thesis by (simp add: target_addr_def moved_cluster_def small_cluster_def one_range_def)
qed

lemma moved_cluster_runs:
  "\<exists>s'. execute_routed (documented_crates (\<lambda>_. True)) [''PING''] moved_cluster = Some (Ok (SimpleString ''PONG''), s') \<and>
     slot_map s' = update_slot_master one_range 3 ''b:2''"
proof -
  obtain s' where "execute_on (documented_crates (\<lambda>_. True)) (Suc 4) ''a:1'' [''PING''] moved_cluster = Some (Ok (SimpleString ''PONG''), s')"
    "slot_map s' = update_slot_master (slot_map moved_cluster) 3 ''b:2''"
    by (rule execute_on_moved [OF documented.crate_env_axioms moved_cluster_facts])
  then show ?thesis
    by (simp add: execute_routed_def moved_cluster_target MAX_REDIRECTS_def) (simp add: moved_cluster_def small_cluster_def)
qed

theorem moved_is_followed_witness:
  "\<exists>s' c1 c2. execute_routed (documented_crates (\<lambda>_. True)) [''PING''] moved_cluster = Some (Ok (SimpleString ''PONG''), s') \<and>
     gave_back (documented_crates (\<lambda>_. True)) (line_env ''-MOVED 3 b:2'') ''a:1'' moved_cluster c1 s' \<and>
     sent (stream c1) = encode_command (documented_crates (\<lambda>_. True)) [''PING''] \<and>
     gave_back (documented_crates (\<lambda>_. True)) (line_env ''+PONG'') ''b:2'' moved_cluster c2 s' \<and>
     sent (stream c2) = encode_command (documented_crates (\<lambda>_. True)) [''PING''] \<and> peer (stream c2) = ''b:2'' \<and>
     slot_map s' = update_slot_master one_range 3 ''b:2''"
proof -
  have b: "''b:2'' = ''b'' @ '':'' @ decimal 2" by (simp add: decimal.simps)
  have "map_of (nodes moved_cluster) ''b:2'' = None" "slot_map moved_cluster = one_range"
    "sent (line_stream bs) = []" for bs
    by (simp_all add: moved_cluster_def small_cluster_def line_stream_def)
  note here = this
  obtain s' c1 c2 where run:
    "execute_routed (documented_crates (\<lambda>_. True)) [''PING''] moved_cluster = Some (Ok (SimpleString ''PONG''), s')"
    "gave_back (documented_crates (\<lambda>_. True)) (line_env ''-MOVED 3 b:2'') ''a:1'' moved_cluster c1 s'"
    "sent (stream c1) = sent (stream (fresh_conn node_a (line_stream ''-MOVED 3 b:2''))) @ encode_command (documented_crates (\<lambda>_. True)) [''PING'']"
    "gave_back (documented_crates (\<lambda>_. True)) (line_env ''+PONG'') ''b:2'' moved_cluster c2 s'"
    "sent (stream c2) = sent (stream (fresh_conn node_b (line_stream ''+PONG''))) @ encode_command (documented_crates (\<lambda>_. True)) [''PING'']"
    and peer: "\<forall>h p. ''b:2'' = h @ '':'' @ decimal p \<longrightarrow> p < 65536 \<longrightarrow> map_of (nodes moved_cluster) ''b:2'' = None \<longrightarrow>
      peer (stream c2) = ''b:2''" and map: "slot_map s' = update_slot_master (slot_map moved_cluster) 3 ''b:2''"
    using moved_is_followed [OF documented.crate_env_axioms _ moved_cluster_target _ _ moved_cluster_facts] by force
  have "peer (stream c2) = ''b:2''" using peer [rule_format, of "''b''" 2] b here(1) by simp
  with run map here show ?thesis by (intro exI [of _ s'] exI [of _ c1] exI [of _ c2]) simp
qed

text \<open>
  Redirects only rename masters. However many MOVED and ASK replies commands and pipelines
  run into, the ranges of the slot map and their replicas stay what the last refresh made them,
  so a well-formed map stays well-formed and every lookup stays exact.
\<close>

lemma redirects_keep_ranges:
  assumes "cluster_new C seeds config replicas envs = Some (Ok s0)" and "cluster_reachable C s0 s"
    and "(command_step C)\<^sup>*\<^sup>* s t"
  shows "map range_shape (slot_map t) = map range_shape (slot_map s) \<and> (wf_slots (slot_map t) \<longleftrightarrow> wf_slots (slot_map s))"
proof -
  have "cluster_ok (\<lambda>ranges. map range_shape ranges = map range_shape (slot_map s)) config (\<lambda>_. 0) s"
    using sorted_starts.cluster_reachable_ok [OF assms(1,2)] by (simp add: cluster_ok_def)
  from shape.commands_ok [OF assms(3) this] have "map range_shape (slot_map t) = map range_shape (slot_map s)"
    by (simp add: cluster_ok_def)
  then show ?thesis by (metis wf_slots_shape)
qed

text \<open>The same redirect, on a router from its constructor.\<close>

lemma moved_cluster_new:
  "cluster_new (documented_crates (\<lambda>_. True)) [(''s'', 7)] default_config False
     (\<lparr>at_get = 0, at_drop = 0, dialing = Dialed slots_stream\<rparr> # env_script moved_cluster) = Some (Ok moved_cluster)"
  using small_cluster_new [of "env_script moved_cluster"] by (simp add: moved_cluster_def)

lemma redirects_keep_ranges_witness:
  "\<exists>t. (command_step (documented_crates (\<lambda>_. True)))\<^sup>*\<^sup>* moved_cluster t \<and>
     master_for_slot (slot_map t) 3 = Some ''b:2'' \<and> wf_slots (slot_map t)"
proof -
  let ?C = "documented_crates (\<lambda>_. True)"
  from moved_cluster_runs obtain s' where e: "execute_routed ?C [''PING''] moved_cluster = Some (Ok (SimpleString ''PONG''), s')"
    "slot_map s' = update_slot_master one_range 3 ''b:2''" by blast
  then have t: "(command_step ?C)\<^sup>*\<^sup>* moved_cluster s'" by (blast intro: command_step.Command r_into_rtranclp)
  have w: "wf_slots (slot_map moved_cluster)" by (simp add: moved_cluster_def small_cluster_def one_range_def wf_slots_def)
  have "master_for_slot (slot_map s') 3 = Some ''b:2''"
    using update_slot_master_lookup [of one_range "hd one_range" 3 "''b:2''" 3] e(2) w
    by (simp add: moved_cluster_def small_cluster_def one_range_def covers_def)
  with redirects_keep_ranges [OF moved_cluster_new cluster_reachable.start t] t w show ?thesis by blast
qed

end
