(* ===== verification/Sentinel.thy ===== *)
theory Sentinel
  imports Standalone
begin

text \<open>
  \<open>src/src/router/sentinel.rs\<close>: the sentinel router. Master resolution asks the sentinels
  in order; a command is retried after a failover on connection errors and READONLY
  replies. Each sentinel contacted draws the outcome of its dialing from \<open>dials\<close>, each
  checkout from the master pool its environment from \<open>calls\<close>. Sleeping between retries
  only takes time.
\<close>

section \<open>Operations\<close>

definition DEFAULT_RETRY_COUNT :: nat where "DEFAULT_RETRY_COUNT = 3"
definition DEFAULT_RETRY_BACKOFF_MS :: nat where "DEFAULT_RETRY_BACKOFF_MS = 100"

record SentinelRouter =
  master_pool :: ConnectionPool
  master_addr :: string
  sentinels :: "(string \<times> nat) list"
  master_name :: string
  sentinel_config :: ConnectionConfig
  retry_count :: nat
  retry_backoff :: nat
  dials :: "dial list"
  calls :: "call_env list"

text \<open>What one sentinel answers: an address, an error that ends the search, or one to remember.\<close>

datatype sentinel_answer = Found string | Abort PyrsedisError | Remember PyrsedisError

definition sentinel_reply :: "string \<Rightarrow> string \<Rightarrow> RespValue \<Rightarrow> sentinel_answer" where
  "sentinel_reply name addr response =
     (case response of
        Array arr \<Rightarrow>
          if 2 \<le> length arr then
            (case as_str (arr ! 0) of
               None \<Rightarrow> Abort (Sentinel ''invalid master host'')
             | Some h \<Rightarrow>
                 (case as_str (arr ! 1) of
                    None \<Rightarrow> Abort (Sentinel ''invalid master port'')
                  | Some p \<Rightarrow> Found (h @ '':'' @ p)))
          else Remember (Sentinel (''unexpected sentinel response: '' @ quoted (type_name response)))
      | Null \<Rightarrow> Remember (Sentinel (''master '' @ [CHR 0x27] @ name @ [CHR 0x27] @ '' not found by sentinel at '' @ addr))
      | other \<Rightarrow> Remember (Sentinel (''unexpected sentinel response: '' @ quoted (type_name other))))"

text \<open>The exchange with one sentinel; a failed AUTH is ignored.\<close>

definition ask_sentinel :: "crates \<Rightarrow> string \<Rightarrow> ConnectionConfig \<Rightarrow> RedisConnection \<Rightarrow> (RespValue res \<times> RedisConnection) option" where
  "ask_sentinel C name config conn =
     (case (case cfg_password config of
              Some pass \<Rightarrow> auth C (cfg_username config) pass conn
            | None \<Rightarrow> Some (Ok (), conn)) of
        None \<Rightarrow> None
      | Some (Panic, conn) \<Rightarrow> Some (Panic, conn)
      | Some (_, conn) \<Rightarrow> execute_str C [''SENTINEL'', ''get-master-addr-by-name'', name] conn)"

fun resolve_loop :: "crates \<Rightarrow> (string \<times> nat) list \<Rightarrow> string \<Rightarrow> ConnectionConfig \<Rightarrow> PyrsedisError option \<Rightarrow> dial list
    \<Rightarrow> (string res \<times> dial list) option" where
  "resolve_loop C [] name config last_err ds =
     Some (Err (unwrap_or (Sentinel ''could not contact any sentinel'') last_err), ds)"
| "resolve_loop C ((h, p) # rest) name config last_err [] = None"
| "resolve_loop C ((h, p) # rest) name config last_err (d # ds) =
     (let addr = h @ '':'' @ decimal p in
      case connect_timeout d addr (cfg_connect_timeout_ms config) of
        Err e \<Rightarrow> resolve_loop C rest name config (Some e) ds
      | Panic \<Rightarrow> Some (Panic, ds)
      | Ok conn \<Rightarrow>
          (case ask_sentinel C name config conn of
             None \<Rightarrow> None
           | Some (Panic, _) \<Rightarrow> Some (Panic, ds)
           | Some (Err e, _) \<Rightarrow> resolve_loop C rest name config (Some e) ds
           | Some (Ok response, _) \<Rightarrow>
               (case sentinel_reply name addr response of
                  Found a \<Rightarrow> Some (Ok a, ds)
                | Abort e \<Rightarrow> Some (Err e, ds)
                | Remember e \<Rightarrow> resolve_loop C rest name config (Some e) ds)))"

definition resolve_master :: "crates \<Rightarrow> (string \<times> nat) list \<Rightarrow> string \<Rightarrow> ConnectionConfig \<Rightarrow> dial list
    \<Rightarrow> (string res \<times> dial list) option" where
  "resolve_master C hosts name config ds = resolve_loop C hosts name config None ds"

definition create_master_pool :: "string \<Rightarrow> ConnectionConfig \<Rightarrow> ConnectionPool" where
  "create_master_pool addr config =
     pool_new (case rsplit_once CHR '':'' addr of
                 Some (h, p) \<Rightarrow> config\<lparr>cfg_host := h, cfg_port := unwrap_or 6379 (parse_u16 p)\<rparr>
               | None \<Rightarrow> config)"

definition sentinel_new :: "crates \<Rightarrow> (string \<times> nat) list \<Rightarrow> string \<Rightarrow> ConnectionConfig \<Rightarrow> nat option \<Rightarrow> nat option
    \<Rightarrow> dial list \<Rightarrow> call_env list \<Rightarrow> SentinelRouter res option" where
  "sentinel_new C hosts name config retries backoff_ms ds envs =
     (if hosts = [] then Some (Err (Sentinel ''at least one sentinel is required''))
      else case resolve_master C hosts name config ds of
        None \<Rightarrow> None
      | Some (Err e, _) \<Rightarrow> Some (Err e)
      | Some (Panic, _) \<Rightarrow> Some Panic
      | Some (Ok addr, ds) \<Rightarrow>
          Some (Ok \<lparr>master_pool = create_master_pool addr config, master_addr = addr, sentinels = hosts,
                    master_name = name, sentinel_config = config,
                    retry_count = unwrap_or DEFAULT_RETRY_COUNT retries,
                    retry_backoff = unwrap_or DEFAULT_RETRY_BACKOFF_MS backoff_ms,
                    dials = ds, calls = envs\<rparr>))"

definition failover :: "crates \<Rightarrow> SentinelRouter \<Rightarrow> (unit res \<times> SentinelRouter) option" where
  "failover C s =
     (case resolve_master C (sentinels s) (master_name s) (sentinel_config s) (dials s) of
        None \<Rightarrow> None
      | Some (Err e, ds) \<Rightarrow> Some (Err e, s\<lparr>dials := ds\<rparr>)
      | Some (Panic, ds) \<Rightarrow> Some (Panic, s\<lparr>dials := ds\<rparr>)
      | Some (Ok new_addr, ds) \<Rightarrow>
          (if new_addr \<noteq> master_addr s then
             Some (Ok (), s\<lparr>dials := ds, master_pool := create_master_pool new_addr (sentinel_config s),
                           master_addr := new_addr\<rparr>)
           else Some (Ok (), s\<lparr>dials := ds\<rparr>)))"

text \<open>
  How one attempt ends: with the result of the call, or with an error to remember before the
  next attempt. An error from taking a connection or from writing always retries; one from
  reading retries only when it is a connection error; a READONLY reply retries.
\<close>

datatype attempt_end = Return "RespValue res" | Retry PyrsedisError

definition is_connection :: "PyrsedisError \<Rightarrow> bool" where
  "is_connection e = (case e of Connection _ \<Rightarrow> True | _ \<Rightarrow> False)"

definition judge_reply :: "RespValue res \<Rightarrow> attempt_end res" where
  "judge_reply r =
     (case r of
        Ok resp \<Rightarrow>
          (case resp of
             Error msg \<Rightarrow> if starts_with ''READONLY'' msg then Ok (Retry (redis_error msg)) else Ok (Return (Ok resp))
           | _ \<Rightarrow> Ok (Return (Ok resp)))
      | Err e \<Rightarrow> if is_connection e then Ok (Retry e) else Ok (Return (Err e))
      | Panic \<Rightarrow> Panic)"

definition converse :: "crates \<Rightarrow> string list \<Rightarrow> attempt_end conn_io" where
  "converse C args conn =
     (case send_raw (encode_command_str C args) conn of
        None \<Rightarrow> None
      | Some (Err e, conn) \<Rightarrow> Some (Ok (Retry e), conn)
      | Some (Panic, conn) \<Rightarrow> Some (Panic, conn)
      | Some (Ok _, conn) \<Rightarrow> map_option (\<lambda>(r, conn). (judge_reply r, conn)) (read_response C conn))"

text \<open>One attempt: a guard from the current pool, the command, its reply, the drop.\<close>

definition attempt :: "crates \<Rightarrow> string list \<Rightarrow> SentinelRouter \<Rightarrow> (attempt_end res \<times> SentinelRouter) option" where
  "attempt C args s =
     (case calls s of
        [] \<Rightarrow> None
      | env # envs \<Rightarrow>
          (case with_guard C env (converse C args) (master_pool s) of
             None \<Rightarrow> None
           | Some (r, pool) \<Rightarrow>
               Some (case r of Err e \<Rightarrow> Ok (Retry e) | _ \<Rightarrow> r, s\<lparr>calls := envs, master_pool := pool\<rparr>)))"

text \<open>The loop \<open>for attempt in 0..=retry_count\<close>; every attempt but the first re-resolves the master.\<close>

fun retry_loop :: "crates \<Rightarrow> string list \<Rightarrow> nat list \<Rightarrow> PyrsedisError option \<Rightarrow> SentinelRouter
    \<Rightarrow> (RespValue res \<times> SentinelRouter) option" where
  "retry_loop C args [] last_err s =
     Some (Err (unwrap_or (Sentinel ''all failover retries exhausted'') last_err), s)"
| "retry_loop C args (k # ks) last_err s =
     (case (if 0 < k then failover C s else Some (Ok (), s)) of
        None \<Rightarrow> None
      | Some (Err e, s) \<Rightarrow> retry_loop C args ks (Some e) s
      | Some (Panic, s) \<Rightarrow> Some (Panic, s)
      | Some (Ok _, s) \<Rightarrow>
          (case attempt C args s of
             None \<Rightarrow> None
           | Some (Ok (Return r), s) \<Rightarrow> Some (r, s)
           | Some (Ok (Retry e), s) \<Rightarrow> retry_loop C args ks (Some e) s
           | Some (Err e, s) \<Rightarrow> Some (Err e, s)
           | Some (Panic, s) \<Rightarrow> Some (Panic, s)))"

definition execute_with_retry :: "crates \<Rightarrow> string list \<Rightarrow> SentinelRouter \<Rightarrow> (RespValue res \<times> SentinelRouter) option" where
  "execute_with_retry C args s = retry_loop C args [0..<Suc (retry_count s)] None s"

text \<open>A pipeline sends its commands one by one and is never retried.\<close>

fun send_each :: "crates \<Rightarrow> string list list \<Rightarrow> unit conn_io" where
  "send_each C [] = io_return (Ok ())"
| "send_each C (cmd # cmds) = io_bind (send_raw (encode_command_str C cmd)) (\<lambda>_. send_each C cmds)"

definition sentinel_pipeline :: "crates \<Rightarrow> string list list \<Rightarrow> SentinelRouter \<Rightarrow> (RespValue list res \<times> SentinelRouter) option" where
  "sentinel_pipeline C commands s =
     (case calls s of
        [] \<Rightarrow> None
      | env # envs \<Rightarrow>
          map_option (\<lambda>(r, pool). (r, s\<lparr>calls := envs, master_pool := pool\<rparr>))
            (with_guard C env (io_bind (send_each C commands) (\<lambda>_. read_replies (read_response C) commands []))
               (master_pool s)))"

definition sentinel_pool_idle_count :: "SentinelRouter \<Rightarrow> nat" where
  "sentinel_pool_idle_count s = idle_count (master_pool s)"

definition sentinel_pool_available :: "SentinelRouter \<Rightarrow> nat" where
  "sentinel_pool_available s = available (master_pool s)"

section \<open>Lemmas\<close>

text \<open>A sentinel that gives no address: unreachable, failing, or not knowing the master.\<close>

definition unhelpful :: "crates \<Rightarrow> string \<Rightarrow> ConnectionConfig \<Rightarrow> string \<times> nat \<Rightarrow> dial \<Rightarrow> bool" where
  "unhelpful C name config hp d \<longleftrightarrow>
     (let addr = fst hp @ '':'' @ decimal (snd hp) in
      case connect_timeout d addr (cfg_connect_timeout_ms config) of
        Err e \<Rightarrow> True
      | Panic \<Rightarrow> False
      | Ok conn \<Rightarrow>
          (case ask_sentinel C name config conn of
             Some (Err e, _) \<Rightarrow> True
           | Some (Ok response, _) \<Rightarrow> (case sentinel_reply name addr response of Remember e \<Rightarrow> True | _ \<Rightarrow> False)
           | _ \<Rightarrow> False))"

text \<open>A sentinel that names the master.\<close>

definition names :: "crates \<Rightarrow> string \<Rightarrow> ConnectionConfig \<Rightarrow> string \<times> nat \<Rightarrow> dial \<Rightarrow> string \<Rightarrow> bool" where
  "names C name config hp d master \<longleftrightarrow>
     (\<exists>conn response conn'. connect_timeout d (fst hp @ '':'' @ decimal (snd hp)) (cfg_connect_timeout_ms config) = Ok conn \<and>
        ask_sentinel C name config conn = Some (Ok response, conn') \<and>
        sentinel_reply name (fst hp @ '':'' @ decimal (snd hp)) response = Found master)"

lemma resolve_loop_unhelpful:
  assumes "unhelpful C name config hp d"
  obtains e where "resolve_loop C (hp # hosts) name config last_err (d # ds) =
    resolve_loop C hosts name config (Some e) ds"
proof -
  obtain h p where hp: "hp = (h, p)" by (cases hp)
  let ?addr = "h @ '':'' @ decimal p"
  from assms hp consider e where "connect_timeout d ?addr (cfg_connect_timeout_ms config) = Err e"
    | conn e conn' where "connect_timeout d ?addr (cfg_connect_timeout_ms config) = Ok conn"
        "ask_sentinel C name config conn = Some (Err e, conn')"
    | conn v e conn' where "connect_timeout d ?addr (cfg_connect_timeout_ms config) = Ok conn"
        "ask_sentinel C name config conn = Some (Ok v, conn')" "sentinel_reply name ?addr v = Remember e"
    by (auto simp: unhelpful_def Let_def split: result.splits option.splits)
       (metis sentinel_answer.exhaust sentinel_answer.simps(10,11))+
  then show ?thesis by cases (auto simp: hp Let_def intro: that)
qed

lemma resolve_loop_names:
  "names C name config hp d master \<Longrightarrow>
     resolve_loop C (hp # hosts) name config last_err (d # ds) = Some (Ok master, ds)"
  by (cases hp) (auto simp: names_def Let_def)

lemma resolve_loop_skips:
  "list_all2 (unhelpful C name config) hosts ds \<Longrightarrow> names C name config hp d master \<Longrightarrow>
     resolve_loop C (hosts @ hp # more_hosts) name config last_err (ds @ d # ds') = Some (Ok master, ds')"
proof (induction hosts ds arbitrary: last_err rule: list_all2_induct)
  case (Cons h hs dh dhs)
  then show ?case by (metis append_Cons resolve_loop_unhelpful)
qed (simp add: resolve_loop_names)

text \<open>Resolution only moves forward through the dialing script, one entry per sentinel at most.\<close>

lemma resolve_loop_dials:
  "resolve_loop C hosts name config last_err ds = Some (r, ds') \<Longrightarrow>
     \<exists>used. ds = used @ ds' \<and> length used \<le> length hosts"
proof (induction hosts arbitrary: last_err ds)
  case (Cons hp rest)
  show ?case
  proof (cases ds)
    case Nil
    with Cons show ?thesis by (cases hp) simp
  next
    case (Cons d ds1)
    have step: "\<exists>used. d # ds1 = used @ ds' \<and> length used \<le> Suc (length rest)"
      if "resolve_loop C rest name config e ds1 = Some (r, ds')" for e
      using Cons.IH [OF that] by (metis append_Cons length_Cons Suc_le_mono)
    show ?thesis using Cons.prems Cons
      by (cases hp) (auto simp: Let_def split: result.splits option.splits sentinel_answer.splits
          intro: step exI [of _ "[d]"])
  qed
qed simp

lemma failover_dials:
  "failover C s = Some (r, s') \<Longrightarrow>
     calls s' = calls s \<and> sentinels s' = sentinels s \<and> retry_count s' = retry_count s \<and>
     length (dials s) \<le> length (dials s') + length (sentinels s)"
  by (auto simp: failover_def resolve_master_def split: option.splits result.splits if_splits
      dest!: resolve_loop_dials)

lemma attempt_calls:
  "attempt C args s = Some (r, s') \<Longrightarrow>
     length (calls s) = Suc (length (calls s')) \<and> sentinels s' = sentinels s \<and> dials s' = dials s \<and>
     master_addr s' = master_addr s \<and> (\<forall>e. r \<noteq> Err e)"
  by (auto simp: attempt_def split: option.splits list.splits result.splits)

text \<open>One round of the loop: at most one resolution and one checkout, then the end or the next round.\<close>

lemma retry_loop_round:
  assumes "retry_loop C args (k # ks) last_err s = Some (r, s')"
  obtains s1 where "length (calls s) \<le> Suc (length (calls s1))" "sentinels s1 = sentinels s"
    "length (dials s) \<le> length (dials s1) + (if 0 < k then length (sentinels s) else 0)"
    "s' = s1 \<or> (\<exists>l. retry_loop C args ks l s1 = Some (r, s'))"
proof -
  obtain f s0 where f: "(if 0 < k then failover C s else Some (Ok (), s)) = Some (f, s0)"
    using assms by (auto split: option.splits if_splits)
  then have s0: "calls s0 = calls s" "sentinels s0 = sentinels s"
    "length (dials s) \<le> length (dials s0) + (if 0 < k then length (sentinels s) else 0)"
    using failover_dials [of C s f s0] by (auto split: if_splits)
  show ?thesis
  proof (cases f)
    case (Ok u)
    with assms f obtain a s1 where a: "attempt C args s0 = Some (a, s1)"
      by (auto split: option.splits)
    from attempt_calls [OF this] s0 assms f Ok a show ?thesis
      by (intro that [of s1]) (auto split: result.splits attempt_end.splits)
  qed (use assms f s0 that [of s0] in auto)
qed

lemma retry_loop_bounded:
  "retry_loop C args ks last_err s = Some (r, s') \<Longrightarrow>
     length (calls s) \<le> length (calls s') + length ks \<and>
     length (dials s) \<le> length (dials s') + length (filter ((<) 0) ks) * length (sentinels s)"
proof (induction ks arbitrary: last_err s)
  case (Cons k ks)
  from Cons.prems show ?case
  proof (rule retry_loop_round)
    fix s1
    assume s1: "length (calls s) \<le> Suc (length (calls s1))" "sentinels s1 = sentinels s"
      "length (dials s) \<le> length (dials s1) + (if 0 < k then length (sentinels s) else 0)"
      "s' = s1 \<or> (\<exists>l. retry_loop C args ks l s1 = Some (r, s'))"
    then have "length (calls s1) \<le> length (calls s') + length ks \<and>
        length (dials s1) \<le> length (dials s') + length (filter ((<) 0) ks) * length (sentinels s1)"
      using Cons.IH [of _ s1] by (elim disjE exE) auto
    with s1(1-3) show ?thesis by auto
  qed
qed simp

lemma positive_attempts: "length (filter ((<) 0) [0..<Suc n]) = n"
  by (induction n) auto

lemma create_master_pool_new: "\<exists>h p. create_master_pool addr config = pool_new (config\<lparr>cfg_host := h, cfg_port := p\<rparr>)"
proof (cases "rsplit_once CHR '':'' addr")
  case None
  then show ?thesis by (auto simp: create_master_pool_def intro!: exI [of _ "cfg_host config"] exI [of _ "cfg_port config"])
next
  case (Some hp)
  then show ?thesis by (cases hp) (auto simp: create_master_pool_def)
qed

lemma fresh_master_get:
  assumes "no_handshake config"
  shows "pool_get C now (Dialed st) (create_master_pool addr config) =
    Some (Ok (fresh_conn (pool_config (create_master_pool addr config)) st),
      (create_master_pool addr config)\<lparr>permits := cfg_pool_size config - 1\<rparr>)"
proof -
  obtain h p where "create_master_pool addr config = pool_new (config\<lparr>cfg_host := h, cfg_port := p\<rparr>)"
    using create_master_pool_new by blast
  with fresh_pool_get [of "config\<lparr>cfg_host := h, cfg_port := p\<rparr>" C now st] assms show ?thesis
    by (simp add: no_handshake_def pool_new_def Let_def)
qed

context crate_env
begin

lemma converse_stream:
  assumes "writes (stream c) = WriteOk t # ws" and "healthy c" and "parse C (pending_input c) = Ok (v, n)"
  obtains c' where "converse C args c = Some (judge_reply (Ok v), c')"
    "sent (stream c') = sent (stream c) @ encode_command C args" "peer (stream c') = peer (stream c)"
proof -
  obtain c' where "execute_str C args c = Some (Ok v, c')"
    "sent (stream c') = sent (stream c) @ encode_command C args" "peer (stream c') = peer (stream c)"
    using execute_str_stream [OF assms] by metis
  with that show ?thesis
    by (auto simp: execute_str_def converse_def io_bind_def split: option.splits result.splits)
qed

end

text \<open>An attempt on a dead connection ends in a retry and puts the connection back.\<close>

lemma attempt_dead:
  assumes "calls s = env # envs" and "ready env (master_pool s) older conn" and "length older < pool_max_size (master_pool s)"
    and "\<not> stale (at_drop env) (pool_idle_timeout (master_pool s)) conn"
    and "writes (stream conn) = WriteFailed t k e # ws"
  obtains conn' where "attempt C args s = Some (Ok (Retry (Connection e)),
      s\<lparr>calls := envs, master_pool := (master_pool s)\<lparr>idle := older @ [conn']\<rparr>\<rparr>)"
    "writes (stream conn') = ws" "last_used conn' = last_used conn"
proof -
  let ?data = "encode_command_str C args"
  let ?c = "conn\<lparr>stream := (stream conn)\<lparr>clock := t, writes := ws, sent := sent (stream conn) @ take k ?data\<rparr>\<rparr>"
  have "guard_drop (at_drop env) (Some ?c) ((master_pool s)\<lparr>permits := permits (master_pool s) - 1, idle := older\<rparr>) =
      (master_pool s)\<lparr>idle := older @ [?c]\<rparr>"
    using assms(4) by (intro guard_drop_fresh [OF assms(2,3)]) (simp add: stale_def)
  then show ?thesis
    using assms(1,5)
    by (intro that [of ?c])
       (simp_all add: attempt_def with_guard_ready [OF assms(2)] converse_def send_raw_def)
qed

text \<open>Re-resolving to the same address keeps the pool.\<close>

lemma failover_same:
  "sentinels s = hp # hps \<Longrightarrow> dials s = d # ds \<Longrightarrow>
     names C (master_name s) (sentinel_config s) hp d (master_addr s) \<Longrightarrow>
     failover C s = Some (Ok (), s\<lparr>dials := ds\<rparr>)"
  by (simp add: failover_def resolve_master_def resolve_loop_names)

lemma retry_loop_dead:
  assumes "length fs = length ks" "length (calls s) = length ks" "length (filter ((<) 0) ks) = length (dials s)"
    and "sentinels s = hp # hps"
    and "\<forall>d\<in>set (dials s). names C (master_name s) (sentinel_config s) hp d (master_addr s)"
    and "\<forall>env\<in>set (calls s). \<not> stale (at_get env) (pool_idle_timeout (master_pool s)) conn \<and>
      \<not> stale (at_drop env) (pool_idle_timeout (master_pool s)) conn"
    and "0 < permits (master_pool s)" "idle (master_pool s) = older @ [conn]" "length older < pool_max_size (master_pool s)"
    and "writes (stream conn) = map (\<lambda>(t, k, e). WriteFailed t k e) fs"
  shows "\<exists>s' conn'. retry_loop C args ks last_err s =
      Some (Err (if fs = [] then unwrap_or (Sentinel ''all failover retries exhausted'') last_err
                 else Connection (snd (snd (last fs)))), s') \<and>
    idle (master_pool s') = older @ [conn'] \<and> last_used conn' = last_used conn \<and> master_addr s' = master_addr s"
  using assms
proof (induction ks arbitrary: fs s conn last_err)
  case (Cons k ks)
  obtain t m e fs' where fs: "fs = (t, m, e) # fs'" using Cons.prems(1) by (cases fs) auto
  obtain env envs where calls: "calls s = env # envs" using Cons.prems(2) by (cases "calls s") auto
  define s0 where "s0 = (if 0 < k then s\<lparr>dials := tl (dials s)\<rparr> else s)"
  have f: "(if 0 < k then failover C s else Some (Ok (), s)) = Some (Ok (), s0)"
    using Cons.prems(3-5) failover_same [of s hp hps] by (cases "dials s") (auto simp: s0_def)
  have same: "master_pool s0 = master_pool s" "calls s0 = calls s" "sentinels s0 = sentinels s"
    "master_name s0 = master_name s" "sentinel_config s0 = sentinel_config s" "master_addr s0 = master_addr s"
    by (simp_all add: s0_def)
  have dials: "length (filter ((<) 0) ks) = length (dials s0)" "set (dials s0) \<subseteq> set (dials s)"
    using Cons.prems(3) by (cases "dials s"; simp add: s0_def; auto)+
  have r: "ready env (master_pool s0) older conn"
    using Cons.prems(6-8) calls by (simp add: ready_def same)
  obtain conn' where a: "attempt C args s0 = Some (Ok (Retry (Connection e)),
      s0\<lparr>calls := envs, master_pool := (master_pool s)\<lparr>idle := older @ [conn']\<rparr>\<rparr>)"
    "writes (stream conn') = map (\<lambda>(t, k, e). WriteFailed t k e) fs'" "last_used conn' = last_used conn"
    by (rule attempt_dead [of s0 env envs older conn t m e "map (\<lambda>(t, k, e). WriteFailed t k e) fs'" C args, OF _ r])
       (use Cons.prems(6,9,10) calls fs in \<open>auto simp: same\<close>)
  let ?s1 = "s0\<lparr>calls := envs, master_pool := (master_pool s)\<lparr>idle := older @ [conn']\<rparr>\<rparr>"
  have "\<exists>s' c. retry_loop C args ks (Some (Connection e)) ?s1 =
      Some (Err (if fs' = [] then unwrap_or (Sentinel ''all failover retries exhausted'') (Some (Connection e))
                 else Connection (snd (snd (last fs')))), s') \<and>
    idle (master_pool s') = older @ [c] \<and> last_used c = last_used conn' \<and> master_addr s' = master_addr ?s1"
    using Cons.prems a dials calls fs by (intro Cons.IH) (auto simp: same stale_def)
  with f a(1,3) fs show ?case by (auto simp: same)
qed simp

text \<open>A sentinel that answers with the address of the master.\<close>

lemma names_stream:
  assumes "crate_env C" and "cfg_password config = None" and "writes st = WriteOk t # ws"
    and "list_all (delivers DEFAULT_MAX_BUF_SIZE) (inbox st)"
    and "parse C (concat (map event_data (inbox st))) = Ok (v, n)"
    and "sentinel_reply name (fst hp @ '':'' @ decimal (snd hp)) v = Found master"
  shows "names C name config hp (Dialed st) master"
proof -
  let ?c = "\<lparr>stream = st\<lparr>peer := fst hp @ '':'' @ decimal (snd hp)\<rparr>, buf = [], max_buf_size = DEFAULT_MAX_BUF_SIZE, read_timeout = None, last_used = clock st\<rparr>"
  have h: "healthy ?c" using assms(4) by (simp add: healthy_def)
  have w: "writes (stream ?c) = WriteOk t # ws" using assms(3) by simp
  have p: "parse C (pending_input ?c) = Ok (v, n)" using assms(5) by (simp add: pending_input_def)
  obtain c' where "execute_str C [''SENTINEL'', ''get-master-addr-by-name'', name] ?c = Some (Ok v, c')"
    using crate_env.execute_str_stream [OF assms(1) w h p] .
  then have "ask_sentinel C name config ?c = Some (Ok v, c')"
    using assms(2) by (simp add: ask_sentinel_def)
  then show ?thesis
    using assms(6) by (simp add: names_def connect_timeout_def connect_timeout_with_max_buf_def connect_with_max_buf_def)
qed

text \<open>A sentinel that accepts the connection and the request, and stays silent.\<close>

definition mute :: "dial \<Rightarrow> bool" where
  "mute d = (case d of
     Dialed st \<Rightarrow> list_all (silent DEFAULT_MAX_BUF_SIZE) (inbox st) \<and> (\<exists>t ws. writes st = WriteOk t # ws)
   | _ \<Rightarrow> False)"

lemma connect_timeout_dialed:
  "connect_timeout (Dialed st) addr t =
     Ok \<lparr>stream = st\<lparr>peer := addr\<rparr>, buf = [], max_buf_size = DEFAULT_MAX_BUF_SIZE, read_timeout = None, last_used = clock st\<rparr>"
  by (simp add: connect_timeout_def connect_timeout_with_max_buf_def connect_with_max_buf_def)

lemma ask_sentinel_silent:
  assumes "buf c = []" and "read_timeout c = None" and "list_all (silent (max_buf_size c)) (inbox (stream c))"
    and "writes (stream c) = WriteOk t # ws"
  shows "ask_sentinel C name config c = None"
  using execute_str_silent [OF assms]
  by (simp add: ask_sentinel_def auth_def io_bind_def split: option.split)

lemma resolve_loop_mute:
  assumes "list_all2 (unhelpful C name config) down ds" and "mute d"
  shows "resolve_loop C (down @ hp # others) name config last_err (ds @ d # ds') = None"
  using assms(1)
proof (induction down ds arbitrary: last_err rule: list_all2_induct)
  case Nil
  obtain st t ws where "d = Dialed st" "list_all (silent DEFAULT_MAX_BUF_SIZE) (inbox st)" "writes st = WriteOk t # ws"
    using assms(2) by (auto simp: mute_def split: dial.splits)
  then show ?case by (cases hp) (simp add: connect_timeout_dialed ask_sentinel_silent)
next
  case (Cons h hs dh dhs)
  then show ?case by (metis append_Cons resolve_loop_unhelpful)
qed

section \<open>Sample sentinels\<close>

definition one_reply :: "bytes \<Rightarrow> tcp_stream" where
  "one_reply bs = \<lparr>clock = 0, inbox = [ReadEvent 1 65536 (Data bs)], writes = [WriteOk 1], sent = [], peer = []\<rparr>"

definition master_is_b :: tcp_stream where
  "master_is_b = one_reply (''*2'' @ crlf @ ''$1'' @ crlf @ ''b'' @ crlf @ ''$1'' @ crlf @ ''2'' @ crlf)"

definition refused :: io_error where
  "refused = IoError ConnectionRefused ''refused''"

definition sample_sentinel :: "ConnectionPool \<Rightarrow> string \<Rightarrow> call_env list \<Rightarrow> SentinelRouter" where
  "sample_sentinel pool addr envs =
     \<lparr>master_pool = pool, master_addr = addr, sentinels = [(''s'', 1)], master_name = ''m'',
      sentinel_config = default_config, retry_count = 1, retry_backoff = 100,
      dials = [Dialed master_is_b], calls = envs\<rparr>"

lemma master_is_b_names:
  "names (documented_crates (\<lambda>_. True)) name default_config hp (Dialed master_is_b) ''b:2''"
proof (rule names_stream [OF documented.crate_env_axioms])
  have u: "utf8_valid ''b''" "utf8_valid ''2''" by code_simp+
  then show "sentinel_reply name (fst hp @ '':'' @ decimal (snd hp)) (Array [BulkString ''b'', BulkString ''2'']) = Found ''b:2''"
    by (simp add: sentinel_reply_def)
  show "parse (documented_crates (\<lambda>_. True)) (concat (map event_data (inbox master_is_b))) =
    Ok (Array [BulkString ''b'', BulkString ''2''], 18)"
    by (simp add: master_is_b_def one_reply_def event_data_def) code_simp
qed (simp_all add: default_config_def master_is_b_def one_reply_def delivers_def DEFAULT_MAX_BUF_SIZE_def)

section \<open>Properties\<close>

text \<open>
  Sentinels that are down, answer with an error or do not know the master are skipped,
  and the first one that names the master decides; the later ones are not contacted.
\<close>

lemma resolve_first_answer:
  assumes "list_all2 (unhelpful C name config) down ds" and "names C name config hp d master"
  shows "resolve_master C (down @ hp # others) name config (ds @ d # ds') = Some (Ok master, ds')"
  using resolve_loop_skips [OF assms] by (simp add: resolve_master_def)

lemma resolve_first_answer_witness:
  "resolve_master (documented_crates (\<lambda>_. True)) [(''s1'', 1), (''s2'', 2), (''s3'', 3)] ''m'' default_config
     [DialFailed refused, Dialed master_is_b, DialPending] = Some (Ok ''b:2'', [DialPending])"
  using resolve_first_answer [of "documented_crates (\<lambda>_. True)" "''m''" default_config "[(''s1'', 1)]"
      "[DialFailed refused]" "(''s2'', 2)" "Dialed master_is_b" "''b:2''" "[(''s3'', 3)]" "[DialPending]"]
    master_is_b_names
  by (simp add: unhelpful_def connect_timeout_def connect_timeout_with_max_buf_def connect_with_max_buf_def)

text \<open>The pool for a host and a port connects there.\<close>

lemma create_master_pool_addr:
  assumes "p < 65536"
  shows "primary_addr (pool_config (create_master_pool (h @ '':'' @ decimal p) config)) = h @ '':'' @ decimal p"
proof -
  have "rsplit_once CHR '':'' (h @ '':'' @ decimal p) = Some (h, decimal p)"
    using rsplit_once_append [of "CHR '':''" "decimal p" h] decimal_no_punct(2) by simp
  then show ?thesis
    using parse_u16_decimal [OF assms] by (simp add: create_master_pool_def pool_new_def primary_addr_def Let_def)
qed

text \<open>
  C25: A demoted master is left behind. When the current master answers READONLY and the
  first sentinel names another address, the command is sent again, byte for byte, on a new
  connection that was dialled to that address, and its answer there is the result. The router
  keeps the new master: its address, and the pool for it, into which this connection goes back.
\<close>

theorem readonly_fails_over:
  assumes "crate_env C" and "0 < retry_count s" and "calls s = env0 # env1 # envs"
    and "ready env0 (master_pool s) older conn" and "healthy conn" and "writes (stream conn) = WriteOk t # ws"
    and "parse C (pending_input conn) = Ok (Error msg, n)" and "starts_with ''READONLY'' msg"
    and "sentinels s = hp # others" and "dials s = d # ds"
    and "names C (master_name s) (sentinel_config s) hp d new_addr" and "new_addr \<noteq> master_addr s"
    and "no_handshake (sentinel_config s)" and "dialing env1 = Dialed st"
    and "healthy (fresh_conn (sentinel_config s) st)" and "writes st = WriteOk t' # ws'"
    and "parse C (pending_input (fresh_conn (sentinel_config s) st)) = Ok (v, m)" and "\<forall>m. v = Error m \<longrightarrow> \<not> starts_with ''READONLY'' m"
    and "new_addr = h @ '':'' @ decimal p" "p < 65536"
  shows "\<exists>s' c. execute_with_retry C args s = Some (Ok v, s') \<and> master_addr s' = new_addr \<and>
    peer (stream c) = new_addr \<and> sent (stream c) = sent st @ encode_command C args \<and>
    master_pool s' = guard_drop (at_drop env1) (Some c)
      ((create_master_pool new_addr (sentinel_config s))\<lparr>permits := cfg_pool_size (sentinel_config s) - 1\<rparr>)"
proof -
  obtain c0 where c0: "converse C args conn = Some (judge_reply (Ok (Error msg)), c0)"
    using crate_env.converse_stream [OF assms(1,6,5,7)] by metis
  then obtain pool0 where a0: "attempt C args s = Some (Ok (Retry (redis_error msg)),
      s\<lparr>calls := env1 # envs, master_pool := pool0\<rparr>)"
    using assms(3,8) by (simp add: attempt_def with_guard_ready [OF assms(4)] judge_reply_def)
  let ?s0 = "s\<lparr>calls := env1 # envs, master_pool := pool0\<rparr>" and ?new = "create_master_pool new_addr (sentinel_config s)"
  let ?s1 = "?s0\<lparr>dials := ds, master_pool := ?new, master_addr := new_addr\<rparr>" and ?c = "fresh_conn (pool_config ?new) st"
  have f: "failover C ?s0 = Some (Ok (), ?s1)"
    using assms(9-12) by (simp add: failover_def resolve_master_def resolve_loop_names)
  have same: "healthy ?c = healthy (fresh_conn (sentinel_config s) st)" "pending_input ?c = pending_input (fresh_conn (sentinel_config s) st)"
    using create_master_pool_new [of new_addr "sentinel_config s"]
    by (auto simp: fresh_conn_def set_read_timeout_def healthy_def pending_input_def pool_new_def Let_def)
  obtain c1 where c1: "converse C args ?c = Some (judge_reply (Ok v), c1)"
    "sent (stream c1) = sent st @ encode_command C args" "peer (stream c1) = primary_addr (pool_config ?new)"
    using crate_env.converse_stream [OF assms(1), of ?c t' ws' v m args] assms(15-17) same by auto
  have "attempt C args ?s1 = Some (Ok (Return (Ok v)), ?s1\<lparr>calls := envs,
      master_pool := guard_drop (at_drop env1) (Some c1) (?new\<lparr>permits := cfg_pool_size (sentinel_config s) - 1\<rparr>)\<rparr>)"
    using c1(1) assms(14,18) fresh_master_get [OF assms(13), of C "at_get env1" st new_addr]
    by (auto simp: attempt_def with_guard_def judge_reply_def split: RespValue.splits)
  moreover have "[0..<Suc (retry_count s)] = 0 # 1 # [2..<Suc (retry_count s)]"
    using assms(2) by (simp add: upt_rec numeral_2_eq_2)
  ultimately show ?thesis
    using a0 f c1(2,3) create_master_pool_addr [OF assms(20), of h "sentinel_config s"] assms(19)
    by (auto simp: execute_with_retry_def)
qed

definition demoted :: RedisConnection where
  "demoted = sample_conn [ReadEvent 1 65536 (Data (''-READONLY x'' @ crlf))]"

definition failing_over :: SentinelRouter where
  "failing_over = sample_sentinel (sample_pool demoted) ''a:1'' [sample_env, sample_env\<lparr>dialing := Dialed (one_reply (''+OK'' @ crlf))\<rparr>]"

theorem readonly_fails_over_witness:
  "\<exists>s' c. execute_with_retry (documented_crates (\<lambda>_. True)) [''SET'', ''k'', ''v''] failing_over =
      Some (Ok (SimpleString ''OK''), s') \<and> master_addr s' = ''b:2'' \<and> peer (stream c) = ''b:2'' \<and>
    sent (stream c) = encode_command (documented_crates (\<lambda>_. True)) [''SET'', ''k'', ''v''] \<and>
    master_pool s' = guard_drop 9 (Some c) ((create_master_pool ''b:2'' default_config)\<lparr>permits := 7\<rparr>)"
proof -
  let ?C = "documented_crates (\<lambda>_. True)" and ?st = "one_reply (''+OK'' @ crlf)" and ?f = failing_over
  let ?env1 = "sample_env\<lparr>dialing := Dialed ?st\<rparr>"
  have cfg: "sentinel_config ?f = default_config" "retry_count ?f = 1" "calls ?f = [sample_env, ?env1]" "master_addr ?f = ''a:1''"
    "sentinels ?f = [(''s'', 1)]" "dials ?f = [Dialed master_is_b]" "master_name ?f = ''m''" "master_pool ?f = sample_pool demoted"
    by (simp_all add: failing_over_def sample_sentinel_def)
  have dem: "healthy demoted" "writes (stream demoted) = [WriteOk 1, WriteOk 2]"
    by (simp_all add: demoted_def sample_conn_def healthy_def delivers_def DEFAULT_MAX_BUF_SIZE_def)
  have fr: "healthy (fresh_conn default_config ?st)" "writes ?st = [WriteOk 1]" "sent ?st = []"
    by (simp_all add: one_reply_def fresh_conn_def healthy_def delivers_def set_read_timeout_def DEFAULT_MAX_BUF_SIZE_def default_config_def)
  have p1: "parse ?C (pending_input demoted) = Ok (Error ''READONLY x'', 13)"
    by (simp add: pending_input_def demoted_def sample_conn_def event_data_def) code_simp
  have p2: "parse ?C (pending_input (fresh_conn default_config ?st)) = Ok (SimpleString ''OK'', 5)"
    by (simp add: pending_input_def fresh_conn_def set_read_timeout_def one_reply_def event_data_def) code_simp
  have env: "dialing ?env1 = Dialed ?st" "no_handshake default_config" "''b:2'' = ''b'' @ '':'' @ decimal 2"
    by (simp_all add: no_handshake_def default_config_def decimal.simps)
  have rdy: "ready sample_env (sample_pool demoted) [] demoted" by (rule sample_ready) (simp add: demoted_def sample_conn_def)
  have nm: "names ?C (master_name ?f) default_config (''s'', 1) (Dialed master_is_b) ''b:2''"
    using master_is_b_names by (simp add: cfg)
  show ?thesis
    using readonly_fails_over [OF documented.crate_env_axioms _ cfg(3) rdy [folded cfg(8)] dem p1 _ cfg(5,6) nm [folded cfg(1)] _
        env(2) [folded cfg(1)] env(1) fr(1) [folded cfg(1)] fr(2) p2 [folded cfg(1)] _ env(3), of "[''SET'', ''k'', ''v'']"] fr(3)
    by (auto simp: cfg(1,2,4) starts_with_def sample_env_def [THEN arg_cong [where f = at_drop]] default_config_def [THEN arg_cong [where f = cfg_pool_size]])
qed

text \<open>
  Retries are bounded, however the network behaves: a command uses at most
  \<open>retry_count + 1\<close> connections of the pool and asks the sentinels at most \<open>retry_count\<close> times.
\<close>

lemma retries_bounded:
  assumes "execute_with_retry C args s = Some (r, s')"
  shows "length (calls s) \<le> length (calls s') + retry_count s + 1 \<and>
    length (dials s) \<le> length (dials s') + retry_count s * length (sentinels s)"
  using retry_loop_bounded [OF assms [unfolded execute_with_retry_def]] positive_attempts [of "retry_count s"] by simp

definition tls_sentinel :: SentinelRouter where
  "tls_sentinel = (sample_sentinel (pool_new (default_config\<lparr>cfg_tls := True\<rparr>)) ''a:1'' [sample_env, sample_env])
     \<lparr>dials := [DialFailed refused]\<rparr>"

lemma retries_bounded_witness:
  "\<exists>r s'. execute_with_retry (documented_crates (\<lambda>_. True)) [''PING''] tls_sentinel = Some (r, s') \<and>
    length (calls tls_sentinel) \<le> length (calls s') + retry_count tls_sentinel + 1"
proof -
  have "\<exists>r s'. execute_with_retry (documented_crates (\<lambda>_. True)) [''PING''] tls_sentinel = Some (r, s')"
    by (simp add: execute_with_retry_def tls_sentinel_def sample_sentinel_def attempt_def with_guard_def sample_env_def
        pool_get_def pool_acquire_def pool_new_def take_healthy_connection_def create_connection_def Let_def
        default_config_def failover_def resolve_master_def connect_timeout_def connect_timeout_with_max_buf_def
        connect_with_max_buf_def)
  then show ?thesis using retries_bounded by blast
qed

text \<open>
  C35: A dead connection survives every retry. When the connection on top of the idle stack
  is broken while the sentinels keep naming the same master, each retry pops the same
  connection, fails to write and puts it back; the call fails with the last write error
  although nothing is assumed about dialing, which may well succeed.
\<close>

theorem retries_reuse_dead_connection:
  assumes "length fs = Suc (retry_count s)" "length (calls s) = Suc (retry_count s)" "length (dials s) = retry_count s"
    and "sentinels s = hp # others"
    and "\<forall>d\<in>set (dials s). names C (master_name s) (sentinel_config s) hp d (master_addr s)"
    and "\<forall>env\<in>set (calls s). \<not> stale (at_get env) (pool_idle_timeout (master_pool s)) conn \<and>
      \<not> stale (at_drop env) (pool_idle_timeout (master_pool s)) conn"
    and "0 < permits (master_pool s)" "idle (master_pool s) = older @ [conn]" "length older < pool_max_size (master_pool s)"
    and "writes (stream conn) = map (\<lambda>(t, k, e). WriteFailed t k e) fs"
  shows "\<exists>s' conn'. execute_with_retry C args s = Some (Err (Connection (snd (snd (last fs)))), s') \<and>
    idle (master_pool s') = older @ [conn'] \<and> last_used conn' = last_used conn"
proof -
  have "fs \<noteq> []" using assms(1) by auto
  with retry_loop_dead [of fs "[0..<Suc (retry_count s)]" s hp others C conn older args None] assms
    positive_attempts [of "retry_count s"]
  show ?thesis by (auto simp: execute_with_retry_def)
qed

definition dead_conn :: RedisConnection where
  "dead_conn = (sample_conn [])\<lparr>stream := (stream (sample_conn []))\<lparr>
     writes := [WriteFailed 1 0 (IoError OtherIo ''broken pipe''), WriteFailed 2 0 (IoError OtherIo ''broken pipe'')]\<rparr>\<rparr>"

theorem retries_reuse_dead_connection_witness:
  "\<exists>s' conn'. execute_with_retry (documented_crates (\<lambda>_. True)) [''PING'']
      (sample_sentinel (sample_pool dead_conn) ''b:2'' [sample_env, sample_env]) =
    Some (Err (Connection (IoError OtherIo ''broken pipe'')), s') \<and>
    idle (master_pool s') = [conn'] \<and> last_used conn' = last_used dead_conn"
  using retries_reuse_dead_connection [of "[(1, 0, IoError OtherIo ''broken pipe''), (2, 0, IoError OtherIo ''broken pipe'')]"
      "sample_sentinel (sample_pool dead_conn) ''b:2'' [sample_env, sample_env]" "(''s'', 1)" "[]"
      "documented_crates (\<lambda>_. True)" dead_conn "[]" "[''PING'']"] master_is_b_names
  by (simp add: sample_sentinel_def sample_pool_def pool_new_def default_config_def Let_def dead_conn_def
      sample_conn_def sample_env_def stale_def)

text \<open>
  C38: One silent sentinel stops the client for ever. When the first sentinel that is not down
  accepts the connection and never answers, the constructor of the router and every failover
  wait without end: neither the read timeout of the configuration nor the sentinels that
  follow, nor anything else of the router, matters.
\<close>

theorem silent_sentinel_blocks:
  assumes "list_all2 (unhelpful C name config) down ds" and "mute d"
  shows "sentinel_new C (down @ hp # others) name config retries backoff (ds @ d # ds') envs = None \<and>
    (\<forall>s. sentinels s = down @ hp # others \<longrightarrow> master_name s = name \<longrightarrow> sentinel_config s = config \<longrightarrow>
       dials s = ds @ d # ds' \<longrightarrow> failover C s = None)"
  using resolve_loop_mute [OF assms] by (simp add: sentinel_new_def failover_def resolve_master_def)

theorem silent_sentinel_blocks_witness:
  "sentinel_new (documented_crates (\<lambda>_. True)) [(''s1'', 1), (''s2'', 2), (''s3'', 3)] ''m''
     (default_config\<lparr>cfg_read_timeout_ms := 1000\<rparr>) None None
     [DialFailed refused,
      Dialed \<lparr>clock = 0, inbox = [ReadEvent 1000 65536 TimedOut], writes = [WriteOk 1], sent = [], peer = []\<rparr>,
      Dialed master_is_b] [] = None"
  using silent_sentinel_blocks [of "documented_crates (\<lambda>_. True)" "''m''" "default_config\<lparr>cfg_read_timeout_ms := 1000\<rparr>"
      "[(''s1'', 1)]" "[DialFailed refused]"
      "Dialed \<lparr>clock = 0, inbox = [ReadEvent 1000 65536 TimedOut], writes = [WriteOk 1], sent = [], peer = []\<rparr>"
      "(''s2'', 2)" "[(''s3'', 3)]" None None "[Dialed master_is_b]" "[]"]
  by (simp add: unhelpful_def connect_timeout_def connect_timeout_with_max_buf_def connect_with_max_buf_def
      mute_def silent_def DEFAULT_MAX_BUF_SIZE_def)

text \<open>
  C39: A sentinel router configured for TLS (\<open>redis+sentinels://\<close>) sends the password in clear
  text: the data connections refuse to work without TLS, but the connection to a sentinel is
  a plain one and carries the AUTH command first, then the query, even when AUTH is rejected.
\<close>

theorem tls_sentinel_password_in_clear:
  assumes "crate_env C" and "cfg_tls config" and "cfg_username config = Some user" and "cfg_password config = Some pass"
    and "writes st = [WriteOk t1, WriteOk t2]" and "list_all (delivers DEFAULT_MAX_BUF_SIZE) (inbox st)"
    and "parse C (concat (map event_data (inbox st))) = Ok (v1, n)"
    and "parse C (drop n (concat (map event_data (inbox st)))) = Ok (v2, m)"
  shows "create_connection C d config =
      Some (Err (Protocol ''TLS connections (rediss://) are not yet supported. Use redis:// or set tls=false.'')) \<and>
    (\<exists>conn conn'. connect_timeout (Dialed st) addr (cfg_connect_timeout_ms config) = Ok conn \<and>
      ask_sentinel C name config conn = Some (Ok v2, conn') \<and>
      sent (stream conn') = sent st @ encode_command C [''AUTH'', user, pass] @
        encode_command C [''SENTINEL'', ''get-master-addr-by-name'', name])"
proof -
  let ?c = "\<lparr>stream = st\<lparr>peer := addr\<rparr>, buf = [], max_buf_size = DEFAULT_MAX_BUF_SIZE, read_timeout = None, last_used = clock st\<rparr>"
  have h: "healthy ?c" and w: "writes (stream ?c) = WriteOk t1 # [WriteOk t2]"
    and p: "parse C (pending_input ?c) = Ok (v1, n)"
    using assms(5-7) by (simp_all add: healthy_def pending_input_def)
  obtain c1 where c1: "execute_str C [''AUTH'', user, pass] ?c = Some (Ok v1, c1)"
    "sent (stream c1) = sent st @ encode_command C [''AUTH'', user, pass]"
    "writes (stream c1) = [WriteOk t2]" "pending_input c1 = drop n (pending_input ?c)" "healthy c1"
    using crate_env.execute_str_stream [OF assms(1) w h p] by auto
  have p2: "parse C (pending_input c1) = Ok (v2, m)" using assms(8) c1(4) by (simp add: pending_input_def)
  obtain c2 where "execute_str C [''SENTINEL'', ''get-master-addr-by-name'', name] c1 = Some (Ok v2, c2)"
    "sent (stream c2) = sent (stream c1) @ encode_command C [''SENTINEL'', ''get-master-addr-by-name'', name]"
    using crate_env.execute_str_stream [OF assms(1) c1(3,5) p2] by metis
  then show ?thesis
    using assms(2-4) c1(1,2)
    by (cases "expect_ok ''AUTH'' v1")
       (auto simp: create_connection_def connect_timeout_dialed ask_sentinel_def auth_def io_bind_def io_return_def)
qed

lemma tls_sentinel_url: "\<exists>config. from_url ''redis+sentinels://u:secret@m@h'' = Ok config \<and> cfg_tls config \<and>
      cfg_username config = Some ''u'' \<and> cfg_password config = Some ''secret''"
proof -
  have "split_once_str ''://'' ''redis+sentinels://u:secret@m@h'' = Some (''redis+sentinels'', ''u:secret@m@h'')" by code_simp
  moreover have "split_path ''u:secret@m@h'' = (''u:secret@m@h'', None)" by code_simp
  moreover have "parse_hosts DEFAULT_SENTINEL_PORT (split_on CHR '','' ''h'') [] = Ok [(''h'', DEFAULT_SENTINEL_PORT)]"
  proof -
    have "split_on CHR '','' ''h'' = [''h'']" "trim ''h'' = ''h''" by code_simp+
    then show ?thesis by (simp add: parse_host_port_def starts_with_def rsplit_once_def)
  qed
  moreover have "parse_userinfo (default_config\<lparr>cfg_tls := True\<rparr>) ''u:secret'' = default_config\<lparr>cfg_tls := True, cfg_username := Some ''u'', cfg_password := Some ''secret''\<rparr>"
  proof -
    have "split_once CHR '':'' ''u:secret'' = Some (''u'', ''secret'')" by code_simp
    then show ?thesis by (simp add: parse_userinfo_def)
  qed
  moreover have "split_once CHR ''@'' ''u:secret@m@h'' = Some (''u:secret'', ''m@h'')"
    "split_once CHR ''@'' ''m@h'' = Some (''m'', ''h'')" by code_simp+
  ultimately show ?thesis by (simp add: from_url_def parse_sentinel_url_def parse_db_def)
qed

definition rejecting_sentinel :: tcp_stream where
  "rejecting_sentinel = \<lparr>clock = 0, inbox = [ReadEvent 1 65536 (Data (''-ERR no'' @ crlf)), ReadEvent 2 65536 (Data (''_'' @ crlf))],
     writes = [WriteOk 1, WriteOk 2], sent = [], peer = []\<rparr>"

theorem tls_sentinel_password_in_clear_witness:
  "\<exists>config conn conn'. from_url ''redis+sentinels://u:secret@m@h'' = Ok config \<and>
    connect_timeout (Dialed rejecting_sentinel) ''h:26379'' (cfg_connect_timeout_ms config) = Ok conn \<and>
    ask_sentinel (documented_crates (\<lambda>_. True)) ''m'' config conn = Some (Ok Null, conn') \<and>
    sent (stream conn') = encode_command (documented_crates (\<lambda>_. True)) [''AUTH'', ''u'', ''secret''] @
      encode_command (documented_crates (\<lambda>_. True)) [''SENTINEL'', ''get-master-addr-by-name'', ''m'']"
proof -
  let ?C = "documented_crates (\<lambda>_. True)" and ?st = rejecting_sentinel
  obtain config where u: "from_url ''redis+sentinels://u:secret@m@h'' = Ok config" "cfg_tls config"
    "cfg_username config = Some ''u''" "cfg_password config = Some ''secret''" using tls_sentinel_url by blast
  have p: "concat (map event_data (inbox ?st)) = ''-ERR no'' @ crlf @ ''_'' @ crlf"
    by (simp add: rejecting_sentinel_def event_data_def)
  have a: "parse ?C (concat (map event_data (inbox ?st))) = Ok (Error ''ERR no'', 9)" unfolding p by code_simp
  have b: "parse ?C (drop 9 (concat (map event_data (inbox ?st)))) = Ok (Null, 3)" unfolding p by code_simp
  have "writes ?st = [WriteOk 1, WriteOk 2]" "list_all (delivers DEFAULT_MAX_BUF_SIZE) (inbox ?st)" "sent ?st = []"
    by (simp_all add: rejecting_sentinel_def delivers_def DEFAULT_MAX_BUF_SIZE_def)
  from tls_sentinel_password_in_clear [OF documented.crate_env_axioms u(2-4) this(1,2) a b, of _ "''h:26379''" "''m''"] u(1) this(3)
  show ?thesis by auto
qed

end
