(* ===== verification/Router.thy ===== *)
theory Router
  imports Cluster_Pools Sentinel
begin

text \<open>
  \<open>src/src/router/mod.rs\<close>: the trait \<open>Router\<close> that the three topologies implement. A trait has
  no laws; the locale \<open>router\<close> states the ones its users rely on. Between calls a router holds no
  connection, so every permit of its pools is available and no pool keeps more idle
  connections than its size; every call that returns, with a value or an error, restores this;
  and a pipeline that succeeds has one reply per command. The standalone, the sentinel and the
  cluster router are interpretations.
\<close>

section \<open>The interface\<close>

text \<open>Calls on a router and what they return.\<close>

datatype router_call = Execute "string list" | Pipeline "string list list"

datatype router_result = Reply "RespValue res" | Replies "RespValue list res"

fun run_calls :: "(string list \<Rightarrow> 's \<Rightarrow> (RespValue res \<times> 's) option) \<Rightarrow> (string list list \<Rightarrow> 's \<Rightarrow> (RespValue list res \<times> 's) option)
    \<Rightarrow> router_call list \<Rightarrow> 's \<Rightarrow> (router_result list \<times> 's) option" where
  "run_calls ex pipe [] s = Some ([], s)"
| "run_calls ex pipe (Execute args # cs) s =
     (case ex args s of
        None \<Rightarrow> None
      | Some (r, s) \<Rightarrow> map_option (\<lambda>(rs, s). (Reply r # rs, s)) (run_calls ex pipe cs s))"
| "run_calls ex pipe (Pipeline cmds # cs) s =
     (case pipe cmds s of
        None \<Rightarrow> None
      | Some (r, s) \<Rightarrow> map_option (\<lambda>(rs, s). (Replies r # rs, s)) (run_calls ex pipe cs s))"

fun call_fits :: "router_call \<Rightarrow> router_result \<Rightarrow> bool" where
  "call_fits (Execute args) (Reply r) = True"
| "call_fits (Pipeline cmds) (Replies r) = (case r of Ok vs \<Rightarrow> length vs = length cmds | _ \<Rightarrow> True)"
| "call_fits _ _ = False"

locale router =
  fixes execute :: "string list \<Rightarrow> 's \<Rightarrow> (RespValue res \<times> 's) option"
    and pipeline :: "string list list \<Rightarrow> 's \<Rightarrow> (RespValue list res \<times> 's) option"
    and idle_total available_total capacity :: "'s \<Rightarrow> nat"
    and quiet :: "'s \<Rightarrow> bool"
  assumes execute_quiet: "keeps quiet (execute args)"
    and pipeline_quiet: "keeps quiet (pipeline cmds)"
    and pipeline_length: "pipeline cmds s = Some (Ok vs, s') \<Longrightarrow> length vs = length cmds"
    and quiet_counts: "quiet s \<Longrightarrow> available_total s = capacity s \<and> idle_total s \<le> capacity s"
begin

lemma run_calls_contract:
  assumes "run_calls execute pipeline cs s = Some (rs, s')" and "quiet s"
  shows "list_all2 call_fits cs rs \<and> quiet s'"
  using assms
proof (induction cs arbitrary: s rs)
  case (Cons c cs)
  show ?case
  proof (cases c)
    case (Execute args)
    with Cons.prems obtain r s1 rs1 where e: "execute args s = Some (r, s1)" "rs = Reply r # rs1"
      "run_calls execute pipeline cs s1 = Some (rs1, s')" by (auto split: option.splits)
    from Cons.IH [OF e(3)] keepsD [OF execute_quiet Cons.prems(2) e(1)] e(2) Execute show ?thesis by simp
  next
    case (Pipeline cmds)
    with Cons.prems obtain r s1 rs1 where e: "pipeline cmds s = Some (r, s1)" "rs = Replies r # rs1"
      "run_calls execute pipeline cs s1 = Some (rs1, s')" by (auto split: option.splits)
    have "call_fits c (Replies r)" using e(1) Pipeline by (cases r) (auto dest: pipeline_length)
    with Cons.IH [OF e(3)] keepsD [OF pipeline_quiet Cons.prems(2) e(1)] e(2) show ?thesis by simp
  qed
qed simp

lemma run_calls_counts:
  assumes "run_calls execute pipeline cs s = Some (rs, s')" and "quiet s"
  shows "available_total s' = capacity s' \<and> idle_total s' \<le> capacity s'"
  using run_calls_contract [OF assms] quiet_counts by blast

end

lemma read_replies_length:
  "read_replies rd cmds acc c = Some (Ok vs, c') \<Longrightarrow> length vs = length acc + length cmds"
  by (induction cmds arbitrary: acc c)
     (auto simp: io_return_def io_bind_def split: option.splits result.splits prod.splits)

section \<open>Standalone\<close>

text \<open>The standalone router with the script of its environment, one entry per call.\<close>

definition scripted :: "(call_env \<Rightarrow> ConnectionPool \<Rightarrow> ('a res \<times> ConnectionPool) option)
    \<Rightarrow> ConnectionPool \<times> call_env list \<Rightarrow> ('a res \<times> ConnectionPool \<times> call_env list) option" where
  "scripted f s = (case snd s of [] \<Rightarrow> None | env # envs \<Rightarrow> map_option (\<lambda>(r, p). (r, p, envs)) (f env (fst s)))"

lemma with_guard_Ok:
  assumes "with_guard C env body pool = Some (Ok x, pool')"
  obtains conn conn' where "body conn = Some (Ok x, conn')"
  using assms by (auto simp: with_guard_def split: option.splits result.splits)

lemma quiet_pool_counts:
  "balanced 0 pool \<Longrightarrow> pool_available pool = pool_max_size pool \<and> pool_idle_count pool \<le> pool_max_size pool"
  by (simp add: balanced_def pool_idle_count_def pool_available_def available_def idle_count_def)

lemma scripted_keeps: "keeps (\<lambda>s. balanced 0 (fst s)) (scripted (\<lambda>env. with_guard C env (body env)))"
  by (rule keepsI) (auto simp: scripted_def split: list.splits dest: with_guard_balanced)

interpretation standalone_router: router
  "\<lambda>args. scripted (\<lambda>env. standalone_execute C env args)" "\<lambda>cmds. scripted (\<lambda>env. standalone_pipeline C env cmds)"
  "\<lambda>s. pool_idle_count (fst s)" "\<lambda>s. pool_available (fst s)" "\<lambda>s. pool_max_size (fst s)" "\<lambda>s. balanced 0 (fst s)" for C
proof unfold_locales
  show "length vs = length cmds" if "scripted (\<lambda>env. standalone_pipeline C env cmds) s = Some (Ok vs, s')" for cmds s vs s'
    using that by (auto simp: scripted_def standalone_pipeline_def io_bind_def split: list.splits option.splits result.splits
        elim!: with_guard_Ok dest!: read_replies_length)
qed (auto simp: standalone_execute_def standalone_pipeline_def scripted_keeps dest: quiet_pool_counts)

section \<open>Sentinel\<close>

text \<open>Moreover, the pool of the sentinel router is the one for the master address it remembers.\<close>

definition sentinel_ok :: "SentinelRouter \<Rightarrow> bool" where
  "sentinel_ok s \<longleftrightarrow> balanced 0 (master_pool s) \<and>
     same_pool (create_master_pool (master_addr s) (sentinel_config s)) (master_pool s)"

lemma create_master_pool_balanced: "balanced 0 (create_master_pool addr config)"
  using create_master_pool_new [of addr config] balanced_new by auto

lemma master_size: "sentinel_ok s \<Longrightarrow> pool_max_size (master_pool s) = cfg_pool_size (sentinel_config s)"
  using create_master_pool_new [of "master_addr s" "sentinel_config s"]
  by (auto simp: sentinel_ok_def same_pool_def pool_new_def Let_def)

lemma failover_keeps: "keeps sentinel_ok (failover C)"
  by (rule keepsI)
     (auto simp: failover_def sentinel_ok_def create_master_pool_balanced same_pool_def
       split: option.splits result.splits if_splits)

lemma with_master_ok:
  assumes "sentinel_ok s" and "with_guard C env body (master_pool s) = Some (r, p)"
  shows "sentinel_ok (s\<lparr>calls := envs, master_pool := p\<rparr>)"
  using with_guard_balanced [OF _ assms(2), of 0] assms(1) by (auto simp: sentinel_ok_def same_pool_def)

lemma attempt_keeps: "keeps sentinel_ok (attempt C args)"
  by (rule keepsI) (auto simp: attempt_def split: list.splits option.splits intro: with_master_ok)

lemma retry_loop_keeps: "keeps sentinel_ok (retry_loop C args ks last_err)"
proof (induction ks arbitrary: last_err)
  case Nil
  show ?case by (simp add: keeps_def)
next
  case (Cons k ks)
  show ?case
  proof (rule keepsI)
    fix s r s'
    assume s: "sentinel_ok s" and run: "retry_loop C args (k # ks) last_err s = Some (r, s')"
    obtain f s1 where f: "(if 0 < k then failover C s else Some (Ok (), s)) = Some (f, s1)"
      using run by (auto split: option.splits if_splits)
    then have s1: "sentinel_ok s1" using s by (auto split: if_splits dest: keepsD [OF failover_keeps])
    show "sentinel_ok s'"
    proof (cases f)
      case (Ok u)
      then obtain a s2 where a: "attempt C args s1 = Some (a, s2)" using run f by (auto split: option.splits)
      have "sentinel_ok s2" using keepsD [OF attempt_keeps s1 a] .
      with run f Ok a show ?thesis
        by (auto split: result.splits attempt_end.splits dest!: keeps_after [OF _ Cons.IH])
    qed (use run f s1 in \<open>auto dest!: keeps_after [OF _ Cons.IH]\<close>)
  qed
qed

lemma sentinel_new_ok: "sentinel_new C hosts name config retries backoff ds envs = Some (Ok s) \<Longrightarrow> sentinel_ok s"
  by (auto simp: sentinel_new_def sentinel_ok_def create_master_pool_balanced same_pool_def
      split: if_splits option.splits result.splits)

interpretation sentinel_router: router
  "execute_with_retry C" "sentinel_pipeline C" sentinel_pool_idle_count sentinel_pool_available
  "\<lambda>s. cfg_pool_size (sentinel_config s)" sentinel_ok for C
proof unfold_locales
  show "keeps sentinel_ok (execute_with_retry C args)" for args
    by (rule keepsI) (auto simp: execute_with_retry_def dest: keepsD [OF retry_loop_keeps])
  show "keeps sentinel_ok (sentinel_pipeline C cmds)" for cmds
    by (rule keepsI) (auto simp: sentinel_pipeline_def split: list.splits intro: with_master_ok)
  show "length vs = length cmds" if "sentinel_pipeline C cmds s = Some (Ok vs, s')" for cmds s vs s'
    using that by (auto simp: sentinel_pipeline_def io_bind_def split: list.splits option.splits result.splits
        elim!: with_guard_Ok dest!: read_replies_length)
  show "sentinel_pool_available s = cfg_pool_size (sentinel_config s) \<and>
      sentinel_pool_idle_count s \<le> cfg_pool_size (sentinel_config s)" if "sentinel_ok s" for s
    using that master_size [OF that]
    by (simp add: sentinel_ok_def balanced_def sentinel_pool_available_def sentinel_pool_idle_count_def available_def
        idle_count_def)
qed

section \<open>Cluster\<close>

interpretation any_map: slot_invariant "\<lambda>_. True"
  by unfold_locales simp

definition cluster_quiet :: "ClusterRouter \<Rightarrow> bool" where
  "cluster_quiet s \<longleftrightarrow> cluster_ok (\<lambda>_. True) (cluster_config s) (\<lambda>_. 0) s"

lemma cluster_quiet_keeps:
  assumes "\<And>config. keeps_ok (\<lambda>_. True) config (\<lambda>_. 0) m"
  shows "keeps cluster_quiet m"
proof (rule keepsI)
  fix s r s'
  assume "cluster_quiet s" and "m s = Some (r, s')"
  then have "cluster_ok (\<lambda>_. True) (cluster_config s) (\<lambda>_. 0) s'"
    using keepsD [OF assms] by (auto simp: cluster_quiet_def)
  then show "cluster_quiet s'" by (simp add: cluster_quiet_def cluster_ok_def)
qed

lemma cluster_quiet_counts:
  assumes "cluster_quiet s"
  shows "cluster_pool_available s = length (nodes s) * cfg_pool_size (cluster_config s) \<and>
    cluster_pool_idle_count s \<le> length (nodes s) * cfg_pool_size (cluster_config s)"
proof -
  let ?n = "cfg_pool_size (cluster_config s)"
  have each: "available p = ?n \<and> idle_count p \<le> ?n" if "(a, p) \<in> set (nodes s)" for a p
    using assms that by (auto simp: cluster_quiet_def cluster_ok_def pools_ok_def balanced_def available_def idle_count_def)
  have "sum_list (map (\<lambda>(_, p). available p) ns) = length ns * ?n \<and> sum_list (map (\<lambda>(_, p). idle_count p) ns) \<le> length ns * ?n"
    if "set ns \<subseteq> set (nodes s)" for ns
    using that by (induction ns) (auto dest: each intro: add_mono)
  then show ?thesis by (simp add: cluster_pool_available_def cluster_pool_idle_count_def)
qed

lemma cluster_pipeline_length:
  assumes "cluster_pipeline C order cmds s = Some (Ok vs, s')"
  shows "length vs = length cmds"
proof -
  obtain results where "run_groups C (order (group_commands s 0 cmds [])) (replicate (length cmds) None) s = Some (Ok results, s')"
    and vs: "vs = map (unwrap_or Null) results"
    using assms by (auto simp: cluster_pipeline_def cl_bind_def cl_return_def Let_def split: option.splits result.splits)
  from run_groups_answers [OF this(1), of "{}"] have "length results = length cmds" by (simp add: answered_def)
  with vs show ?thesis by simp
qed

interpretation cluster_router: router
  "execute_routed C" "cluster_pipeline C order" cluster_pool_idle_count cluster_pool_available
  "\<lambda>s. length (nodes s) * cfg_pool_size (cluster_config s)" cluster_quiet for C order
  by unfold_locales
     (use cluster_quiet_counts cluster_pipeline_length in
       \<open>auto intro: cluster_quiet_keeps any_map.execute_routed_ok any_map.cluster_pipeline_ok\<close>)

section \<open>Properties\<close>

text \<open>
  C11: No router leaks a connection, and replies match commands. On a standalone, sentinel or
  cluster router fresh from its constructor, after any sequence of commands and pipelines that
  returned, with whatever replies, errors, redirects and failovers: each successful pipeline
  had one reply per command, all permits of the pools are available again, and the idle
  connections fit the configured size.
\<close>

theorem routers_leak_nothing:
  "(run_calls (\<lambda>args. scripted (\<lambda>env. standalone_execute C env args))
      (\<lambda>cmds. scripted (\<lambda>env. standalone_pipeline C env cmds)) calls1 (standalone_new config, envs) = Some (rs1, pool, envs1) \<longrightarrow>
    list_all2 call_fits calls1 rs1 \<and> pool_available pool = pool_max_size pool \<and> pool_idle_count pool \<le> pool_max_size pool) \<and>
   (sentinel_new C hosts name config retries backoff ds envs = Some (Ok s2) \<longrightarrow>
    run_calls (execute_with_retry C) (sentinel_pipeline C) calls2 s2 = Some (rs2, t2) \<longrightarrow>
    list_all2 call_fits calls2 rs2 \<and> sentinel_pool_available t2 = cfg_pool_size (sentinel_config t2) \<and>
    sentinel_pool_idle_count t2 \<le> cfg_pool_size (sentinel_config t2)) \<and>
   (cluster_new C seeds config replicas envs = Some (Ok s3) \<longrightarrow>
    run_calls (execute_routed C) (cluster_pipeline C order) calls3 s3 = Some (rs3, t3) \<longrightarrow>
    list_all2 call_fits calls3 rs3 \<and> cluster_pool_available t3 = length (nodes t3) * cfg_pool_size (cluster_config t3) \<and>
    cluster_pool_idle_count t3 \<le> length (nodes t3) * cfg_pool_size (cluster_config t3))"
proof (intro conjI impI)
  assume "run_calls (\<lambda>args. scripted (\<lambda>env. standalone_execute C env args))
      (\<lambda>cmds. scripted (\<lambda>env. standalone_pipeline C env cmds)) calls1 (standalone_new config, envs) = Some (rs1, pool, envs1)"
  note standalone_router.run_calls_contract [OF this] standalone_router.run_calls_counts [OF this]
  then show "list_all2 call_fits calls1 rs1" "pool_available pool = pool_max_size pool" "pool_idle_count pool \<le> pool_max_size pool"
    using balanced_new [of config] by (simp_all add: standalone_new_def)
next
  assume new: "sentinel_new C hosts name config retries backoff ds envs = Some (Ok s2)"
    and run: "run_calls (execute_with_retry C) (sentinel_pipeline C) calls2 s2 = Some (rs2, t2)"
  note sentinel_router.run_calls_contract [OF run sentinel_new_ok [OF new]]
    sentinel_router.run_calls_counts [OF run sentinel_new_ok [OF new]]
  then show "list_all2 call_fits calls2 rs2" "sentinel_pool_available t2 = cfg_pool_size (sentinel_config t2)"
    "sentinel_pool_idle_count t2 \<le> cfg_pool_size (sentinel_config t2)" by simp_all
next
  assume new: "cluster_new C seeds config replicas envs = Some (Ok s3)"
    and run: "run_calls (execute_routed C) (cluster_pipeline C order) calls3 s3 = Some (rs3, t3)"
  have "cluster_quiet s3" using sorted_starts.cluster_new_ok [OF new] by (simp add: cluster_quiet_def cluster_ok_def)
  note cluster_router.run_calls_contract [OF run this] cluster_router.run_calls_counts [OF run this]
  then show "list_all2 call_fits calls3 rs3"
    "cluster_pool_available t3 = length (nodes t3) * cfg_pool_size (cluster_config t3)"
    "cluster_pool_idle_count t3 \<le> length (nodes t3) * cfg_pool_size (cluster_config t3)" by simp_all
qed

theorem routers_leak_nothing_witness:
  "\<exists>rs pool envs1. run_calls (\<lambda>args. scripted (\<lambda>env. standalone_execute (documented_crates (\<lambda>_. True)) env args))
      (\<lambda>cmds. scripted (\<lambda>env. standalone_pipeline (documented_crates (\<lambda>_. True)) env cmds)) [Execute [''PING'']]
      (standalone_new default_config, [sample_env\<lparr>dialing := DialFailed refused\<rparr>]) = Some (rs, pool, envs1) \<and>
    pool_available pool = pool_max_size pool"
proof -
  let ?run = "run_calls (\<lambda>args. scripted (\<lambda>env. standalone_execute (documented_crates (\<lambda>_. True)) env args))
      (\<lambda>cmds. scripted (\<lambda>env. standalone_pipeline (documented_crates (\<lambda>_. True)) env cmds)) [Execute [''PING'']]
      (standalone_new default_config, [sample_env\<lparr>dialing := DialFailed refused\<rparr>])"
  have "\<exists>rs pool envs1. ?run = Some (rs, pool, envs1)"
    by (simp add: scripted_def standalone_execute_def with_guard_def pool_get_def pool_acquire_def take_healthy_connection_def
        standalone_new_def pool_new_def default_config_def create_connection_def connect_timeout_with_max_buf_def
        connect_with_max_buf_def Let_def)
  then obtain rs pool envs1 where r: "?run = Some (rs, pool, envs1)" by blast
  have "pool_available pool = pool_max_size pool" using conjunct1 [OF routers_leak_nothing] r by blast
  with r show ?thesis by blast
qed

end
