(* ===== verification/Tasks.thy ===== *)
theory Tasks
  imports Pool
begin

text \<open>
  Tasks that share connection pools. A router is called from many tasks at once; each is a small
  machine whose steps are the pieces of the code between two points where another task can
  get in. The first part interleaves such machines, the second says what a step may do to the
  pools, and the locale \<open>pool_users\<close> derives from it that no interleaving loses a permit or
  opens a connection too many. The machines of the sentinel and of the cluster router are its
  interpretations.
\<close>

section \<open>Interleaving\<close>

text \<open>The tasks with their own states, and the state they share.\<close>

inductive task_step :: "('l \<Rightarrow> 'g \<Rightarrow> 'l \<Rightarrow> 'g \<Rightarrow> bool) \<Rightarrow> ('l \<Rightarrow> bool) \<Rightarrow> 'l list \<times> 'g \<Rightarrow> 'l list \<times> 'g \<Rightarrow> bool"
  for move initial where
  Move: "i < length ts \<Longrightarrow> move (ts ! i) g l g' \<Longrightarrow> task_step move initial (ts, g) (ts[i := l], g')"
| Arrive: "initial l \<Longrightarrow> task_step move initial (ts, g) (ts @ [l], g)"

inductive task_reachable :: "('l \<Rightarrow> 'g \<Rightarrow> 'l \<Rightarrow> 'g \<Rightarrow> bool) \<Rightarrow> ('l \<Rightarrow> bool) \<Rightarrow> 'g \<Rightarrow> 'l list \<times> 'g \<Rightarrow> bool"
  for move initial g0 where
  start: "task_reachable move initial g0 ([], g0)"
| step: "task_reachable move initial g0 s \<Longrightarrow> task_step move initial s t \<Longrightarrow> task_reachable move initial g0 t"

inductive_cases task_stepE: "task_step move initial (ts, g) (ts', g')"

interpretation task_runs: step_system "([], g0)" "task_step move initial" "task_reachable move initial g0" for move initial g0
  by unfold_locales (auto intro: task_reachable.intros elim: task_reachable.induct)

text \<open>
  An invariant of the shared state and of every task alone: it holds at the start and of every
  arriving task, a step keeps it for the task that moves and for all others.
\<close>

lemma task_invariant:
  assumes "task_reachable move initial g0 s" and "G g0"
    and "\<And>l g. G g \<Longrightarrow> initial l \<Longrightarrow> L l g"
    and "\<And>l g l' g'. move l g l' g' \<Longrightarrow> G g \<Longrightarrow> L l g \<Longrightarrow> G g' \<and> L l' g'"
    and "\<And>l g l' g' m. move l g l' g' \<Longrightarrow> G g \<Longrightarrow> L l g \<Longrightarrow> L m g \<Longrightarrow> L m g'"
  shows "G (snd s) \<and> (\<forall>l\<in>set (fst s). L l (snd s))"
  using assms(1)
proof (induction rule: task_reachable.induct)
  case (step s t)
  from step(2,3) show ?case
  proof cases
    case (Move i ts g l g')
    with step have l: "G g" "L (ts ! i) g" "\<forall>m\<in>set ts. L m g" by auto
    then have "G g'" "L l g'" "\<forall>m\<in>set ts. L m g'" using assms(4,5) [OF Move(4)] by blast+
    then show ?thesis using Move(2) set_update_subset_insert [of ts i l] by auto
  next
    case (Arrive l ts g)
    with step show ?thesis using assms(3) by auto
  qed
qed (simp add: assms(2))

lemma set_update_parts:
  assumes "i < length ts"
  shows "set (ts[i := l]) = insert l (set (take i ts) \<union> set (drop (Suc i) ts))"
    and "set ts = insert (ts ! i) (set (take i ts) \<union> set (drop (Suc i) ts))"
  using assms by (simp add: upd_conv_take_nth_drop) (subst id_take_nth_drop [OF assms], simp)

lemma ex_task_update:
  assumes "i < length ts" "\<not> P l" "\<not> P (ts ! i)"
  shows "(\<exists>x\<in>set (ts[i := l]). P x) \<longleftrightarrow> (\<exists>x\<in>set ts. P x)"
  using assms(2,3) set_update_parts [OF assms(1)] by auto

text \<open>One task runs while the others stand still.\<close>

definition solo :: "('l \<Rightarrow> 'g \<Rightarrow> 'l \<Rightarrow> 'g \<Rightarrow> bool) \<Rightarrow> 'l \<times> 'g \<Rightarrow> 'l \<times> 'g \<Rightarrow> bool" where
  "solo move = (\<lambda>s t. move (fst s) (snd s) (fst t) (snd t))\<^sup>*\<^sup>*"

lemma solo_refl [simp]: "solo move s s"
  by (simp add: solo_def)

lemma solo_step: "move l g l' g' \<Longrightarrow> solo move (l, g) (l', g')"
  by (auto simp: solo_def intro: r_into_rtranclp)

lemma solo_trans [trans]: "solo move s t \<Longrightarrow> solo move t u \<Longrightarrow> solo move s u"
  unfolding solo_def by (rule rtranclp_trans)

lemma solo_first: "move l g l' g' \<Longrightarrow> solo move (l', g') u \<Longrightarrow> solo move (l, g) u"
  using solo_step solo_trans by metis

lemma solo_runs:
  assumes "solo move s t" and "i < length ts" "ts ! i = fst s"
  shows "(task_step move initial)\<^sup>*\<^sup>* (ts, snd s) (ts[i := fst t], snd t)"
  using assms(1) unfolding solo_def
proof (induction rule: rtranclp_induct)
  case base
  then show ?case using assms(2,3) by (metis list_update_id rtranclp.rtrancl_refl)
next
  case (step t u)
  have "task_step move initial (ts[i := fst t], snd t) ((ts[i := fst t])[i := fst u], snd u)"
    using assms(2) step(2) by (intro task_step.Move) simp_all
  with step(3) show ?case by simp
qed

text \<open>A machine that is part of another one.\<close>

lemma solo_embed:
  assumes "solo part (l, g) (l', g')" and "\<And>l g l' g'. part l g l' g' \<Longrightarrow> move (f l) g (f l') g'"
  shows "solo move (f l, g) (f l', g')"
proof -
  have "solo move (f (fst s), snd s) (f (fst t), snd t)" if "solo part s t" for s t
    using that unfolding solo_def
  proof (induction rule: rtranclp_induct)
    case (step t u)
    with assms(2) show ?case by (simp add: rtranclp.rtrancl_into_rtrancl)
  qed simp
  from this [OF assms(1)] show ?thesis by simp
qed

text \<open>Equal tasks arrive and then run one after the other; \<open>I k\<close> holds when \<open>k\<close> of them have run.\<close>

lemma all_arrive: "initial l \<Longrightarrow> (task_step move initial)\<^sup>*\<^sup>* (ts, g) (ts @ replicate n l, g)"
proof (induction n)
  case (Suc n)
  then have "task_step move initial (ts @ replicate n l, g) ((ts @ replicate n l) @ [l], g)" by (intro task_step.Arrive)
  with Suc show ?case by (simp add: replicate_append_same)
qed simp

lemma one_after_the_other:
  assumes "\<And>k g. I k g \<Longrightarrow> k < n \<Longrightarrow> \<exists>g'. solo move (l, g) (l', g') \<and> I (Suc k) g'" and "I 0 g"
  obtains g' where "(task_step move initial)\<^sup>*\<^sup>* (xs @ replicate n l @ ys, g) (xs @ replicate n l' @ ys, g')" "I n g'"
proof -
  let ?ts = "\<lambda>k. xs @ replicate k l' @ replicate (n - k) l @ ys"
  have "\<exists>g'. (task_step move initial)\<^sup>*\<^sup>* (?ts 0, g) (?ts k, g') \<and> I k g'" if "k \<le> n" for k
    using that
  proof (induction k)
    case (Suc k)
    then obtain h where h: "(task_step move initial)\<^sup>*\<^sup>* (?ts 0, g) (?ts k, h)" "I k h" by auto
    obtain g' where g': "solo move (l, h) (l', g')" "I (Suc k) g'" using assms(1) [OF h(2)] Suc.prems by auto
    have "n - k = Suc (n - Suc k)" using Suc.prems by simp
    then have nth: "?ts k ! (length xs + k) = l" "(?ts k)[length xs + k := l'] = ?ts (Suc k)" "length xs + k < length (?ts k)"
      by (simp_all add: nth_append list_update_append replicate_app_Cons_same)
    have "(task_step move initial)\<^sup>*\<^sup>* (?ts k, h) (?ts (Suc k), g')"
      using solo_runs [OF g'(1), of "length xs + k" "?ts k" initial] nth by simp
    with h(1) g'(2) show ?case by (meson rtranclp_trans)
  qed (use assms(2) in auto)
  from this [of n] that show thesis by auto
qed

section \<open>What a step does to the pools\<close>

text \<open>
  The pools under their names, the guards a task holds (the last one first) and the pools from
  which it has a permit while it connects.
\<close>

inductive pool_effect :: "crates \<Rightarrow> ('k \<rightharpoonup> ConnectionPool) \<times> ('k \<times> RedisConnection) list \<times> 'k list
    \<Rightarrow> ('k \<rightharpoonup> ConnectionPool) \<times> ('k \<times> RedisConnection) list \<times> 'k list \<Rightarrow> bool" for C where
  Create: "m k = None \<Longrightarrow> pool_effect C (m, gs, os) (m(k \<mapsto> pool_new config), gs, os)"
| Reuse: "m k = Some pool \<Longrightarrow> pool_acquire now pool = Some (Some conn, pool') \<Longrightarrow>
    pool_effect C (m, gs, os) (m(k \<mapsto> pool'), (k, conn) # gs, os)"
| Dial: "m k = Some pool \<Longrightarrow> pool_acquire now pool = Some (None, pool') \<Longrightarrow>
    pool_effect C (m, gs, os) (m(k \<mapsto> pool'), gs, k # os)"
| Connected: "m k = Some pool \<Longrightarrow> create_connection C d (pool_config pool) = Some (Ok conn) \<Longrightarrow>
    pool_effect C (m, gs, k # os) (m, (k, conn) # gs, os)"
| Refused: "m k = Some pool \<Longrightarrow> create_connection C d (pool_config pool) = Some (Err e) \<Longrightarrow>
    pool_effect C (m, gs, k # os) (m(k \<mapsto> release_permit pool), gs, os)"
| Use: "pool_effect C (m, (k, conn) # gs, os) (m, (k, conn') # gs, os)"
| Drop: "m k = Some pool \<Longrightarrow>
    pool_effect C (m, (k, conn) # gs, os) (m(k \<mapsto> guard_drop now (Some conn) pool), gs, os)"

text \<open>A pool that \<open>h\<close> guards and \<open>c\<close> connecting tasks use, as a state of the pool's own step relation.\<close>

definition pool_used :: "crates \<Rightarrow> ConnectionPool \<Rightarrow> nat \<Rightarrow> nat \<Rightarrow> bool" where
  "pool_used C pool h c \<longleftrightarrow> (\<forall>hs. length hs = h \<longrightarrow>
     pool_reachable C (pool_config pool) \<lparr>the_pool = pool, held = hs, connecting = c\<rparr>)"

lemma pool_held_any:
  assumes "pool_reachable C config s" and "length hs = length (held s)"
  shows "pool_reachable C config (s\<lparr>held := hs\<rparr>)"
proof -
  have "pool_reachable C config (s\<lparr>held := take k hs @ drop k (held s)\<rparr>)" if "k \<le> length hs" for k
    using that
  proof (induction k)
    case (Suc k)
    let ?s = "s\<lparr>held := take k hs @ drop k (held s)\<rparr>"
    have "held ?s = take k hs @ held s ! k # drop (Suc k) (held s)"
      using Suc.prems assms(2) by (simp add: Cons_nth_drop_Suc)
    from pool_step.Used [OF this, of C "hs ! k"] Suc show ?case
      by (auto simp: take_Suc_conv_app_nth dest: pool_reachable.step)
  qed (use assms(1) in simp)
  from this [of "length hs"] assms(2) show ?thesis by simp
qed

lemma pool_usedI:
  assumes "pool_reachable C (pool_config pool) \<lparr>the_pool = pool, held = hs, connecting = c\<rparr>" and "length hs = h"
  shows "pool_used C pool h c"
  using pool_held_any [OF assms(1)] assms(2) by (simp add: pool_used_def)

lemma pool_used_counts:
  assumes "pool_used C pool h c"
  shows "permits pool + h + c = pool_max_size pool" "idle_count pool + h + c \<le> pool_max_size pool"
proof -
  obtain hs :: "RedisConnection list" where "length hs = h" using Ex_list_of_length by blast
  with assms have "pool_inv (pool_config pool) \<lparr>the_pool = pool, held = hs, connecting = c\<rparr>" "length hs = h"
    by (auto simp: pool_used_def intro: pool_reachable_inv)
  then show "permits pool + h + c = pool_max_size pool" "idle_count pool + h + c \<le> pool_max_size pool"
    by (simp_all add: pool_inv_def idle_count_def)
qed

lemma pool_used_new: "pool_used C (pool_new config) 0 0"
  using pool_reachable.start [of C config]
  by (intro pool_usedI [of _ _ "[]"]) (simp_all add: pool_start_def pool_new_def Let_def)

text \<open>The effects on a pool are steps of the pool.\<close>

lemma pool_used_step:
  assumes "pool_used C pool h c" and "length hs = h" "length hs' = h'"
    and "pool_step C \<lparr>the_pool = pool, held = hs, connecting = c\<rparr> \<lparr>the_pool = pool', held = hs', connecting = c'\<rparr>"
    and "pool_config pool' = pool_config pool"
  shows "pool_used C pool' h' c'"
  using assms by (intro pool_usedI [where hs = hs']) (auto simp: pool_used_def intro: pool_reachable.step)

lemma pool_used_effects:
  assumes "pool_used C pool h c"
  shows "pool_acquire now pool = Some (Some conn, pool') \<Longrightarrow> pool_used C pool' (Suc h) c"
    and "pool_acquire now pool = Some (None, pool') \<Longrightarrow> pool_used C pool' h (Suc c)"
    and "create_connection C d (pool_config pool) = Some (Ok conn) \<Longrightarrow> c = Suc k \<Longrightarrow> pool_used C pool (Suc h) k"
    and "create_connection C d (pool_config pool) = Some (Err e) \<Longrightarrow> c = Suc k \<Longrightarrow> pool_used C (release_permit pool) h k"
    and "h = Suc n \<Longrightarrow> pool_used C (guard_drop now (Some conn) pool) n c"
proof -
  obtain hs :: "RedisConnection list" where hs: "length hs = h" using Ex_list_of_length by blast
  let ?s = "\<lparr>the_pool = pool, held = hs, connecting = c\<rparr>"
  note used = pool_used_step [OF assms hs]
  show "pool_used C pool' (Suc h) c" if "pool_acquire now pool = Some (Some conn, pool')"
    using used [of "conn # hs"] pool_step.Reuse [of now ?s conn pool' C] that hs pool_acquire_facts(3) [OF that] by simp
  show "pool_used C pool' h (Suc c)" if "pool_acquire now pool = Some (None, pool')"
    using used [of hs] pool_step.Dial [of now ?s pool' C] that hs pool_acquire_facts(3) [OF that] by simp
  show "pool_used C pool (Suc h) k" if "create_connection C d (pool_config pool) = Some (Ok conn)" "c = Suc k"
    using used [of "conn # hs"] pool_step.Connected [of ?s C d conn] that hs by simp
  show "pool_used C (release_permit pool) h k" if "create_connection C d (pool_config pool) = Some (Err e)" "c = Suc k"
    using used [of hs] pool_step.Refused [of ?s C d e] that hs by (simp add: release_permit_def)
  show "pool_used C (guard_drop now (Some conn) pool) n c" if "h = Suc n"
  proof -
    obtain tl :: "RedisConnection list" where "length tl = n" using Ex_list_of_length by blast
    then show ?thesis
      using pool_used_step [OF assms, of "conn # tl" tl] pool_step.Dropped [of "\<lparr>the_pool = pool, held = conn # tl, connecting = c\<rparr>" "[]" conn tl C now] that
      by (simp add: guard_drop_facts(2))
  qed
qed

text \<open>All pools at once; \<open>h\<close> and \<open>c\<close> count the guards and the connecting tasks of each.\<close>

definition pools_used :: "crates \<Rightarrow> ('k \<rightharpoonup> ConnectionPool) \<Rightarrow> ('k \<Rightarrow> nat) \<Rightarrow> ('k \<Rightarrow> nat) \<Rightarrow> bool" where
  "pools_used C m h c \<longleftrightarrow>
     (\<forall>k. case m k of None \<Rightarrow> h k = 0 \<and> c k = 0 | Some pool \<Rightarrow> pool_used C pool (h k) (c k))"

definition guards_at :: "('k \<times> RedisConnection) list \<Rightarrow> 'k \<Rightarrow> nat" where
  "guards_at gs k = count_list (map fst gs) k"

lemma guards_at_simps [simp]:
  "guards_at [] k = 0" "guards_at ((k', conn) # gs) k = (if k' = k then Suc (guards_at gs k) else guards_at gs k)"
  by (simp_all add: guards_at_def)

lemma pool_effect_used:
  assumes "pool_effect C (m, gs, os) (m', gs', os')"
    and "pools_used C m (\<lambda>k. h k + guards_at gs k) (\<lambda>k. c k + count_list os k)"
  shows "pools_used C m' (\<lambda>k. h k + guards_at gs' k) (\<lambda>k. c k + count_list os' k)"
  unfolding pools_used_def
proof
  fix j
  have "case m j of None \<Rightarrow> h j + guards_at gs j = 0 \<and> c j + count_list os j = 0
      | Some pool \<Rightarrow> pool_used C pool (h j + guards_at gs j) (c j + count_list os j)"
    using assms(2) by (simp only: pools_used_def)
  with assms(1) show "case m' j of None \<Rightarrow> h j + guards_at gs' j = 0 \<and> c j + count_list os' j = 0
      | Some pool \<Rightarrow> pool_used C pool (h j + guards_at gs' j) (c j + count_list os' j)"
    by (cases rule: pool_effect.cases)
       (auto simp: pool_used_new split: option.splits if_splits intro: pool_used_effects)
qed

lemma pool_effects_used:
  assumes "(pool_effect C)\<^sup>*\<^sup>* s t"
    and "pools_used C (fst s) (\<lambda>k. h k + guards_at (fst (snd s)) k) (\<lambda>k. c k + count_list (snd (snd s)) k)"
  shows "pools_used C (fst t) (\<lambda>k. h k + guards_at (fst (snd t)) k) (\<lambda>k. c k + count_list (snd (snd t)) k)"
  using assms
proof (induction rule: rtranclp_induct)
  case (step t u)
  then show ?case using pool_effect_used by (cases t, cases u) auto
qed

text \<open>The guards of a pool over all tasks, and the tasks that connect for it.\<close>

definition held_at :: "('l \<Rightarrow> ('k \<times> RedisConnection) list) \<Rightarrow> 'l list \<Rightarrow> 'k \<Rightarrow> nat" where
  "held_at guards ts k = sum_list (map (\<lambda>l. guards_at (guards l) k) ts)"

definition dialling_at :: "('l \<Rightarrow> 'k list) \<Rightarrow> 'l list \<Rightarrow> 'k \<Rightarrow> nat" where
  "dialling_at dialling ts k = sum_list (map (\<lambda>l. count_list (dialling l) k) ts)"

lemma sum_update:
  fixes f :: "'l \<Rightarrow> nat"
  assumes "i < length ts"
  shows "sum_list (map f (ts[i := l])) = sum_list (map f (take i ts)) + sum_list (map f (drop (Suc i) ts)) + f l"
    and "sum_list (map f ts) = sum_list (map f (take i ts)) + sum_list (map f (drop (Suc i) ts)) + f (ts ! i)"
  using assms id_take_nth_drop [OF assms]
  by (simp add: upd_conv_take_nth_drop, metis (no_types) add.assoc add.commute list.simps(9) map_append sum_list.Cons sum_list_append)

lemma held_at_pos: "0 < held_at guards ts k \<longleftrightarrow> (\<exists>l\<in>set ts. k \<in> fst ` set (guards l))"
  unfolding held_at_def zero_less_iff_neq_zero sum_list_eq_0_iff
  by (auto simp: guards_at_def count_list_0_iff)

lemma dialling_at_pos: "0 < dialling_at dialling ts k \<longleftrightarrow> (\<exists>l\<in>set ts. k \<in> set (dialling l))"
  unfolding dialling_at_def zero_less_iff_neq_zero sum_list_eq_0_iff
  by (auto simp: count_list_0_iff)

section \<open>The contract of a task\<close>

text \<open>
  A machine keeps the contract when each of its steps is a sequence of such effects; a task
  that arrives has no guard yet.
\<close>

locale pool_users =
  fixes C :: crates
    and move :: "'l \<Rightarrow> 'g \<Rightarrow> 'l \<Rightarrow> 'g \<Rightarrow> bool" and initial :: "'l \<Rightarrow> bool" and g0 :: 'g
    and pools :: "'g \<Rightarrow> 'k \<rightharpoonup> ConnectionPool"
    and guards :: "'l \<Rightarrow> ('k \<times> RedisConnection) list" and dialling :: "'l \<Rightarrow> 'k list"
  assumes move_effects: "move l g l' g' \<Longrightarrow>
      (pool_effect C)\<^sup>*\<^sup>* (pools g, guards l, dialling l) (pools g', guards l', dialling l')"
    and initial_no_guard: "initial l \<Longrightarrow> guards l = [] \<and> dialling l = []"
    and fresh_pools: "pools g0 k = Some pool \<Longrightarrow> \<exists>config. pool = pool_new config"
begin

lemma pools_accounted:
  assumes "task_reachable move initial g0 (ts, g)"
  shows "pools_used C (pools g) (held_at guards ts) (dialling_at dialling ts)"
proof -
  have "pools_used C (pools (snd s)) (held_at guards (fst s)) (dialling_at dialling (fst s))" if "task_reachable move initial g0 s" for s
    using that
  proof (induction rule: task_reachable.induct)
    case start
    then show ?case
      using fresh_pools pool_used_new by (fastforce simp: pools_used_def held_at_def dialling_at_def split: option.split)
  next
    case (step s t)
    from step(2,3) show ?case
    proof cases
      case (Move i ts g l g')
      then show ?thesis
        using pool_effects_used [OF move_effects [OF Move(4)]] step(3)
        by (simp add: held_at_def dialling_at_def sum_update [OF Move(3)] del: map_update)
    next
      case (Arrive l ts g)
      with step(3) initial_no_guard show ?thesis by (simp add: held_at_def dialling_at_def)
    qed
  qed
  from this [OF assms] show ?thesis by simp
qed

lemma pool_accounting:
  assumes "task_reachable move initial g0 (ts, g)" and "pools g k = Some pool"
  shows "available pool + held_at guards ts k + dialling_at dialling ts k = max_size pool"
    "idle_count pool + held_at guards ts k + dialling_at dialling ts k \<le> max_size pool"
proof -
  have "pool_used C pool (held_at guards ts k) (dialling_at dialling ts k)"
    using pools_accounted [OF assms(1)] assms(2) by (auto simp: pools_used_def dest: spec [of _ k])
  from pool_used_counts [OF this] show "available pool + held_at guards ts k + dialling_at dialling ts k = max_size pool"
    "idle_count pool + held_at guards ts k + dialling_at dialling ts k \<le> max_size pool"
    by (simp_all add: available_def max_size_def)
qed

lemma guard_has_pool:
  assumes "task_reachable move initial g0 (ts, g)" and "l \<in> set ts" and "k \<in> fst ` set (guards l) \<or> k \<in> set (dialling l)"
  shows "pools g k \<noteq> None"
proof
  assume "pools g k = None"
  then have "held_at guards ts k = 0 \<and> dialling_at dialling ts k = 0"
    using pools_accounted [OF assms(1)] by (auto simp: pools_used_def dest: spec [of _ k])
  then show False using assms(2,3) held_at_pos [of guards ts k] dialling_at_pos [of dialling ts k] by auto
qed

text \<open>A pool without a free permit is in use.\<close>

lemma exhausted_pool_in_use:
  assumes "task_reachable move initial g0 (ts, g)" and "pools g k = Some pool" "available pool = 0" "0 < max_size pool"
  shows "\<exists>l\<in>set ts. k \<in> fst ` set (guards l) \<or> k \<in> set (dialling l)"
  using pool_accounting(1) [OF assms(1,2)] assms(3,4) held_at_pos [of guards ts k] dialling_at_pos [of dialling ts k]
  by (metis add_0 gr_zeroI)

end

end
