(* ===== verification/Sentinel_Tasks.thy ===== *)
theory Sentinel_Tasks
  imports Router Tasks
begin

text \<open>
  Many calls at once on one sentinel router (\<open>src/src/router/sentinel.rs\<close>). A task is a call of
  \<open>execute\<close> or \<open>pipeline\<close>; another task can get in wherever the code awaits and, as the runtime
  has several threads, between any two accesses to a lock. So \<open>failover\<close> is three separate
  steps after the sentinels have answered: read \<open>master_addr\<close>, write \<open>master_pool\<close>, write
  \<open>master_addr\<close>. A pool lives as long as someone refers to it: \<open>arcs\<close> lists all pools ever
  created, \<open>master_pool\<close> is the position of the current one.

  The operations of the steps are those of the sequential model. The answers of the network are
  free: every dialling may give any connection with any script.
\<close>

section \<open>The machine\<close>

record shared_sentinel =
  arcs :: "ConnectionPool list"
  current :: nat
  address :: string

text \<open>
  Where a call is. The first number is the attempt, the option the error of the attempt before;
  an attempt that has begun either returns or replaces it.
\<close>

datatype sentinel_stage =
    Attempt nat "PyrsedisError option"
  | Resolved nat string
  | Swapping nat string
  | Renaming nat string
  | Cloning nat
  | Waiting nat nat
  | Opening nat nat
  | Holding nat nat RedisConnection
  | Finished router_result

text \<open>An error while a connection is taken or used: the next attempt, or the result of a pipeline.\<close>

fun give_up :: "router_call \<Rightarrow> nat \<Rightarrow> PyrsedisError \<Rightarrow> sentinel_stage" where
  "give_up (Execute args) k e = Attempt (Suc k) (Some e)"
| "give_up (Pipeline cmds) k e = Finished (Replies (Err e))"

text \<open>What a call does with its connection, and where that leaves it.\<close>

fun command_end :: "nat \<Rightarrow> attempt_end \<Rightarrow> sentinel_stage" where
  "command_end k (Return r) = Finished (Reply r)"
| "command_end k (Retry e) = Attempt (Suc k) (Some e)"

fun pipeline_end :: "RespValue list res \<Rightarrow> sentinel_stage res" where
  "pipeline_end (Ok vs) = Ok (Finished (Replies (Ok vs)))"
| "pipeline_end (Err e) = Ok (Finished (Replies (Err e)))"
| "pipeline_end Panic = Panic"

fun use_connection :: "crates \<Rightarrow> router_call \<Rightarrow> nat \<Rightarrow> RedisConnection \<Rightarrow> (sentinel_stage res \<times> RedisConnection) option" where
  "use_connection C (Execute args) k conn =
     map_option (\<lambda>(r, conn). (and_then r (\<lambda>a. Ok (command_end k a)), conn)) (converse C args conn)"
| "use_connection C (Pipeline cmds) k conn =
     map_option (\<lambda>(r, conn). (pipeline_end r, conn))
       (io_bind (send_each C cmds) (\<lambda>_. read_replies (read_response C) cmds []) conn)"

definition pool_at :: "shared_sentinel \<Rightarrow> nat \<rightharpoonup> ConnectionPool" where
  "pool_at g p = (if p < length (arcs g) then Some (arcs g ! p) else None)"

definition put_arc :: "nat \<Rightarrow> ConnectionPool \<Rightarrow> shared_sentinel \<Rightarrow> shared_sentinel" where
  "put_arc p pool g = g\<lparr>arcs := (arcs g)[p := pool]\<rparr>"

text \<open>\<open>R\<close> holds what never changes: the sentinels, the name of the master, the configuration, the retries.\<close>

inductive sentinel_move :: "crates \<Rightarrow> SentinelRouter \<Rightarrow> router_call \<times> sentinel_stage \<Rightarrow> shared_sentinel
    \<Rightarrow> router_call \<times> sentinel_stage \<Rightarrow> shared_sentinel \<Rightarrow> bool" for C R where
  First: "sentinel_move C R (call, Attempt 0 err) g (call, Cloning 0) g"
| Exhausted: "retry_count R < k \<Longrightarrow>
    sentinel_move C R (call, Attempt k err) g
      (call, Finished (Reply (Err (unwrap_or (Sentinel ''all failover retries exhausted'') err)))) g"
| Resolve: "0 < k \<Longrightarrow> k \<le> retry_count R \<Longrightarrow>
    resolve_master C (sentinels R) (master_name R) (sentinel_config R) ds = Some (Ok a, ds') \<Longrightarrow>
    sentinel_move C R (call, Attempt k err) g (call, Resolved k a) g"
| Unresolved: "0 < k \<Longrightarrow> k \<le> retry_count R \<Longrightarrow>
    resolve_master C (sentinels R) (master_name R) (sentinel_config R) ds = Some (Err e, ds') \<Longrightarrow>
    sentinel_move C R (call, Attempt k err) g (call, Attempt (Suc k) (Some e)) g"
| Same: "a = address g \<Longrightarrow> sentinel_move C R (call, Resolved k a) g (call, Cloning k) g"
| Differs: "a \<noteq> address g \<Longrightarrow> sentinel_move C R (call, Resolved k a) g (call, Swapping k a) g"
| Swap: "sentinel_move C R (call, Swapping k a) g (call, Renaming k a)
    (g\<lparr>arcs := arcs g @ [create_master_pool a (sentinel_config R)], current := length (arcs g)\<rparr>)"
| Rename: "sentinel_move C R (call, Renaming k a) g (call, Cloning k) (g\<lparr>address := a\<rparr>)"
| Clone: "sentinel_move C R (call, Cloning k) g (call, Waiting k (current g)) g"
| Reuse: "pool_at g p = Some pool \<Longrightarrow> pool_acquire now pool = Some (Some conn, pool') \<Longrightarrow>
    sentinel_move C R (call, Waiting k p) g (call, Holding k p conn) (put_arc p pool' g)"
| Dial: "pool_at g p = Some pool \<Longrightarrow> pool_acquire now pool = Some (None, pool') \<Longrightarrow>
    sentinel_move C R (call, Waiting k p) g (call, Opening k p) (put_arc p pool' g)"
| Connected: "pool_at g p = Some pool \<Longrightarrow> create_connection C d (pool_config pool) = Some (Ok conn) \<Longrightarrow>
    sentinel_move C R (call, Opening k p) g (call, Holding k p conn) g"
| Refused: "pool_at g p = Some pool \<Longrightarrow> create_connection C d (pool_config pool) = Some (Err e) \<Longrightarrow>
    sentinel_move C R (call, Opening k p) g (call, give_up call k e) (put_arc p (release_permit pool) g)"
| Talk: "pool_at g p = Some pool \<Longrightarrow> use_connection C call k conn = Some (Ok stage, conn') \<Longrightarrow>
    sentinel_move C R (call, Holding k p conn) g (call, stage) (put_arc p (guard_drop now (Some conn') pool) g)"

inductive_cases sentinel_moveE: "sentinel_move C R l g l' g'"

fun sentinel_begin :: "router_call \<Rightarrow> sentinel_stage" where
  "sentinel_begin (Execute args) = Attempt 0 None"
| "sentinel_begin (Pipeline cmds) = Cloning 0"

definition sentinel_call :: "router_call \<times> sentinel_stage \<Rightarrow> bool" where
  "sentinel_call l \<longleftrightarrow> snd l = sentinel_begin (fst l)"

text \<open>The router as the constructor leaves it.\<close>

definition sentinel_shared :: "SentinelRouter \<Rightarrow> shared_sentinel" where
  "sentinel_shared R = \<lparr>arcs = [create_master_pool (master_addr R) (sentinel_config R)], current = 0, address = master_addr R\<rparr>"

definition sentinel_reach :: "crates \<Rightarrow> SentinelRouter \<Rightarrow> (router_call \<times> sentinel_stage) list \<times> shared_sentinel \<Rightarrow> bool" where
  "sentinel_reach C R = task_reachable (sentinel_move C R) sentinel_call (sentinel_shared R)"

section \<open>The pools\<close>

fun stage_guards :: "sentinel_stage \<Rightarrow> (nat \<times> RedisConnection) list" where
  "stage_guards (Holding k p conn) = [(p, conn)]"
| "stage_guards _ = []"

fun stage_dialling :: "sentinel_stage \<Rightarrow> nat list" where
  "stage_dialling (Opening k p) = [p]"
| "stage_dialling _ = []"

lemma pool_at_put_arc: "pool_at g p = Some pool \<Longrightarrow> pool_at (put_arc p pool' g) = (pool_at g)(p \<mapsto> pool')"
  by (auto simp: pool_at_def put_arc_def fun_eq_iff split: if_splits)

lemma pool_at_snoc: "pool_at (g\<lparr>arcs := arcs g @ [pool], current := c\<rparr>) = (pool_at g)(length (arcs g) \<mapsto> pool)"
  by (auto simp: pool_at_def fun_eq_iff nth_append)

lemma pool_at_address [simp]: "pool_at (g\<lparr>address := a\<rparr>) = pool_at g"
  by (simp add: pool_at_def fun_eq_iff)

lemma no_guard_stages [simp]:
  "stage_guards (give_up call k e) = []" "stage_dialling (give_up call k e) = []"
  "stage_guards (sentinel_begin call) = []" "stage_dialling (sentinel_begin call) = []"
  by (cases call; simp)+

lemma use_connection_ends:
  assumes "use_connection C call k conn = Some (Ok stage, conn')"
  obtains r where "stage = Finished r" | e where "stage = Attempt (Suc k) (Some e)"
proof -
  have "\<exists>x. stage = Finished x" if "pipeline_end r = Ok stage" for r using that by (cases r) auto
  moreover have "(\<exists>r. command_end k a = Finished r) \<or> (\<exists>e. command_end k a = Attempt (Suc k) (Some e))" for a
    by (cases a) simp_all
  ultimately have "(\<exists>r. stage = Finished r) \<or> (\<exists>e. stage = Attempt (Suc k) (Some e))"
    using assms by (cases call) (auto elim!: and_then_OkE)
  with that show ?thesis by blast
qed

lemma sentinel_move_effects:
  assumes "sentinel_move C R l g l' g'"
  shows "(pool_effect C)\<^sup>*\<^sup>* (pool_at g, stage_guards (snd l), stage_dialling (snd l))
    (pool_at g', stage_guards (snd l'), stage_dialling (snd l'))"
  using assms
proof cases
  case (Swap call k a)
  have "pool_effect C (pool_at g, [], []) (pool_at g', [], [])"
    using pool_effect.Create [of "pool_at g" "length (arcs g)"] Swap
    by (auto simp: pool_at_snoc create_master_pool_def) (simp add: pool_at_def)
  with Swap show ?thesis by auto
next
  case (Talk p pool call k conn stage conn' now)
  have "pool_effect C (pool_at g, [(p, conn)], []) (pool_at g, [(p, conn')], [])" by (rule pool_effect.Use)
  moreover have "pool_effect C (pool_at g, [(p, conn')], []) (pool_at g', [], [])"
    using pool_effect.Drop [of "pool_at g" p pool] Talk by (simp add: pool_at_put_arc)
  ultimately show ?thesis using Talk by (auto elim: use_connection_ends)
qed (auto simp: pool_at_put_arc intro: r_into_rtranclp pool_effect.intros)

lemma sentinel_fresh: "pool_at (sentinel_shared R) p = Some pool \<Longrightarrow> \<exists>config. pool = pool_new config"
  by (auto simp: pool_at_def sentinel_shared_def create_master_pool_def split: if_splits)

interpretation sentinel_users: pool_users C "sentinel_move C R" sentinel_call "sentinel_shared R" pool_at
  "\<lambda>l. stage_guards (snd l)" "\<lambda>l. stage_dialling (snd l)" for C R
  by unfold_locales (auto simp: sentinel_call_def intro: sentinel_move_effects sentinel_fresh)

text \<open>Every call refers to pools that exist, all of them made for some master of the same configuration.\<close>

fun stage_pools :: "sentinel_stage \<Rightarrow> nat list" where
  "stage_pools (Waiting k p) = [p]"
| "stage_pools (Opening k p) = [p]"
| "stage_pools (Holding k p conn) = [p]"
| "stage_pools _ = []"

definition arcs_ok :: "SentinelRouter \<Rightarrow> shared_sentinel \<Rightarrow> bool" where
  "arcs_ok R g \<longleftrightarrow> current g < length (arcs g) \<and> list_all (\<lambda>pool. max_size pool = cfg_pool_size (sentinel_config R)) (arcs g)"

definition stage_ok :: "router_call \<times> sentinel_stage \<Rightarrow> shared_sentinel \<Rightarrow> bool" where
  "stage_ok l g \<longleftrightarrow> (\<forall>p\<in>set (stage_pools (snd l)). p < length (arcs g))"

lemma no_pool_stages [simp]: "stage_pools (give_up call k e) = []" "stage_pools (sentinel_begin call) = []"
  by (cases call; simp)+

lemma create_master_pool_size: "max_size (create_master_pool a config) = cfg_pool_size config"
  by (simp add: create_master_pool_def max_size_def pool_new_def Let_def split: option.split)

lemma arcs_ok_simps:
  "arcs_ok R g \<Longrightarrow> arcs_ok R (g\<lparr>arcs := arcs g @ [create_master_pool a (sentinel_config R)], current := length (arcs g)\<rparr>)"
  "arcs_ok R (g\<lparr>address := a\<rparr>) = arcs_ok R g" "arcs_ok R g \<Longrightarrow> current g < length (arcs g)"
  by (simp_all add: arcs_ok_def create_master_pool_size)

lemma length_put_arc [simp]: "length (arcs (put_arc p pool g)) = length (arcs g)"
  by (simp add: put_arc_def)

lemma put_arc_ok:
  assumes "arcs_ok R g" "pool_at g p = Some pool" "pool_max_size pool' = pool_max_size pool"
  shows "arcs_ok R (put_arc p pool' g)"
  using assms by (auto simp: arcs_ok_def put_arc_def pool_at_def list_all_length nth_list_update max_size_def split: if_splits)

lemma sentinel_move_ok:
  assumes "sentinel_move C R l g l' g'" and "arcs_ok R g" and "stage_ok l g"
  shows "arcs_ok R g' \<and> stage_ok l' g'" and "stage_ok m g \<Longrightarrow> stage_ok m g'"
proof -
  have len: "length (arcs g) \<le> length (arcs g')" using assms(1) by cases (auto simp: put_arc_def)
  then show "stage_ok m g \<Longrightarrow> stage_ok m g'" by (auto simp: stage_ok_def)
  show "arcs_ok R g' \<and> stage_ok l' g'"
    using assms
    by cases
       (auto simp: stage_ok_def put_arc_ok pool_acquire_facts guard_drop_facts release_permit_def
         arcs_ok_simps elim: use_connection_ends)
qed

lemma sentinel_reach_ok:
  assumes "sentinel_reach C R (ts, g)"
  shows "arcs_ok R g" and "l \<in> set ts \<Longrightarrow> stage_ok l g"
proof -
  have "arcs_ok R (sentinel_shared R)"
    by (simp add: arcs_ok_def sentinel_shared_def create_master_pool_size)
  with assms have "arcs_ok R (snd (ts, g)) \<and> (\<forall>l\<in>set (fst (ts, g)). stage_ok l (snd (ts, g)))"
    unfolding sentinel_reach_def
    by (rule task_invariant) (simp add: sentinel_call_def stage_ok_def, erule (2) sentinel_move_ok(1), erule (3) sentinel_move_ok(2))
  then show "arcs_ok R g" "l \<in> set ts \<Longrightarrow> stage_ok l g" by auto
qed

text \<open>Whoever has a permit is not waiting for one.\<close>

lemma permit_stages:
  "p \<in> fst ` set (stage_guards stage) \<or> p \<in> set (stage_dialling stage) \<longleftrightarrow>
     (\<exists>k. stage = Opening k p) \<or> (\<exists>k conn. stage = Holding k p conn)"
  by (cases stage) auto

section \<open>Address and pool\<close>

text \<open>The configuration of the pool for a master, and of the pool in use.\<close>

definition master_config :: "SentinelRouter \<Rightarrow> string \<Rightarrow> ConnectionConfig" where
  "master_config R a = pool_config (create_master_pool a (sentinel_config R))"

definition current_config :: "shared_sentinel \<Rightarrow> ConnectionConfig" where
  "current_config g = pool_config (arcs g ! current g)"

lemma put_arc_config:
  "pool_at g p = Some pool \<Longrightarrow> pool_config pool' = pool_config pool \<Longrightarrow> current_config (put_arc p pool' g) = current_config g"
  by (auto simp: current_config_def put_arc_def pool_at_def nth_list_update split: if_splits)

lemma put_arc_address [simp]: "address (put_arc p pool g) = address g" "current (put_arc p pool g) = current g"
  by (simp_all add: put_arc_def)

text \<open>Between the comparison of the addresses and the last write a task is publishing a master.\<close>

fun publishing :: "sentinel_stage \<Rightarrow> bool" where
  "publishing (Swapping k a) = True"
| "publishing (Renaming k a) = True"
| "publishing _ = False"

lemma not_publishing [simp]: "\<not> publishing (give_up call k e)" "\<not> publishing (sentinel_begin call)"
  by (cases call; simp)+

text \<open>Steps that do not publish leave the pool in use and its address alone.\<close>

lemma quiet_move:
  assumes "sentinel_move C R l g l' g'" and "\<not> publishing (snd l)"
  shows "current_config g' = current_config g \<and> current g' = current g \<and> address g' = address g \<and>
    (publishing (snd l') \<longrightarrow> (\<exists>k a. snd l = Resolved k a \<and> snd l' = Swapping k a \<and> a \<noteq> address g))"
  using assms
  by cases (auto simp: put_arc_config pool_acquire_facts guard_drop_facts release_permit_def elim: use_connection_ends)

definition exclusive :: "(router_call \<times> sentinel_stage) list \<Rightarrow> bool" where
  "exclusive ts \<longleftrightarrow> (\<forall>i<length ts. \<forall>j<length ts. publishing (snd (ts ! i)) \<longrightarrow> publishing (snd (ts ! j)) \<longrightarrow> i = j)"

text \<open>The runs in which at most one task publishes at a time, as a lock around the three steps would give.\<close>

inductive locked_reach :: "crates \<Rightarrow> SentinelRouter \<Rightarrow> (router_call \<times> sentinel_stage) list \<times> shared_sentinel \<Rightarrow> bool" for C R where
  start: "locked_reach C R ([], sentinel_shared R)"
| step: "locked_reach C R s \<Longrightarrow> task_step (sentinel_move C R) sentinel_call s t \<Longrightarrow> exclusive (fst t) \<Longrightarrow> locked_reach C R t"

definition agrees :: "SentinelRouter \<Rightarrow> (router_call \<times> sentinel_stage) list \<Rightarrow> shared_sentinel \<Rightarrow> bool" where
  "agrees R ts g \<longleftrightarrow>
     (\<forall>l\<in>set ts. \<forall>k a. snd l = Renaming k a \<longrightarrow> current_config g = master_config R a) \<and>
     ((\<forall>l\<in>set ts. \<forall>k a. snd l \<noteq> Renaming k a) \<longrightarrow> current_config g = master_config R (address g))"

lemma locked_step_agrees:
  assumes "agrees R ts g" "exclusive ts" and "i < length ts" "sentinel_move C R (ts ! i) g l g'"
  shows "agrees R (ts[i := l]) g'"
proof (cases "publishing (snd (ts ! i))")
  case False
  note q = quiet_move [OF assms(4) False]
  have "snd l \<noteq> Renaming k a" "snd (ts ! i) \<noteq> Renaming k a" for k a using q False by auto
  then have "(\<exists>x\<in>set (ts[i := l]). snd x = Renaming k a) \<longleftrightarrow> (\<exists>x\<in>set ts. snd x = Renaming k a)" for k a
    using ex_task_update [OF assms(3), of "\<lambda>x. snd x = Renaming k a"] by blast
  with q assms(1) show ?thesis unfolding agrees_def by metis
next
  case True
  with assms(2,3) have others: "\<not> publishing (snd (ts ! j))" if "j < length ts" "j \<noteq> i" for j
    using that by (auto simp: exclusive_def)
  have no: "snd x \<noteq> Renaming k a" if "x \<in> set (ts[i := l])" "x \<noteq> l" for x k a
    using that others assms(3) by (auto simp: in_set_conv_nth nth_list_update split: if_splits) (metis publishing.simps(2))
  have l: "l \<in> set (ts[i := l])" using assms(3) by (simp add: set_update_memI)
  from assms(4) True show ?thesis
  proof cases
    case (Swap call k a)
    then have "current_config g' = master_config R a" by (simp add: current_config_def master_config_def)
    with no l Swap show ?thesis unfolding agrees_def by (metis sentinel_stage.inject(4) snd_conv)
  next
    case (Rename call k a)
    have "ts ! i \<in> set ts" using assms(3) by simp
    with Rename assms(1) have "current_config g = master_config R a" unfolding agrees_def by (metis snd_conv)
    with Rename have "current_config g' = master_config R (address g')" by (simp add: current_config_def)
    moreover have "snd x \<noteq> Renaming k' a'" if "x \<in> set (ts[i := l])" for x k' a' using no that Rename by (cases "x = l") auto
    ultimately show ?thesis by (simp add: agrees_def)
  qed auto
qed

section \<open>A call alone\<close>

text \<open>The state of the sequential model, seen in the shared one.\<close>

definition represents :: "shared_sentinel \<Rightarrow> SentinelRouter \<Rightarrow> bool" where
  "represents g s \<longleftrightarrow> pool_at g (current g) = Some (master_pool s) \<and> address g = master_addr s"

definition same_router :: "SentinelRouter \<Rightarrow> SentinelRouter \<Rightarrow> bool" where
  "same_router R s \<longleftrightarrow> sentinels s = sentinels R \<and> master_name s = master_name R \<and>
     sentinel_config s = sentinel_config R \<and> retry_count s = retry_count R"

lemma represents_put:
  "represents g s \<Longrightarrow> represents (put_arc (current g) pool g) (s\<lparr>calls := envs, master_pool := pool\<rparr>)"
  by (auto simp: represents_def pool_at_put_arc)

lemma put_arc_put_arc [simp]: "put_arc p a (put_arc p b g) = put_arc p a g"
  by (simp add: put_arc_def)

text \<open>Taking the connection, using it and giving it back.\<close>

lemma with_guard_solo:
  assumes "with_guard C env body pool = Some (r, pool')" and "pool_at g (current g) = Some pool" "r \<noteq> Panic"
    and "\<And>conn x conn'. body conn = Some (x, conn') \<Longrightarrow> x \<noteq> Panic \<Longrightarrow>
      \<exists>stage. use_connection C call k conn = Some (Ok stage, conn') \<and> ends x stage"
    and "\<And>e. ends (Err e) (give_up call k e)"
  shows "\<exists>stage. solo (sentinel_move C R) ((call, Cloning k), g) ((call, stage), put_arc (current g) pool' g) \<and> ends r stage"
proof -
  let ?p = "current g" and ?m = "sentinel_move C R"
  note wait = sentinel_move.Clone [of C R call k g]
  have talk: "\<exists>stage. solo ?m ((call, Holding k ?p conn), put_arc ?p pool1 g) ((call, stage), put_arc ?p pool' g) \<and> ends r stage"
    if b: "body conn = Some (r, conn')" "pool' = guard_drop (at_drop env) (Some conn') pool1" for conn conn' pool1
  proof -
    obtain stage where "use_connection C call k conn = Some (Ok stage, conn')" "ends r stage"
      using assms(4) [OF b(1) assms(3)] by blast
    moreover have "pool_at (put_arc ?p pool1 g) ?p = Some pool1" using assms(2) by (simp add: pool_at_put_arc)
    ultimately show ?thesis using sentinel_move.Talk [of "put_arc ?p pool1 g" ?p pool1 C call k conn stage conn' R "at_drop env"] b(2)
      by (auto intro: solo_step)
  qed
  from assms(1) obtain o1 pool1 where acq: "pool_acquire (at_get env) pool = Some (o1, pool1)"
    by (auto simp: with_guard_def pool_get_def split: option.splits)
  show ?thesis
  proof (cases o1)
    case (Some conn)
    with assms(1) acq obtain conn' where "body conn = Some (r, conn')" "pool' = guard_drop (at_drop env) (Some conn') pool1"
      by (auto simp: with_guard_def pool_get_def split: option.splits)
    from talk [OF this] Some acq show ?thesis
      by (metis solo_first sentinel_move.Reuse [OF assms(2)] wait)
  next
    case None
    have pool1: "pool_at (put_arc ?p pool1 g) ?p = Some pool1" using assms(2) by (simp add: pool_at_put_arc)
    have open': "solo ?m ((call, Cloning k), g) ((call, Opening k ?p), put_arc ?p pool1 g)"
      using None acq by (metis solo_first solo_step sentinel_move.Dial [OF assms(2)] wait)
    from assms(1,3) acq None consider
        conn conn' where "create_connection C (dialing env) (pool_config pool1) = Some (Ok conn)"
          "body conn = Some (r, conn')" "pool' = guard_drop (at_drop env) (Some conn') pool1"
      | e where "create_connection C (dialing env) (pool_config pool1) = Some (Err e)" "r = Err e" "pool' = release_permit pool1"
      by (auto simp: with_guard_def pool_get_def split: option.splits result.splits)
    then show ?thesis
    proof cases
      case 1
      from talk [OF 1(2,3)] solo_step [of ?m, OF sentinel_move.Connected [OF pool1 1(1)]] open' show ?thesis
        by (metis solo_trans)
    next
      case 2
      from solo_step [of ?m, OF sentinel_move.Refused [OF pool1 2(1)]] open' assms(5) 2 show ?thesis
        by (metis solo_trans put_arc_put_arc)
    qed
  qed
qed

lemma converse_not_Err: "converse C args conn \<noteq> Some (Err e, conn')"
proof -
  have "judge_reply r \<noteq> Err e" for r by (cases r) (simp_all add: judge_reply_def split: RespValue.split)
  then show ?thesis by (auto simp: converse_def split: option.splits result.splits)
qed

lemma attempt_solo:
  assumes "attempt C args s = Some (Ok a, s')" and "represents g s"
  shows "\<exists>g'. solo (sentinel_move C R) ((Execute args, Cloning k), g) ((Execute args, command_end k a), g') \<and> represents g' s'"
proof -
  obtain env envs r pool' where w: "with_guard C env (converse C args) (master_pool s) = Some (r, pool')"
    "(case r of Err e \<Rightarrow> Ok (Retry e) | _ \<Rightarrow> r) = Ok a" "s' = s\<lparr>calls := envs, master_pool := pool'\<rparr>"
    using assms(1) by (auto simp: attempt_def split: option.splits list.splits)
  let ?ends = "\<lambda>r stage. (case r of Err e \<Rightarrow> stage = give_up (Execute args) k e | Ok a \<Rightarrow> stage = command_end k a | Panic \<Rightarrow> False)"
  have "\<exists>stage. solo (sentinel_move C R) ((Execute args, Cloning k), g) ((Execute args, stage), put_arc (current g) pool' g) \<and> ?ends r stage"
  proof (rule with_guard_solo [OF w(1)])
    show "pool_at g (current g) = Some (master_pool s)" using assms(2) by (simp add: represents_def)
    show "r \<noteq> Panic" using w(2) by auto
    fix conn x conn' assume c: "converse C args conn = Some (x, conn')" "x \<noteq> Panic"
    have "x \<noteq> Err e" for e using c(1) converse_not_Err by blast
    with c show "\<exists>stage. use_connection C (Execute args) k conn = Some (Ok stage, conn') \<and> ?ends x stage"
      by (cases x) auto
  qed simp
  moreover have "stage = command_end k a" if "?ends r stage" for stage using that w(2) by (cases r) auto
  ultimately show ?thesis using represents_put [OF assms(2)] w(3) by blast
qed

lemma failover_solo:
  assumes "failover C s = Some (r, s')" and "represents g s" "same_router R s" "0 < k" "k \<le> retry_count R"
  shows "r = Ok () \<Longrightarrow> \<exists>g'. solo (sentinel_move C R) ((call, Attempt k err), g) ((call, Cloning k), g') \<and> represents g' s'"
    and "r = Err e \<Longrightarrow> solo (sentinel_move C R) ((call, Attempt k err), g) ((call, Attempt (Suc k) (Some e)), g) \<and> represents g s'"
    and "same_router R s'"
proof -
  let ?m = "sentinel_move C R"
  note step1 = solo_first [where move = ?m]
  show "same_router R s'"
    using assms(1,3) by (auto simp: failover_def same_router_def split: option.splits result.splits if_splits)
  obtain ra ds where res: "resolve_master C (sentinels R) (master_name R) (sentinel_config R) (dials s) = Some (ra, ds)"
    using assms(1,3) by (auto simp: failover_def same_router_def split: option.splits)
  {
    assume "r = Err e"
    with assms(1,3) res have "ra = Err e" "s' = s\<lparr>dials := ds\<rparr>"
      by (auto simp: failover_def same_router_def split: result.splits if_splits)
    with sentinel_move.Unresolved [OF assms(4,5)] res assms(2)
    show "solo ?m ((call, Attempt k err), g) ((call, Attempt (Suc k) (Some e)), g) \<and> represents g s'"
      by (auto simp: represents_def intro: solo_step)
  next
    assume "r = Ok ()"
    with assms(1,3) res obtain a where a: "ra = Ok a"
      "s' = (if a \<noteq> master_addr s then s\<lparr>dials := ds, master_pool := create_master_pool a (sentinel_config s), master_addr := a\<rparr>
             else s\<lparr>dials := ds\<rparr>)"
      by (auto simp: failover_def same_router_def split: result.splits if_splits)
    with res have resolve: "?m (call, Attempt k err) g (call, Resolved k a) g"
      by (intro sentinel_move.Resolve [OF assms(4,5)]) simp
    have addr: "address g = master_addr s" using assms(2) by (simp add: represents_def)
    show "\<exists>g'. solo ?m ((call, Attempt k err), g) ((call, Cloning k), g') \<and> represents g' s'"
    proof (cases "a = master_addr s")
      case True
      then have "solo ?m ((call, Attempt k err), g) ((call, Cloning k), g)"
        using step1 [OF resolve] solo_step [where move = ?m, OF sentinel_move.Same [of a g]] addr by simp
      moreover have "represents g s'" using a True assms(2) by (simp add: represents_def)
      ultimately show ?thesis by blast
    next
      case False
      let ?g = "g\<lparr>arcs := arcs g @ [create_master_pool a (sentinel_config R)], current := length (arcs g)\<rparr>"
      have "solo ?m ((call, Attempt k err), g) ((call, Cloning k), ?g\<lparr>address := a\<rparr>)"
        using step1 [OF resolve] step1 [OF sentinel_move.Differs [of a g]] step1 [OF sentinel_move.Swap]
          solo_step [where move = ?m, OF sentinel_move.Rename] addr False by simp
      moreover have "represents (?g\<lparr>address := a\<rparr>) s'"
        using a False assms(3) by (simp add: represents_def pool_at_snoc same_router_def)
      ultimately show ?thesis by blast
    qed
  }
qed

lemma retry_loop_solo:
  assumes "retry_loop C args [k..<Suc (retry_count R)] err s = Some (r, s')" and "r \<noteq> Panic"
    and "represents g s" "same_router R s" "k \<le> Suc (retry_count R)"
  shows "\<exists>g'. solo (sentinel_move C R) ((Execute args, Attempt k err), g) ((Execute args, Finished (Reply r)), g') \<and> represents g' s'"
  using assms
proof (induction "Suc (retry_count R) - k" arbitrary: k err s g)
  case 0
  then have "k = Suc (retry_count R)" by simp
  with 0 sentinel_move.Exhausted [of R k C "Execute args" err g] show ?case by (auto intro: solo_step)
next
  case (Suc n)
  let ?m = "sentinel_move C R" and ?c = "Execute args"
  have k: "k \<le> retry_count R" and n: "n = Suc (retry_count R) - Suc k" using Suc.hyps(2) by auto
  then have upt: "[k..<Suc (retry_count R)] = k # [Suc k..<Suc (retry_count R)]" by (simp add: upt_rec)
  note IH = Suc.hyps(1) [OF n]
  obtain f s1 where f: "(if 0 < k then failover C s else Some (Ok (), s)) = Some (f, s1)"
    using Suc.prems(1) unfolding upt by (auto split: option.splits if_splits)
  have same: "same_router R s1"
    using f Suc.prems(4) failover_solo(3) [OF _ Suc.prems(3,4) _ k] by (auto split: if_splits)
  show ?case
  proof (cases f)
    case (Err e)
    with f have "0 < k" "failover C s = Some (Err e, s1)" by (auto split: if_splits)
    from failover_solo(2) [OF this(2) Suc.prems(3,4) this(1) k, of e ?c err]
    have "solo ?m ((?c, Attempt k err), g) ((?c, Attempt (Suc k) (Some e)), g)" "represents g s1" by simp_all
    moreover have "retry_loop C args [Suc k..<Suc (retry_count R)] (Some e) s1 = Some (r, s')"
      using Suc.prems(1) f Err unfolding upt by simp
    ultimately show ?thesis using IH [of "Some e" s1 g] Suc.prems(2) same k by (metis Suc_le_mono solo_trans)
  next
    case Panic
    with Suc.prems(1,2) f show ?thesis unfolding upt by simp
  next
    case (Ok u)
    have "\<exists>g1. solo ?m ((?c, Attempt k err), g) ((?c, Cloning k), g1) \<and> represents g1 s1"
    proof (cases "0 < k")
      case True
      with f Ok failover_solo(1) [OF _ Suc.prems(3,4) True k] show ?thesis by simp
    next
      case False
      with f Suc.prems(3) sentinel_move.First [of C R ?c err g] show ?thesis by (auto intro: solo_step)
    qed
    then obtain g1 where g1: "solo ?m ((?c, Attempt k err), g) ((?c, Cloning k), g1)" "represents g1 s1" by blast
    obtain a s2 where a: "attempt C args s1 = Some (Ok a, s2)"
      and next': "(case a of Return r' \<Rightarrow> r = r' \<and> s' = s2
        | Retry e \<Rightarrow> retry_loop C args [Suc k..<Suc (retry_count R)] (Some e) s2 = Some (r, s'))"
      using Suc.prems(1,2) f Ok attempt_calls [of C args s1] unfolding upt
      by (auto split: option.splits result.splits attempt_end.splits)
    from attempt_solo [OF a g1(2)] g1(1) obtain g2 where
      g2: "solo ?m ((?c, Attempt k err), g) ((?c, command_end k a), g2)" "represents g2 s2" by (metis solo_trans)
    have "same_router R s2"
      using a same by (auto simp: attempt_def same_router_def split: option.splits list.splits)
    with g2 next' IH [of _ s2 g2] Suc.prems(2) k show ?thesis
      by (cases a) (auto dest: solo_trans, metis Suc_le_mono solo_trans)
  qed
qed

lemma pipeline_solo:
  assumes "sentinel_pipeline C cmds s = Some (r, s')" and "r \<noteq> Panic" "represents g s"
  shows "\<exists>g'. solo (sentinel_move C R) ((Pipeline cmds, Cloning k), g) ((Pipeline cmds, Finished (Replies r)), g') \<and> represents g' s'"
proof -
  let ?body = "io_bind (send_each C cmds) (\<lambda>_. read_replies (read_response C) cmds [])"
  obtain env envs pool' where w: "with_guard C env ?body (master_pool s) = Some (r, pool')"
    "s' = s\<lparr>calls := envs, master_pool := pool'\<rparr>"
    using assms(1) by (auto simp: sentinel_pipeline_def split: list.splits)
  have "\<exists>stage. solo (sentinel_move C R) ((Pipeline cmds, Cloning k), g) ((Pipeline cmds, stage), put_arc (current g) pool' g) \<and>
      stage = Finished (Replies r)"
  proof (rule with_guard_solo [OF w(1) _ assms(2)])
    show "pool_at g (current g) = Some (master_pool s)" using assms(3) by (simp add: represents_def)
    fix conn x conn' assume c: "?body conn = Some (x, conn')" "x \<noteq> Panic"
    then show "\<exists>stage. use_connection C (Pipeline cmds) k conn = Some (Ok stage, conn') \<and> stage = Finished (Replies x)"
      by (cases x) simp_all
  qed simp
  with represents_put [OF assms(3)] w(2) show ?thesis by blast
qed

section \<open>A race\<close>

text \<open>The sentinels have named no other address than \<open>b\<close> to anyone who still has to act on it.\<close>

definition only_named :: "string \<Rightarrow> (router_call \<times> sentinel_stage) list \<Rightarrow> bool" where
  "only_named b ts \<longleftrightarrow> list_all (\<lambda>l. \<forall>k a. snd l = Resolved k a \<longrightarrow> a = b) ts"

definition settled :: "(router_call \<times> sentinel_stage) list \<Rightarrow> bool" where
  "settled ts \<longleftrightarrow> list_all (\<lambda>l. \<not> publishing (snd l)) ts"

text \<open>While that is so, the router never looks at its pool again.\<close>

lemma settled_step:
  assumes "task_step (sentinel_move C R) sentinel_call (ts, g) (ts', g')" and "settled ts" "only_named (address g) ts"
  shows "settled ts' \<and> address g' = address g \<and> current_config g' = current_config g"
  using assms(1)
proof cases
  case (Move i l)
  then have i: "ts ! i \<in> set ts" by simp
  with assms(2) have q: "\<not> publishing (snd (ts ! i))" by (simp add: settled_def list_all_iff)
  from quiet_move [OF Move(3) q] i assms(3) have "\<not> publishing (snd l)" by (auto simp: only_named_def list_all_iff)
  with quiet_move [OF Move(3) q] assms(2) Move show ?thesis
    using set_update_subset_insert [of ts i l] by (auto simp: settled_def list_all_iff)
next
  case (Arrive l)
  then show ?thesis using assms(2) by (simp add: settled_def sentinel_call_def)
qed

lemma settled_run:
  assumes "(\<lambda>s t. task_step (sentinel_move C R) sentinel_call s t \<and> only_named b (fst t))\<^sup>*\<^sup>* (ts, g) s"
    and "settled ts" "only_named b ts" "address g = b"
  shows "settled (fst s) \<and> only_named b (fst s) \<and> address (snd s) = b \<and> current_config (snd s) = current_config g"
  using assms(1)
proof (induction rule: rtranclp_induct)
  case (step s t)
  then show ?case using settled_step [of C R "fst s" "snd s" "fst t" "snd t"] by auto
qed (use assms in simp)

lemma create_connection_refused:
  "\<not> cfg_tls config \<Longrightarrow> create_connection C (DialFailed io) config = Some (Err (Connection io))"
  "\<exists>e. create_connection C (DialFailed io) config = Some (Err e)"
  by (cases "cfg_tls config";
      simp add: create_connection_def connect_timeout_with_max_buf_def connect_with_max_buf_def Let_def)+

lemma create_master_pool_fresh:
  "idle (create_master_pool a config) = []" "permits (create_master_pool a config) = cfg_pool_size config"
  "cfg_tls (pool_config (create_master_pool a config)) = cfg_tls config"
  by (simp_all add: create_master_pool_def pool_new_def Let_def split: option.split)

text \<open>A first attempt that finds no connection, after which the router is as before.\<close>

lemma first_attempt_fails:
  assumes "pool_at g (current g) = Some pool" "0 < permits pool" "idle pool = []"
  shows "\<exists>e. solo (sentinel_move C R) ((Execute args, Attempt 0 err), g) ((Execute args, Attempt 1 (Some e)), g)"
proof -
  let ?p = "current g" and ?pool = "pool\<lparr>permits := permits pool - 1\<rparr>"
  note first = solo_first [where move = "sentinel_move C R"]
  have acq: "pool_acquire 0 pool = Some (None, ?pool)"
    using assms(2,3) by (simp add: pool_acquire_def take_healthy_connection_def)
  let ?g = "put_arc ?p ?pool g"
  have p: "pool_at ?g ?p = Some ?pool" using assms(1) by (simp add: pool_at_put_arc)
  obtain e where e: "create_connection C (DialFailed (IoError ConnectionRefused [])) (pool_config ?pool) = Some (Err e)"
    using create_connection_refused(2) by blast
  have "put_arc ?p (release_permit ?pool) ?g = g"
    using assms(1,2) by (auto simp: put_arc_def release_permit_def pool_at_def split: if_splits)
  with sentinel_move.Refused [OF p e, of R "Execute args" 0]
  have "solo (sentinel_move C R) ((Execute args, Opening 0 ?p), ?g) ((Execute args, Attempt 1 (Some e)), g)"
    by (simp add: solo_step)
  from first [OF sentinel_move.First first [OF sentinel_move.Clone first [OF sentinel_move.Dial [OF assms(1) acq] this]]]
  show ?thesis by blast
qed

section \<open>Samples\<close>

text \<open>A router on the master \<open>a:1\<close> whose sentinel may name \<open>b:2\<close> or \<open>c:3\<close>.\<close>

definition sample_router :: SentinelRouter where
  "sample_router = sample_sentinel (create_master_pool ''a:1'' default_config) ''a:1''
    [sample_env\<lparr>dialing := DialFailed refused\<rparr>]"

definition master_is_c :: tcp_stream where
  "master_is_c = one_reply (resp_encode (Array [BulkString ''c'', BulkString ''3'']))"

lemma master_is_c_names: "names (documented_crates (\<lambda>_. True)) name default_config hp (Dialed master_is_c) ''c:3''"
proof (rule names_stream [OF documented.crate_env_axioms])
  have u: "utf8_valid ''c''" "utf8_valid ''3''" by code_simp+
  then show "sentinel_reply name (fst hp @ '':'' @ decimal (snd hp)) (Array [BulkString ''c'', BulkString ''3'']) = Found ''c:3''"
    by (simp add: sentinel_reply_def)
  show "parse (documented_crates (\<lambda>_. True)) (concat (map event_data (inbox master_is_c))) =
    Ok (Array [BulkString ''c'', BulkString ''3''], 18)"
    by (simp add: master_is_c_def one_reply_def event_data_def del: resp_encode.simps) code_simp
qed (simp_all add: default_config_def master_is_c_def one_reply_def delivers_def DEFAULT_MAX_BUF_SIZE_def)

lemma sample_resolves:
  "resolve_master (documented_crates (\<lambda>_. True)) (sentinels sample_router) (master_name sample_router)
     (sentinel_config sample_router) [Dialed master_is_b] = Some (Ok ''b:2'', [])"
  "resolve_master (documented_crates (\<lambda>_. True)) (sentinels sample_router) (master_name sample_router)
     (sentinel_config sample_router) [Dialed master_is_c] = Some (Ok ''c:3'', [])"
  by (simp_all add: sample_router_def sample_sentinel_def resolve_master_def resolve_loop_names master_is_b_names
      master_is_c_names del: resolve_loop.simps)

lemma sample_router_simps:
  "cfg_pool_size (sentinel_config sample_router) = 8" "retry_count sample_router = 1" "master_addr sample_router = ''a:1''"
  by (simp_all add: sample_router_def sample_sentinel_def default_config_def)

definition sample_task :: "sentinel_stage \<Rightarrow> router_call \<times> sentinel_stage" where
  "sample_task stage = (Execute [''PING''], stage)"

lemma sample_waits:
  "sentinel_reach C sample_router ([sample_task (Waiting 0 0)], sentinel_shared sample_router)"
proof -
  let ?m = "sentinel_move C sample_router" and ?g = "sentinel_shared sample_router"
  have "task_step ?m sentinel_call ([], ?g) ([sample_task (Attempt 0 None)], ?g)"
    using task_step.Arrive [of sentinel_call "sample_task (Attempt 0 None)" ?m "[]" ?g]
    by (simp add: sentinel_call_def sample_task_def)
  moreover have "solo ?m (sample_task (Attempt 0 None), ?g) (sample_task (Waiting 0 0), ?g)"
    unfolding sample_task_def
    using solo_first [where move = ?m, OF sentinel_move.First] solo_step [where move = ?m, OF sentinel_move.Clone [of C sample_router _ 0 ?g]]
    by (simp add: sentinel_shared_def)
  from solo_runs [OF this, of 0 "[sample_task (Attempt 0 None)]" sentinel_call]
  have "(task_step ?m sentinel_call)\<^sup>*\<^sup>* ([sample_task (Attempt 0 None)], ?g) ([sample_task (Waiting 0 0)], ?g)" by simp
  ultimately show ?thesis
    unfolding sentinel_reach_def by (meson converse_rtranclp_into_rtranclp task_reachable.start task_runs.reachable_run)
qed

section \<open>Properties\<close>

text \<open>
  C13: However the calls on a sentinel router interleave with each other and with failovers that
  replace the pool under them, every pool ever created keeps its books: free permits, guards and
  connecting calls make up the pool size, and idle connections come on top of the used ones
  within it. A guard goes back to the pool it came from, not to the current one.
\<close>

theorem sentinel_tasks_accounted:
  assumes "sentinel_reach C R (ts, g)" and "p < length (arcs g)"
  shows "available (arcs g ! p) + held_at (\<lambda>l. stage_guards (snd l)) ts p + dialling_at (\<lambda>l. stage_dialling (snd l)) ts p =
      cfg_pool_size (sentinel_config R) \<and>
    idle_count (arcs g ! p) + held_at (\<lambda>l. stage_guards (snd l)) ts p + dialling_at (\<lambda>l. stage_dialling (snd l)) ts p
      \<le> cfg_pool_size (sentinel_config R)"
proof -
  have "max_size (arcs g ! p) = cfg_pool_size (sentinel_config R)"
    using sentinel_reach_ok(1) [OF assms(1)] assms(2) by (simp add: arcs_ok_def list_all_length)
  moreover have "pool_at g p = Some (arcs g ! p)" using assms(2) by (simp add: pool_at_def)
  ultimately show ?thesis
    using sentinel_users.pool_accounting [OF assms(1) [unfolded sentinel_reach_def], of p "arcs g ! p"] by simp
qed

theorem sentinel_tasks_accounted_witness:
  "available (arcs (sentinel_shared sample_router) ! 0) + held_at (\<lambda>l. stage_guards (snd l)) [sample_task (Waiting 0 0)] 0 +
     dialling_at (\<lambda>l. stage_dialling (snd l)) [sample_task (Waiting 0 0)] 0 = 8"
  using sentinel_tasks_accounted [OF sample_waits [of "documented_crates (\<lambda>_. True)"], of 0]
  by (simp add: sample_router_simps) (simp add: sentinel_shared_def)

text \<open>
  C14: Calls on a sentinel router never deadlock. When a call waits for a permit, either it can go
  on at once, or another call has a permit of the same pool, and that call is opening or using
  its connection and not waiting for any pool.
\<close>

theorem sentinel_tasks_no_deadlock:
  assumes "sentinel_reach C R (ts, g)" and "(call, Waiting k p) \<in> set ts" and "0 < cfg_pool_size (sentinel_config R)"
  shows "(\<exists>l' g'. sentinel_move C R (call, Waiting k p) g l' g') \<or>
    (\<exists>(call', stage)\<in>set ts. (\<exists>j. stage = Opening j p) \<or> (\<exists>j conn. stage = Holding j p conn))"
proof -
  have p: "p < length (arcs g)" using sentinel_reach_ok(2) [OF assms(1,2)] by (simp add: stage_ok_def)
  then have pool: "pool_at g p = Some (arcs g ! p)" by (simp add: pool_at_def)
  show ?thesis
  proof (cases "available (arcs g ! p) = 0")
    case True
    moreover have "0 < max_size (arcs g ! p)"
      using sentinel_reach_ok(1) [OF assms(1)] p assms(3) by (simp add: arcs_ok_def list_all_length)
    ultimately obtain l where "l \<in> set ts" "p \<in> fst ` set (stage_guards (snd l)) \<or> p \<in> set (stage_dialling (snd l))"
      using sentinel_users.exhausted_pool_in_use [OF assms(1) [unfolded sentinel_reach_def] pool] by blast
    then show ?thesis unfolding permit_stages by (intro disjI2 bexI [of _ l]) (auto split: prod.split)
  next
    case False
    then obtain r pool' where "pool_acquire 0 (arcs g ! p) = Some (r, pool')"
      using get_reuses_freshest [of "arcs g ! p" 0] by (auto simp: available_def)
    then show ?thesis
    proof (cases r)
      case (Some conn)
      with \<open>pool_acquire 0 (arcs g ! p) = Some (r, pool')\<close> sentinel_move.Reuse [OF pool, of 0 conn pool'] show ?thesis by blast
    next
      case None
      with \<open>pool_acquire 0 (arcs g ! p) = Some (r, pool')\<close> sentinel_move.Dial [OF pool, of 0 pool'] show ?thesis by blast
    qed
  qed
qed

theorem sentinel_tasks_no_deadlock_witness:
  "\<exists>l' g'. sentinel_move (documented_crates (\<lambda>_. True)) sample_router (Execute [''PING''], Waiting 0 0)
     (sentinel_shared sample_router) l' g'"
  using sentinel_tasks_no_deadlock [OF sample_waits [of "documented_crates (\<lambda>_. True)"], of "Execute [''PING'']" 0 0]
  by (simp add: sample_router_simps sample_task_def)

text \<open>
  When failovers do not overlap, the router connects to the master it believes in: if at most
  one task at a time is between the comparison of the addresses and the last write of
  \<open>failover\<close>, then, whenever none is, the pool in use was made for the address of the router.
\<close>

lemma serial_failovers_agree:
  assumes "locked_reach C R (ts, g)" and "list_all (\<lambda>l. \<not> publishing (snd l)) ts"
  shows "current_config g = master_config R (address g)"
proof -
  have "agrees R (fst s) (snd s) \<and> exclusive (fst s)" if "locked_reach C R s" for s
    using that
  proof (induction rule: locked_reach.induct)
    case start
    then show ?case
      by (simp add: agrees_def exclusive_def sentinel_shared_def current_config_def master_config_def)
  next
    case (step s t)
    from step(2,3,4) show ?case
    proof cases
      case (Arrive l ts g)
      have "snd l \<noteq> Renaming k a" for k a
        using Arrive(3) by (cases "fst l") (auto simp: sentinel_call_def)
      with Arrive step show ?thesis by (auto simp: agrees_def)
    qed (use step locked_step_agrees in auto)
  qed
  from this [OF assms(1)] assms(2) show ?thesis by (auto simp: agrees_def list_all_iff)
qed

lemma serial_failovers_agree_witness:
  "current_config (sentinel_shared sample_router) = master_config sample_router ''a:1''"
  using serial_failovers_agree [OF locked_reach.start [of "documented_crates (\<lambda>_. True)" sample_router]]
  by (simp add: sentinel_shared_def sample_router_simps)

text \<open>
  C15: Without such a lock, two failovers at the same time can leave the router at odds with
  itself for good. Two calls fail, one learns the new master \<open>b\<close> from the sentinels, the other
  one an address \<open>c\<close>; both see that the router has neither. If the second overtakes the first
  between its two writes, the address is \<open>b\<close> and the pool is one for \<open>c\<close>. From then on, as long as
  the sentinels name \<open>b\<close>, no failover replaces the pool: every call goes to \<open>c\<close>.
\<close>

theorem failover_race:
  assumes "resolve_master C (sentinels R) (master_name R) (sentinel_config R) ds = Some (Ok b, ds')"
    and "resolve_master C (sentinels R) (master_name R) (sentinel_config R) es = Some (Ok c, es')"
    and "master_addr R \<notin> {b, c}" "0 < retry_count R" "0 < cfg_pool_size (sentinel_config R)"
  shows "\<exists>ts g. sentinel_reach C R (ts, g) \<and> settled ts \<and> address g = b \<and> current_config g = master_config R c \<and>
    (\<forall>s. (\<lambda>s t. task_step (sentinel_move C R) sentinel_call s t \<and> only_named b (fst t))\<^sup>*\<^sup>* (ts, g) s \<longrightarrow>
      address (snd s) = b \<and> current_config (snd s) = master_config R c)"
proof -
  let ?m = "sentinel_move C R" and ?g0 = "sentinel_shared R" and ?x = "Execute []"
  let ?step = "task_step ?m sentinel_call"
  define g where "g = ?g0\<lparr>arcs := arcs ?g0 @ [create_master_pool b (sentinel_config R), create_master_pool c (sentinel_config R)],
    current := 2, address := b\<rparr>"
  have arrive: "?step\<^sup>*\<^sup>* ([], ?g0) ([(?x, Attempt 0 None), (?x, Attempt 0 None)], ?g0)"
    using task_step.Arrive [of sentinel_call "(?x, Attempt 0 None)" ?m "[]" ?g0]
      task_step.Arrive [of sentinel_call "(?x, Attempt 0 None)" ?m "[(?x, Attempt 0 None)]" ?g0]
    by (auto simp: sentinel_call_def)
  have left: "?step\<^sup>*\<^sup>* ([l, y], h) ([l', y], h')" if "solo ?m (l, h) (l', h')" for l l' y h h'
    using solo_runs [OF that, of 0 "[l, y]" sentinel_call] by simp
  have right: "?step\<^sup>*\<^sup>* ([y, l], h) ([y, l'], h')" if "solo ?m (l, h) (l', h')" for l l' y h h'
    using solo_runs [OF that, of 1 "[y, l]" sentinel_call] by simp
  obtain e where fails: "solo ?m ((?x, Attempt 0 None), ?g0) ((?x, Attempt 1 (Some e)), ?g0)"
    using first_attempt_fails [of ?g0 "create_master_pool (master_addr R) (sentinel_config R)" C R "[]" None] assms(5)
    by (auto simp: sentinel_shared_def pool_at_def create_master_pool_fresh)
  have sees: "solo ?m ((?x, Attempt 1 (Some e)), ?g0) ((?x, Swapping 1 a), ?g0)"
    if "resolve_master C (sentinels R) (master_name R) (sentinel_config R) zs = Some (Ok a, zs')" "a \<noteq> master_addr R" for a zs zs'
    using solo_first [where move = ?m, OF sentinel_move.Resolve [of 1 R C zs a zs']] that assms(4)
      solo_step [where move = ?m, OF sentinel_move.Differs [of a ?g0]] by (simp add: sentinel_shared_def)
  note swap = solo_step [where move = ?m, OF sentinel_move.Swap] and rename = solo_step [where move = ?m, OF sentinel_move.Rename]
  have "?step\<^sup>*\<^sup>* ([], ?g0) ([(?x, Cloning 1), (?x, Cloning 1)], g)"
  proof -
    note arrive
    also note left [OF fails] also note right [OF fails]
    also note left [OF sees [OF assms(1)]] also note right [OF sees [OF assms(2)]]
    also note left [OF swap] also note right [OF swap] also note right [OF rename] also note left [OF rename]
    finally show ?thesis using assms(3) by (auto simp: g_def sentinel_shared_def numeral_2_eq_2)
  qed
  then have "sentinel_reach C R ([(?x, Cloning 1), (?x, Cloning 1)], g)"
    unfolding sentinel_reach_def by (rule task_runs.reachable_run) (rule task_reachable.start)
  moreover have "current_config g = master_config R c" "address g = b"
    by (simp_all add: g_def current_config_def master_config_def sentinel_shared_def)
  moreover have "settled [(?x, Cloning 1), (?x, Cloning 1)]" "only_named b [(?x, Cloning 1), (?x, Cloning 1)]"
    by (simp_all add: settled_def only_named_def)
  ultimately show ?thesis
    by (intro exI [of _ "[(?x, Cloning 1), (?x, Cloning 1)]"] exI [of _ g]) (auto dest: settled_run)
qed

theorem failover_race_witness:
  "\<exists>ts g. sentinel_reach (documented_crates (\<lambda>_. True)) sample_router (ts, g) \<and> address g = ''b:2'' \<and>
     current_config g = master_config sample_router ''c:3''"
  using failover_race [OF sample_resolves] by (auto simp: sample_router_simps)

text \<open>
  C12: The sequential model of the router is the concurrent one with a single call: whenever
  \<open>execute_with_retry\<close> or the pipeline returns, the machine alone reaches that result, and the pool
  and the address it leaves are the same.
\<close>

theorem sentinel_call_alone:
  assumes "represents g s"
  shows "(\<forall>args r s'. execute_with_retry C args s = Some (r, s') \<and> r \<noteq> Panic \<longrightarrow>
      (\<exists>g'. solo (sentinel_move C s) ((Execute args, sentinel_begin (Execute args)), g)
        ((Execute args, Finished (Reply r)), g') \<and> represents g' s')) \<and>
    (\<forall>cmds rs s'. sentinel_pipeline C cmds s = Some (rs, s') \<and> rs \<noteq> Panic \<longrightarrow>
      (\<exists>g'. solo (sentinel_move C s) ((Pipeline cmds, sentinel_begin (Pipeline cmds)), g)
        ((Pipeline cmds, Finished (Replies rs)), g') \<and> represents g' s'))"
  using retry_loop_solo [of C _ 0 s None s _ _ g] pipeline_solo [of C _ s _ _ g s 0] assms
  by (simp add: execute_with_retry_def same_router_def del: upt_Suc)

theorem sentinel_call_alone_witness:
  "\<exists>g'. solo (sentinel_move (documented_crates (\<lambda>_. True)) sample_router) ((Pipeline [], Cloning 0), sentinel_shared sample_router)
     ((Pipeline [], Finished (Replies (Err (Connection refused)))), g')"
proof -
  let ?C = "documented_crates (\<lambda>_. True)" and ?s = sample_router
  have "represents (sentinel_shared ?s) ?s"
    by (simp add: represents_def sentinel_shared_def pool_at_def sample_router_def sample_sentinel_def)
  moreover have "cfg_pool_size default_config = 8" "\<not> cfg_tls default_config" by (simp_all add: default_config_def)
  then have "\<exists>s'. sentinel_pipeline ?C [] ?s = Some (Err (Connection refused), s')"
    by (simp add: sentinel_pipeline_def with_guard_def pool_get_def pool_acquire_def take_healthy_connection_def
        sample_router_def sample_sentinel_def create_master_pool_fresh create_connection_refused(1))
  ultimately show ?thesis using sentinel_call_alone [of "sentinel_shared ?s" ?s ?C] by fastforce
qed

end
