(* ===== verification/Cluster_Tasks.thy ===== *)
theory Cluster_Tasks
  imports Router Tasks
begin

text \<open>
  Many calls at once on one cluster router (\<open>src/src/router/cluster.rs\<close>), together with its
  background refresh. The shared state is the record of the sequential model, of which the
  tasks use the table of pools and the slot map; its script of the network is not used here:
  every dialling may give any connection with any script.

  A task gives way wherever the code awaits, and between two accesses to a lock. \<open>get_pool\<close> is
  one step: it tests again under the write lock what it has seen under the read lock, so it
  acts as if it had only taken the second one.
\<close>

section \<open>Connections\<close>

text \<open>
  The \<open>Arc\<close> that \<open>get_pool\<close> returns: a pool of the table, or one of its own for an address without
  a colon.
\<close>

datatype arc = Shared string | Own ConnectionPool

fun arc_pool :: "arc \<Rightarrow> ClusterRouter \<Rightarrow> ConnectionPool option" where
  "arc_pool (Shared a) s = map_of (nodes s) a"
| "arc_pool (Own pool) s = Some pool"

fun arc_own :: "ConnectionPool \<Rightarrow> arc \<Rightarrow> arc" where
  "arc_own pool (Shared a) = Shared a"
| "arc_own pool (Own _) = Own pool"

fun arc_put :: "ConnectionPool \<Rightarrow> arc \<Rightarrow> ClusterRouter \<Rightarrow> ClusterRouter" where
  "arc_put pool (Shared a) s = put_pool a pool s"
| "arc_put pool (Own _) s = s"

definition pool_arc :: "string \<Rightarrow> ClusterRouter \<Rightarrow> arc" where
  "pool_arc addr s =
     (let (pool, s') = get_pool addr s in
      if map_of (nodes s') addr = None then Own pool else Shared addr)"

text \<open>\<open>self.get_pool(addr)\<close> and \<open>pool.get().await\<close> up to the guard.\<close>

datatype lease = Want string | Wait arc | Open arc | Hold arc RedisConnection

inductive lease_step :: "crates \<Rightarrow> lease \<Rightarrow> ClusterRouter \<Rightarrow> lease \<Rightarrow> ClusterRouter \<Rightarrow> bool" for C where
  Get: "lease_step C (Want addr) s (Wait (pool_arc addr s)) (snd (get_pool addr s))"
| Reuse: "arc_pool p s = Some pool \<Longrightarrow> pool_acquire now pool = Some (Some conn, pool') \<Longrightarrow>
    lease_step C (Wait p) s (Hold (arc_own pool' p) conn) (arc_put pool' p s)"
| Dial: "arc_pool p s = Some pool \<Longrightarrow> pool_acquire now pool = Some (None, pool') \<Longrightarrow>
    lease_step C (Wait p) s (Open (arc_own pool' p)) (arc_put pool' p s)"
| Connected: "arc_pool p s = Some pool \<Longrightarrow> create_connection C d (pool_config pool) = Some (Ok conn) \<Longrightarrow>
    lease_step C (Open p) s (Hold p conn) s"

text \<open>Connecting fails with an error, and the permit goes back.\<close>

inductive lease_fails :: "crates \<Rightarrow> lease \<Rightarrow> ClusterRouter \<Rightarrow> PyrsedisError \<Rightarrow> ClusterRouter \<Rightarrow> bool" for C where
  Refused: "arc_pool p s = Some pool \<Longrightarrow> create_connection C d (pool_config pool) = Some (Err e) \<Longrightarrow>
    lease_fails C (Open p) s e (arc_put (release_permit pool) p s)"

inductive lease_drop :: "arc \<Rightarrow> RedisConnection \<Rightarrow> ClusterRouter \<Rightarrow> ClusterRouter \<Rightarrow> bool" where
  Drop: "arc_pool p s = Some pool \<Longrightarrow> lease_drop p conn s (arc_put (guard_drop now (Some conn) pool) p s)"

section \<open>One command and its redirects\<close>

text \<open>
  \<open>execute_on\<close>: a command is sent to a node with a number of redirects left, or after ASK to the
  node named there. \<open>follow\<close> says what a reply leads to.
\<close>

datatype errand = Direct nat string | Asked string

fun errand_addr :: "errand \<Rightarrow> string" where
  "errand_addr (Direct n addr) = addr"
| "errand_addr (Asked addr) = addr"

datatype onward = Answer "RespValue res" | Onward errand

fun exchange :: "crates \<Rightarrow> errand \<Rightarrow> string list \<Rightarrow> RespValue conn_io" where
  "exchange C (Direct n addr) args = io_bind (send_raw (encode_command_str C args)) (\<lambda>_. read_response C)"
| "exchange C (Asked addr) args =
     io_bind (send_raw (encode_command_str C [''ASKING''])) (\<lambda>_.
     io_bind (read_response C) (\<lambda>_.
     io_bind (send_raw (encode_command_str C args)) (\<lambda>_.
     read_response C)))"

fun follow :: "errand \<Rightarrow> RespValue \<Rightarrow> ClusterRouter \<Rightarrow> onward \<times> ClusterRouter" where
  "follow (Direct n addr) result s =
     (case reply_kind result of
       Some (Moved slot new_addr, msg) \<Rightarrow>
         (case n of
            0 \<Rightarrow> (Answer (Err (Cluster ''too many MOVED redirects'')), s)
          | Suc n \<Rightarrow> (Onward (Direct n new_addr), update_map slot new_addr s))
     | Some (Ask slot new_addr, msg) \<Rightarrow>
         (case n of
            0 \<Rightarrow> (Answer (Err (Cluster ''too many ASK redirects'')), s)
          | Suc n \<Rightarrow> (Onward (Asked new_addr), s))
     | Some (ClusterDown, msg) \<Rightarrow> (Answer (Err (Cluster msg)), s)
     | Some (TryAgain, msg) \<Rightarrow>
         (case n of
            0 \<Rightarrow> (Answer (Err (redis_error msg)), s)
          | Suc n \<Rightarrow> (Onward (Direct n addr), s))
     | _ \<Rightarrow> (Answer (Ok result), s))"
| "follow (Asked addr) result s = (Answer (Ok result), s)"

text \<open>The guard is dropped before the next node is asked for a connection.\<close>

datatype run = Running errand lease | Closing arc RedisConnection onward | Ran "RespValue res"

definition run_errand :: "errand \<Rightarrow> run" where
  "run_errand e = Running e (Want (errand_addr e))"

fun run_onward :: "onward \<Rightarrow> run" where
  "run_onward (Answer r) = Ran r"
| "run_onward (Onward e) = run_errand e"

inductive run_step :: "crates \<Rightarrow> string list \<Rightarrow> run \<Rightarrow> ClusterRouter \<Rightarrow> run \<Rightarrow> ClusterRouter \<Rightarrow> bool" for C args where
  Lease: "lease_step C l s l' s' \<Longrightarrow> run_step C args (Running e l) s (Running e l') s'"
| NoLease: "lease_fails C l s err s' \<Longrightarrow> run_step C args (Running e l) s (Ran (Err err)) s'"
| Reply: "exchange C e args conn = Some (Ok result, conn') \<Longrightarrow> follow e result s = (onward, s') \<Longrightarrow>
    run_step C args (Running e (Hold p conn)) s (Closing p conn' onward) s'"
| Broken: "exchange C e args conn = Some (Err err, conn') \<Longrightarrow>
    run_step C args (Running e (Hold p conn)) s (Closing p conn' (Answer (Err err))) s"
| Close: "lease_drop p conn s s' \<Longrightarrow> run_step C args (Closing p conn onward) s (run_onward onward) s'"

section \<open>Calls\<close>

datatype command_stage = Routing | Commanding run | Replied "RespValue res"

text \<open>
  A pipeline reads the slot map anew for each command it groups; then it takes the groups in any
  order. While a redirected command runs, the connection of its group stays checked out.
\<close>

type_synonym groups = "(string \<times> command_group) list"

datatype pipe_stage =
    Grouping nat "string list list" groups
  | Choosing groups replies
  | Leasing command_group groups replies lease
  | Reading command_group groups replies arc RedisConnection
  | Redirected nat "string list" command_group groups replies arc RedisConnection run
  | GroupDone "replies res" groups arc RedisConnection
  | Returned "RespValue list res"

text \<open>The background task: it has fetched a topology, or has made its pools but not yet installed it.\<close>

datatype refresh_stage = Sleeping | Fetched "SlotRange list" | Ensured "SlotRange list"

datatype cluster_task = Command "string list" command_stage | Pipe pipe_stage | Refresh refresh_stage

definition redirect_of :: "RespValue \<Rightarrow> ClusterRouter \<Rightarrow> (errand \<times> ClusterRouter) option" where
  "redirect_of resp s =
     (case reply_kind resp of
       Some (Moved slot new_addr, msg) \<Rightarrow> Some (Direct (MAX_REDIRECTS - 1) new_addr, update_map slot new_addr s)
     | Some (Ask slot new_addr, msg) \<Rightarrow> Some (Asked new_addr, s)
     | _ \<Rightarrow> None)"

inductive command_move :: "crates \<Rightarrow> string list \<Rightarrow> command_stage \<Rightarrow> ClusterRouter \<Rightarrow> command_stage \<Rightarrow> ClusterRouter \<Rightarrow> bool"
  for C args where
  Empty: "args = [] \<Longrightarrow> command_move C args Routing s (Replied (Err (Protocol ''empty command''))) s"
| NoNode: "args \<noteq> [] \<Longrightarrow> target_addr s args = [] \<Longrightarrow>
    command_move C args Routing s (Replied (Err (Cluster ''no node available for command''))) s"
| Route: "args \<noteq> [] \<Longrightarrow> target_addr s args \<noteq> [] \<Longrightarrow>
    command_move C args Routing s (Commanding (run_errand (Direct MAX_REDIRECTS (target_addr s args)))) s"
| Run: "run_step C args r s r' s' \<Longrightarrow> command_move C args (Commanding r) s (Commanding r') s'"
| Finish: "command_move C args (Commanding (Ran r)) s (Replied r) s"

inductive pipe_move :: "crates \<Rightarrow> pipe_stage \<Rightarrow> ClusterRouter \<Rightarrow> pipe_stage \<Rightarrow> ClusterRouter \<Rightarrow> bool" for C where
  Group: "pipe_move C (Grouping idx (cmd_args # commands) groups) s
    (Grouping (idx + 1) commands (push_group (target_addr s cmd_args) (idx, cmd_args) groups)) s"
| Grouped: "pipe_move C (Grouping idx [] groups) s (Choosing groups (replicate idx None)) s"
| Unowned: "pipe_move C (Choosing (before @ ([], grp) # after) results) s
    (Choosing (before @ after) (foldl (\<lambda>rs (idx, _). rs[idx := Some (Error ''no node for slot'')]) results grp)) s"
| Choose: "addr \<noteq> [] \<Longrightarrow> pipe_move C (Choosing (before @ (addr, grp) # after) results) s
    (Leasing grp (before @ after) results (Want addr)) s"
| Lease: "lease_step C l s l' s' \<Longrightarrow> pipe_move C (Leasing grp groups results l) s (Leasing grp groups results l') s'"
| NoLease: "lease_fails C l s err s' \<Longrightarrow> pipe_move C (Leasing grp groups results l) s (Returned (Err err)) s'"
| Send: "send_group C grp conn = Some (Ok u, conn') \<Longrightarrow>
    pipe_move C (Leasing grp groups results (Hold p conn)) s (Reading grp groups results p conn') s"
| SendFails: "send_group C grp conn = Some (Err err, conn') \<Longrightarrow>
    pipe_move C (Leasing grp groups results (Hold p conn)) s (GroupDone (Err err) groups p conn') s"
| Read: "read_response C conn = Some (Ok resp, conn') \<Longrightarrow> redirect_of resp s = None \<Longrightarrow>
    pipe_move C (Reading ((idx, cmd_args) # grp) groups results p conn) s (Reading grp groups (results[idx := Some resp]) p conn') s"
| ReadRedirect: "read_response C conn = Some (Ok resp, conn') \<Longrightarrow> redirect_of resp s = Some (e, s') \<Longrightarrow>
    pipe_move C (Reading ((idx, cmd_args) # grp) groups results p conn) s
      (Redirected idx cmd_args grp groups results p conn' (run_errand e)) s'"
| ReadFails: "read_response C conn = Some (Err err, conn') \<Longrightarrow>
    pipe_move C (Reading ((idx, cmd_args) # grp) groups results p conn) s (GroupDone (Err err) groups p conn') s"
| ReadAll: "pipe_move C (Reading [] groups results p conn) s (GroupDone (Ok results) groups p conn) s"
| Follow: "run_step C cmd_args r s r' s' \<Longrightarrow>
    pipe_move C (Redirected idx cmd_args grp groups results p conn r) s (Redirected idx cmd_args grp groups results p conn r') s'"
| Followed: "pipe_move C (Redirected idx cmd_args grp groups results p conn (Ran (Ok v))) s
    (Reading grp groups (results[idx := Some v]) p conn) s"
| FollowFails: "pipe_move C (Redirected idx cmd_args grp groups results p conn (Ran (Err err))) s
    (GroupDone (Err err) groups p conn) s"
| Next: "lease_drop p conn s s' \<Longrightarrow> pipe_move C (GroupDone (Ok results) groups p conn) s (Choosing groups results) s'"
| Fail: "lease_drop p conn s s' \<Longrightarrow> pipe_move C (GroupDone (Err err) groups p conn) s (Returned (Err err)) s'"
| Return: "pipe_move C (Choosing [] results) s (Returned (Ok (map (unwrap_or Null) results))) s"

text \<open>
  A refresh fetches over a connection of its own, then makes the missing pools under one lock
  and installs the map under another; an error only ends the tick.
\<close>

inductive refresh_move :: "crates \<Rightarrow> refresh_stage \<Rightarrow> ClusterRouter \<Rightarrow> refresh_stage \<Rightarrow> ClusterRouter \<Rightarrow> bool" for C where
  Fetch: "addr \<in> fst ` set (nodes s) \<Longrightarrow>
    refresh_slots_from C addr (s\<lparr>env_script := [env]\<rparr>) = Some (Ok u, s') \<Longrightarrow>
    refresh_move C Sleeping s (Fetched (slot_map s')) s"
| Ensure: "refresh_move C (Fetched new_map) s (Ensured new_map) (s\<lparr>nodes := ensure_pools (cluster_config s) new_map (nodes s)\<rparr>)"
| Install: "refresh_move C (Ensured new_map) s Sleeping (s\<lparr>slot_map := new_map\<rparr>)"

inductive cluster_move :: "crates \<Rightarrow> cluster_task \<Rightarrow> ClusterRouter \<Rightarrow> cluster_task \<Rightarrow> ClusterRouter \<Rightarrow> bool" for C where
  Commands: "command_move C args c s c' s' \<Longrightarrow> cluster_move C (Command args c) s (Command args c') s'"
| Pipes: "pipe_move C c s c' s' \<Longrightarrow> cluster_move C (Pipe c) s (Pipe c') s'"
| Refreshes: "refresh_move C c s c' s' \<Longrightarrow> cluster_move C (Refresh c) s (Refresh c') s'"

inductive_cases cluster_moveE: "cluster_move C l s l' s'"

fun cluster_call :: "cluster_task \<Rightarrow> bool" where
  "cluster_call (Command args c) = (c = Routing)"
| "cluster_call (Pipe c) = (case c of Grouping idx commands groups \<Rightarrow> idx = 0 \<and> groups = [] | _ \<Rightarrow> False)"
| "cluster_call (Refresh c) = (c = Sleeping)"

text \<open>The router as the constructor leaves it, with the topology it has read.\<close>

definition cluster_shared :: "ConnectionConfig \<Rightarrow> bool \<Rightarrow> SlotRange list \<Rightarrow> ClusterRouter" where
  "cluster_shared config replicas ranges =
     \<lparr>nodes = ensure_pools config ranges [], slot_map = ranges, cluster_config = config,
      read_from_replicas = replicas, env_script = []\<rparr>"

definition cluster_reach :: "crates \<Rightarrow> ClusterRouter \<Rightarrow> cluster_task list \<times> ClusterRouter \<Rightarrow> bool" where
  "cluster_reach C s0 = task_reachable (cluster_move C) cluster_call s0"

lemma cluster_reach_start: "cluster_reach C s0 ([], s0)"
  by (simp add: cluster_reach_def task_reachable.start)

section \<open>The pools\<close>

text \<open>The guards of a task on pools of the table, the last one first, and the pools it connects for.\<close>

fun arc_guards :: "arc \<Rightarrow> RedisConnection \<Rightarrow> (string \<times> RedisConnection) list" where
  "arc_guards (Shared a) conn = [(a, conn)]"
| "arc_guards (Own pool) conn = []"

fun lease_guards :: "lease \<Rightarrow> (string \<times> RedisConnection) list" where
  "lease_guards (Hold p conn) = arc_guards p conn"
| "lease_guards _ = []"

fun lease_dialling :: "lease \<Rightarrow> string list" where
  "lease_dialling (Open (Shared a)) = [a]"
| "lease_dialling _ = []"

fun run_guards :: "run \<Rightarrow> (string \<times> RedisConnection) list" where
  "run_guards (Running e l) = lease_guards l"
| "run_guards (Closing p conn onward) = arc_guards p conn"
| "run_guards (Ran r) = []"

fun run_dialling :: "run \<Rightarrow> string list" where
  "run_dialling (Running e l) = lease_dialling l"
| "run_dialling _ = []"

fun pipe_guards :: "pipe_stage \<Rightarrow> (string \<times> RedisConnection) list" where
  "pipe_guards (Leasing grp groups results l) = lease_guards l"
| "pipe_guards (Reading grp groups results p conn) = arc_guards p conn"
| "pipe_guards (Redirected idx cmd_args grp groups results p conn r) = run_guards r @ arc_guards p conn"
| "pipe_guards (GroupDone results groups p conn) = arc_guards p conn"
| "pipe_guards _ = []"

fun pipe_dialling :: "pipe_stage \<Rightarrow> string list" where
  "pipe_dialling (Leasing grp groups results l) = lease_dialling l"
| "pipe_dialling (Redirected idx cmd_args grp groups results p conn r) = run_dialling r"
| "pipe_dialling _ = []"

fun task_guards :: "cluster_task \<Rightarrow> (string \<times> RedisConnection) list" where
  "task_guards (Command args (Commanding r)) = run_guards r"
| "task_guards (Pipe c) = pipe_guards c"
| "task_guards _ = []"

fun task_dialling :: "cluster_task \<Rightarrow> string list" where
  "task_dialling (Command args (Commanding r)) = run_dialling r"
| "task_dialling (Pipe c) = pipe_dialling c"
| "task_dialling _ = []"

definition effects :: "crates \<Rightarrow> ClusterRouter \<Rightarrow> (string \<times> RedisConnection) list \<Rightarrow> string list
    \<Rightarrow> ClusterRouter \<Rightarrow> (string \<times> RedisConnection) list \<Rightarrow> string list \<Rightarrow> bool" where
  "effects C s gs os s' gs' os' \<longleftrightarrow>
     (pool_effect C)\<^sup>*\<^sup>* (map_of (nodes s), gs, os) (map_of (nodes s'), gs', os')"

lemma effects_same: "nodes s' = nodes s \<Longrightarrow> effects C s gs os s' gs os"
  by (simp add: effects_def)

lemma map_of_put_pool: "map_of (nodes s) a = Some p \<Longrightarrow> map_of (nodes (put_pool a q s)) = (map_of (nodes s))(a \<mapsto> q)"
proof -
  assume "map_of (nodes s) a = Some p"
  moreover have "map_of (map (\<lambda>(b, p). if b = a then (b, q) else (b, p)) ns) =
      (if map_of ns a = None then map_of ns else (map_of ns)(a \<mapsto> q))" for ns
    by (induction ns) (auto simp: fun_eq_iff)
  ultimately show ?thesis by (simp add: put_pool_def)
qed

lemma ensure_pool_effects: "effects C s gs os (s\<lparr>nodes := ensure_pool_for config (nodes s) addr\<rparr>) gs os"
  by (auto simp: effects_def ensure_pool_for_def intro!: pool_effect.Create split: option.split)

text \<open>What each new pool keeps, all the pools of a topology keep.\<close>

lemma ensure_pools_rule:
  assumes "P ns" and "\<And>ns addr. P ns \<Longrightarrow> P (ensure_pool_for config ns addr)"
  shows "P (ensure_pools config ranges ns)"
proof -
  have list: "P (foldl (ensure_pool_for config) ns addrs)" if "P ns" for ns addrs
    using that by (induction addrs arbitrary: ns) (simp_all add: assms(2))
  show ?thesis
    using assms(1) unfolding ensure_pools_def by (induction ranges arbitrary: ns) (simp_all add: assms(2) list)
qed

lemma ensure_pools_effects:
  "effects C s gs os (s\<lparr>nodes := ensure_pools config ranges (nodes s)\<rparr>) gs os"
proof (rule ensure_pools_rule [where P = "\<lambda>ns. effects C s gs os (s\<lparr>nodes := ns\<rparr>) gs os"])
  fix ns addr assume "effects C s gs os (s\<lparr>nodes := ns\<rparr>) gs os"
  with ensure_pool_effects [of C "s\<lparr>nodes := ns\<rparr>" gs os config addr]
  show "effects C s gs os (s\<lparr>nodes := ensure_pool_for config ns addr\<rparr>) gs os" by (auto simp: effects_def)
qed (simp add: effects_same)

lemma arc_own_guards [simp]: "arc_guards (arc_own pool p) conn = arc_guards p conn"
  by (cases p) simp_all

text \<open>Steps on a pool of its own leave the table alone; the others are the effects of the same names.\<close>

lemma lease_step_effects:
  assumes "lease_step C l s l' s'"
  shows "effects C s (lease_guards l @ gs) (lease_dialling l @ os) s' (lease_guards l' @ gs) (lease_dialling l' @ os)"
  using assms
proof cases
  case (Get addr)
  then show ?thesis using ensure_pool_effects by (simp add: get_pool_def Let_def)
next
  case (Reuse p pool now conn pool')
  then show ?thesis
    by (cases p) (auto simp: effects_def map_of_put_pool intro!: r_into_rtranclp pool_effect.Reuse)
next
  case (Dial p pool now pool')
  then show ?thesis
    by (cases p) (auto simp: effects_def map_of_put_pool intro!: r_into_rtranclp pool_effect.Dial)
next
  case (Connected p pool d conn)
  then show ?thesis
    by (cases p) (auto simp: effects_def intro!: r_into_rtranclp pool_effect.Connected)
qed

lemma lease_fails_effects:
  assumes "lease_fails C l s e s'"
  shows "effects C s (lease_guards l @ gs) (lease_dialling l @ os) s' gs os"
  using assms
proof cases
  case (Refused p pool d)
  then show ?thesis
    by (cases p) (auto simp: effects_def map_of_put_pool intro!: r_into_rtranclp pool_effect.Refused)
qed

lemma lease_drop_effects:
  assumes "lease_drop p conn s s'"
  shows "effects C s (arc_guards p conn @ gs) os s' gs os"
  using assms
proof cases
  case (Drop pool now)
  then show ?thesis
    by (cases p) (auto simp: effects_def map_of_put_pool intro!: r_into_rtranclp pool_effect.Drop)
qed

lemma use_effects:
  assumes "nodes s' = nodes s"
  shows "effects C s (arc_guards p conn @ gs) os s' (arc_guards p conn' @ gs) os"
  using assms by (cases p) (auto simp: effects_def intro: pool_effect.Use)

lemma update_map_nodes [simp]: "nodes (update_map slot a s) = nodes s" "cluster_config (update_map slot a s) = cluster_config s"
  by (simp_all add: update_map_def)

lemma follow_nodes: "follow e result s = (onward, s') \<Longrightarrow> nodes s' = nodes s \<and> cluster_config s' = cluster_config s"
  by (cases e) (auto split: option.splits prod.splits RedisErrorKind.splits nat.splits)

lemma redirect_of_nodes: "redirect_of resp s = Some (e, s') \<Longrightarrow> nodes s' = nodes s \<and> cluster_config s' = cluster_config s"
  by (auto simp: redirect_of_def split: option.splits prod.splits RedisErrorKind.splits)

lemma run_onward_guards [simp]:
  "run_guards (run_errand e) = []" "run_dialling (run_errand e) = []"
  "run_guards (run_onward onward) = []" "run_dialling (run_onward onward) = []"
  by (cases onward; simp add: run_errand_def)+

lemma run_step_effects:
  assumes "run_step C args r s r' s'"
  shows "effects C s (run_guards r @ gs) (run_dialling r @ os) s' (run_guards r' @ gs) (run_dialling r' @ os)"
  using assms
  by cases (auto intro: lease_step_effects lease_fails_effects lease_drop_effects use_effects dest: follow_nodes)

lemma pipe_move_effects:
  assumes "pipe_move C c s c' s'"
  shows "effects C s (pipe_guards c) (pipe_dialling c) s' (pipe_guards c') (pipe_dialling c')"
  using assms
proof cases
  case (Follow cmd_args r r' idx grp groups results p conn)
  then show ?thesis using run_step_effects [of C cmd_args r s r' s' "arc_guards p conn" "[]"] by simp
qed (use lease_step_effects [of C _ s _ s' "[]" "[]"] lease_fails_effects [of C _ s _ s' "[]" "[]"]
      lease_drop_effects [of _ _ s s' C "[]" "[]"] use_effects [of s' s C _ _ "[]" "[]"] redirect_of_nodes
    in \<open>auto simp: effects_same\<close>)

lemma cluster_move_effects:
  assumes "cluster_move C l s l' s'"
  shows "effects C s (task_guards l) (task_dialling l) s' (task_guards l') (task_dialling l')"
  using assms
proof cases
  case (Commands args c c')
  from Commands(3) show ?thesis
    using run_step_effects [of C args _ s _ s' "[]" "[]"] by cases (auto simp: Commands(1,2) effects_same)
next
  case (Pipes c c')
  then show ?thesis using pipe_move_effects by simp
next
  case (Refreshes c c')
  from Refreshes(3) show ?thesis
    by cases (auto simp: Refreshes(1,2) effects_same intro: ensure_pools_effects)
qed

lemma cluster_call_idle: "cluster_call l \<Longrightarrow> task_guards l = [] \<and> task_dialling l = []"
  by (cases l rule: cluster_call.cases) (auto split: pipe_stage.splits)

lemma cluster_fresh:
  assumes "map_of (nodes (cluster_shared config replicas ranges)) a = Some pool"
  shows "\<exists>config. pool = pool_new config"
proof -
  have "\<forall>(a, p)\<in>set (ensure_pools config ranges []). p \<in> range pool_new"
    by (rule ensure_pools_rule) (auto simp: ensure_pool_for_def split: option.splits)
  with map_of_SomeD [OF assms] show ?thesis by (auto simp: cluster_shared_def)
qed

interpretation cluster_users: pool_users C "cluster_move C" cluster_call "cluster_shared config replicas ranges"
  "\<lambda>s. map_of (nodes s)" task_guards task_dialling for C config replicas ranges
  by unfold_locales (use cluster_move_effects cluster_call_idle cluster_fresh in \<open>auto simp: effects_def\<close>)

section \<open>The tables\<close>

definition refreshed :: "ClusterRouter \<Rightarrow> ClusterRouter \<Rightarrow> bool" where
  "refreshed s s' \<longleftrightarrow> sorted (map range_start (slot_map s')) \<and> nodes s' = ensure_pools (cluster_config s) (slot_map s') (nodes s) \<and>
     cluster_config s' = cluster_config s \<and> read_from_replicas s' = read_from_replicas s"

definition untouched :: "ClusterRouter \<Rightarrow> ClusterRouter \<Rightarrow> bool" where
  "untouched s s' \<longleftrightarrow> nodes s' = nodes s \<and> slot_map s' = slot_map s \<and> cluster_config s' = cluster_config s \<and>
     read_from_replicas s' = read_from_replicas s"

lemma refresh_result:
  assumes "refresh_slots_from C addr s = Some (r, s')"
  shows "if is_ok r then refreshed s s' else untouched s s'"
  using assms sorted_starts.topology
  by (auto simp: refresh_slots_from_def Let_def refreshed_def untouched_def split: list.splits option.splits result.splits)

lemma refreshed_after: "untouched s s1 \<Longrightarrow> refreshed s1 s' \<Longrightarrow> refreshed s s'"
  by (simp add: refreshed_def untouched_def)

lemma try_seeds_result:
  assumes "try_seeds C seeds err s = Some (Ok None, s')" and "seeds \<noteq> [] \<or> err \<noteq> None"
  shows "refreshed s s'"
  using assms
proof (induction seeds arbitrary: err s)
  case (Cons hp seeds)
  obtain h p where hp: "hp = (h, p)" by (cases hp)
  obtain r s1 where r: "refresh_slots_from C (h @ '':'' @ decimal p) s = Some (r, s1)"
    using Cons.prems(1) hp by (auto split: option.splits)
  show ?case
  proof (cases r)
    case (Err e)
    with Cons.prems(1) hp r have "try_seeds C seeds (Some e) s1 = Some (Ok None, s')" by simp
    with Cons.IH refresh_result [OF r] Err show ?thesis by (auto intro: refreshed_after)
  qed (use Cons.prems(1) hp r refresh_result [OF r] in auto)
qed (auto simp: cl_return_def)

lemma cluster_new_shared:
  assumes "cluster_new C seeds config replicas envs = Some (Ok s0)"
  shows "s0\<lparr>env_script := []\<rparr> = cluster_shared config replicas (slot_map s0)" "sorted (map range_start (slot_map s0))"
proof -
  let ?s = "\<lparr>nodes = [], slot_map = [], cluster_config = config, read_from_replicas = replicas, env_script = envs\<rparr>"
  from assms have "seeds \<noteq> []" "try_seeds C seeds None ?s = Some (Ok None, s0)"
    by (auto simp: cluster_new_def split: option.splits result.splits if_splits)
  then have "refreshed ?s s0" by (auto intro: try_seeds_result)
  then show "s0\<lparr>env_script := []\<rparr> = cluster_shared config replicas (slot_map s0)" "sorted (map range_start (slot_map s0))"
    by (simp_all add: refreshed_def cluster_shared_def)
qed

text \<open>
  The table has one pool per address, made for that address, and the slot map is sorted. A task
  that waits, waits for a pool of the table or for one that is its own.
\<close>

definition tables_ok :: "ConnectionConfig \<Rightarrow> ClusterRouter \<Rightarrow> bool" where
  "tables_ok config s \<longleftrightarrow> cluster_config s = config \<and> distinct (map fst (nodes s)) \<and> sorted (map range_start (slot_map s)) \<and>
     (\<forall>(a, p)\<in>set (nodes s). node_pool_config config a = Some (pool_config p) \<and> pool_max_size p = cfg_pool_size config)"

fun lease_waits :: "lease \<Rightarrow> arc list" where
  "lease_waits (Wait p) = [p]"
| "lease_waits _ = []"

fun run_waits :: "run \<Rightarrow> arc list" where
  "run_waits (Running e l) = lease_waits l"
| "run_waits _ = []"

fun task_waits :: "cluster_task \<Rightarrow> arc list" where
  "task_waits (Command args (Commanding r)) = run_waits r"
| "task_waits (Pipe (Leasing grp groups results l)) = lease_waits l"
| "task_waits (Pipe (Redirected idx cmd_args grp groups results p conn r)) = run_waits r"
| "task_waits _ = []"

fun topology_of :: "cluster_task \<Rightarrow> SlotRange list" where
  "topology_of (Refresh (Fetched ranges)) = ranges"
| "topology_of (Refresh (Ensured ranges)) = ranges"
| "topology_of _ = []"

fun arc_ok :: "ConnectionConfig \<Rightarrow> ClusterRouter \<Rightarrow> arc \<Rightarrow> bool" where
  "arc_ok config s (Shared a) \<longleftrightarrow> a \<in> fst ` set (nodes s)"
| "arc_ok config s (Own pool) \<longleftrightarrow> pool = pool_new config"

definition task_ok :: "ConnectionConfig \<Rightarrow> cluster_task \<Rightarrow> ClusterRouter \<Rightarrow> bool" where
  "task_ok config l s \<longleftrightarrow> list_all (arc_ok config s) (task_waits l) \<and> sorted (map range_start (topology_of l))"

lemma tables_ok_nodes:
  assumes "tables_ok config s" and "nodes s' = nodes s" "cluster_config s' = cluster_config s" "sorted (map range_start (slot_map s'))"
  shows "tables_ok config s'"
  using assms by (simp add: tables_ok_def)

lemma tables_ok_update: "tables_ok config s \<Longrightarrow> tables_ok config (update_map slot a s)"
  using sorted_starts.redirect by (simp add: tables_ok_def update_map_def)

lemma put_pool_keys [simp]: "map fst (nodes (put_pool a p s)) = map fst (nodes s)"
  by (simp add: put_pool_def case_prod_beta comp_def if_distrib cong: if_cong)

lemma fst_put_pool [simp]: "fst ` set (nodes (put_pool a p s)) = fst ` set (nodes s)"
  by (metis put_pool_keys set_map)

lemma arc_put_ok:
  assumes "tables_ok config s" "arc_pool p s = Some pool" "pool_config pool' = pool_config pool" "pool_max_size pool' = pool_max_size pool"
  shows "tables_ok config (arc_put pool' p s)"
proof (cases p)
  case (Shared a)
  with assms(2) have "(a, pool) \<in> set (nodes s)" by (simp add: map_of_SomeD)
  with assms Shared show ?thesis
    by (auto simp: tables_ok_def) (auto simp: put_pool_def split: if_splits)
qed (use assms in simp)

lemma ensure_pool_tables:
  assumes "tables_ok config s"
  shows "tables_ok config (s\<lparr>nodes := ensure_pool_for config (nodes s) addr\<rparr>)"
  using assms
  by (auto simp: tables_ok_def ensure_pool_for_def pool_new_def Let_def node_pool_config_def map_of_eq_None_iff
      split: option.splits)

lemma ensure_pools_tables:
  assumes "tables_ok config s"
  shows "tables_ok config (s\<lparr>nodes := ensure_pools config ranges (nodes s)\<rparr>)"
proof (rule ensure_pools_rule [where P = "\<lambda>ns. tables_ok config (s\<lparr>nodes := ns\<rparr>)"])
  fix ns addr assume "tables_ok config (s\<lparr>nodes := ns\<rparr>)"
  from ensure_pool_tables [OF this] show "tables_ok config (s\<lparr>nodes := ensure_pool_for config ns addr\<rparr>)" by simp
qed (use assms in simp)

lemma arc_ok_mono: "fst ` set (nodes s) \<subseteq> fst ` set (nodes s') \<Longrightarrow> arc_ok config s p \<Longrightarrow> arc_ok config s' p"
  by (cases p) auto

lemma ensure_pool_keys: "fst ` set ns \<subseteq> fst ` set (ensure_pool_for config ns addr)"
  by (auto simp: ensure_pool_for_def split: option.split)

lemma arc_put_keys [simp]: "fst ` set (nodes (arc_put pool p s)) = fst ` set (nodes s)"
  by (cases p) simp_all

text \<open>Every step keeps the tables, and no address leaves the table.\<close>

definition grows :: "ConnectionConfig \<Rightarrow> ClusterRouter \<Rightarrow> ClusterRouter \<Rightarrow> bool" where
  "grows config s s' \<longleftrightarrow> tables_ok config s' \<and> fst ` set (nodes s) \<subseteq> fst ` set (nodes s')"

lemma grows_same: "tables_ok config s \<Longrightarrow> grows config s s"
  by (simp add: grows_def)

lemma lease_step_grows:
  assumes "lease_step C l s l' s'" and "tables_ok config s"
  shows "grows config s s' \<and> list_all (arc_ok config s') (lease_waits l')"
  using assms(1)
proof cases
  case (Get addr)
  have c: "cluster_config s = config" using assms(2) by (simp add: tables_ok_def)
  have "grows config s s'"
    using ensure_pool_tables [OF assms(2), of addr] ensure_pool_keys c Get by (simp add: grows_def get_pool_def Let_def)
  moreover have "arc_ok config s' (pool_arc addr s)"
    using c Get by (cases "map_of (nodes s') addr") (auto simp: pool_arc_def get_pool_def Let_def dest: map_of_SomeD intro: rev_image_eqI)
  ultimately show ?thesis using Get by simp
qed (use assms(2) arc_put_ok pool_acquire_facts in \<open>auto simp: grows_def\<close>)

lemma lease_fails_grows: "lease_fails C l s e s' \<Longrightarrow> tables_ok config s \<Longrightarrow> grows config s s'"
  by (erule lease_fails.cases) (auto simp: grows_def release_permit_def intro: arc_put_ok)

lemma lease_drop_grows: "lease_drop p conn s s' \<Longrightarrow> tables_ok config s \<Longrightarrow> grows config s s'"
  by (erule lease_drop.cases) (auto simp: grows_def guard_drop_facts intro: arc_put_ok)

lemma follow_grows: "follow e result s = (onward, s') \<Longrightarrow> tables_ok config s \<Longrightarrow> grows config s s'"
  by (cases e) (auto simp: grows_def tables_ok_update split: option.splits prod.splits RedisErrorKind.splits nat.splits)

lemma redirect_of_grows: "redirect_of resp s = Some (e, s') \<Longrightarrow> tables_ok config s \<Longrightarrow> grows config s s'"
  by (auto simp: redirect_of_def grows_def tables_ok_update split: option.splits prod.splits RedisErrorKind.splits)

lemmas part_grows = lease_step_grows lease_fails_grows lease_drop_grows follow_grows redirect_of_grows grows_same

lemma run_onward_waits [simp]: "run_waits (run_errand e) = []" "run_waits (run_onward onward) = []"
  by (cases onward; simp add: run_errand_def)+

lemma run_step_grows:
  assumes "run_step C args r s r' s'" and "tables_ok config s"
  shows "grows config s s' \<and> list_all (arc_ok config s') (run_waits r')"
  using assms by cases (auto dest: part_grows intro: grows_same)

lemma cluster_move_grows:
  assumes "cluster_move C l s l' s'" and "tables_ok config s" and "task_ok config l s"
  shows "grows config s s' \<and> task_ok config l' s'"
  using assms(1)
proof cases
  case (Commands args c c')
  from Commands(3) show ?thesis
    by cases (use Commands(1,2) assms(2) in \<open>auto simp: task_ok_def dest: run_step_grows intro: grows_same\<close>)
next
  case (Pipes c c')
  from Pipes(3) show ?thesis
    by cases (use Pipes(1,2) assms(2) in \<open>auto simp: task_ok_def dest: run_step_grows part_grows intro: grows_same\<close>)
next
  case (Refreshes c c')
  have keys: "fst ` set (nodes s) \<subseteq> fst ` set (ensure_pools config ranges (nodes s))" for ranges
    by (rule ensure_pools_rule [where P = "\<lambda>ns. fst ` set (nodes s) \<subseteq> fst ` set ns"]) (use ensure_pool_keys in blast)+
  have c: "cluster_config s = config" using assms(2) by (simp add: tables_ok_def)
  from Refreshes(3) show ?thesis
    by cases (use Refreshes(1,2) assms(2,3) keys c in \<open>auto simp: task_ok_def grows_def refreshed_def
      intro: ensure_pools_tables tables_ok_nodes dest!: refresh_result\<close>)
qed

lemma cluster_reach_ok:
  assumes "cluster_reach C (cluster_shared config replicas ranges) (ts, s)" and "sorted (map range_start ranges)"
  shows "tables_ok config s" and "l \<in> set ts \<Longrightarrow> task_ok config l s"
proof -
  let ?s0 = "cluster_shared config replicas ranges"
  have "tables_ok config (?s0\<lparr>nodes := []\<rparr>)" using assms(2) by (simp add: tables_ok_def cluster_shared_def)
  from ensure_pools_tables [OF this, of ranges] have "tables_ok config ?s0" by (simp add: cluster_shared_def)
  with assms(1) have "tables_ok config (snd (ts, s)) \<and> (\<forall>l\<in>set (fst (ts, s)). task_ok config l (snd (ts, s)))"
    unfolding cluster_reach_def
  proof (rule task_invariant)
    fix l s assume "cluster_call l"
    then show "task_ok config l s"
      by (cases l rule: cluster_call.cases) (auto simp: task_ok_def split: pipe_stage.splits)
  next
    fix l s l' s' m
    assume "cluster_move C l s l' s'" "tables_ok config s" "task_ok config l s" and m: "task_ok config m s"
    then have "grows config s s'" by (simp add: cluster_move_grows)
    with m show "task_ok config m s'"
      unfolding task_ok_def grows_def by (auto simp: list_all_iff intro: arc_ok_mono)
  qed (use cluster_move_grows in \<open>auto simp: grows_def\<close>)
  then show "tables_ok config s" "l \<in> set ts \<Longrightarrow> task_ok config l s" by auto
qed

section \<open>Waiting\<close>

text \<open>A task waits for one pool at a time, and the only thing it can do then is to get its permit.\<close>

lemma run_waiting_step:
  assumes "run_step C args r s r' s'" and "run_waits r = [p]"
  shows "\<exists>pool. arc_pool p s = Some pool \<and> permits pool \<noteq> 0"
  using assms by cases (auto elim!: lease_step.cases lease_fails.cases simp: pool_acquire_def split: if_splits)

lemma waiting_move:
  assumes "cluster_move C l s l' s'" and "task_waits l = [p]"
  shows "\<exists>pool. arc_pool p s = Some pool \<and> permits pool \<noteq> 0"
  using assms(1)
proof cases
  case (Commands args c c')
  from Commands(3) show ?thesis
    by cases (use Commands(1) assms(2) in \<open>auto dest: run_waiting_step\<close>)
next
  case (Pipes c c')
  from Pipes(3) show ?thesis
    by cases (use Pipes(1) assms(2) in \<open>auto dest: run_waiting_step
      elim!: lease_step.cases lease_fails.cases simp: pool_acquire_def split: if_splits\<close>)
qed (use assms(2) in auto)

lemma free_permit_moves:
  assumes "task_waits l = [p]" and "arc_pool p s = Some pool" and "permits pool \<noteq> 0"
  shows "\<exists>l' s'. cluster_move C l s l' s'"
proof -
  obtain r pool' where acq: "pool_acquire 0 pool = Some (r, pool')"
    using assms(3) by (metis old.prod.exhaust pool_acquire_def)
  then have lease: "\<exists>l' s'. lease_step C (Wait p) s l' s'"
    using lease_step.Reuse [OF assms(2)] lease_step.Dial [OF assms(2)] by (cases r) blast+
  have run: "\<exists>r' s'. run_step C args r s r' s'" if "run_waits r = [p]" for args r
    using that lease by (cases r rule: run_waits.cases; auto elim!: lease_waits.elims intro: run_step.Lease)
  show ?thesis
    using assms(1)
  proof (cases l rule: task_waits.cases)
    case (2 grp groups results le)
    with assms(1) lease show ?thesis
      by (auto elim!: lease_waits.elims) (meson cluster_move.Pipes pipe_move.Lease)
  qed (use assms(1) run in \<open>auto; meson cluster_move.Commands command_move.Run cluster_move.Pipes pipe_move.Follow\<close>)+
qed

lemma waits_one: "length (task_waits l) \<le> 1"
proof -
  have lease: "length (lease_waits le) \<le> 1" for le by (cases le) simp_all
  then have "length (run_waits r) \<le> 1" for r by (cases r) simp_all
  with lease show ?thesis by (cases l rule: task_waits.cases) simp_all
qed

text \<open>Pipelines that follow a redirect hold a guard and may wait for another one.\<close>

fun following :: "cluster_task \<Rightarrow> bool" where
  "following (Pipe (Redirected idx cmd_args grp groups results p conn r)) = True"
| "following _ = False"

lemma holder_waits:
  assumes "task_guards l \<noteq> [] \<or> task_dialling l \<noteq> []" and "task_waits l \<noteq> []"
  shows "following l"
proof -
  have lease: "lease_waits le = []" if "lease_guards le \<noteq> [] \<or> lease_dialling le \<noteq> []" for le
    using that by (cases le) auto
  have "run_waits r = []" if "run_guards r \<noteq> [] \<or> run_dialling r \<noteq> []" for r
    using that lease by (cases r) auto
  with assms lease show ?thesis by (cases l rule: task_waits.cases) auto
qed

section \<open>Circular waits\<close>

text \<open>
  Tasks that wait for pools of which they themselves hold all the connections. As no other task
  has a permit of these pools, nobody can give one back.
\<close>

definition deadlocked :: "nat \<Rightarrow> cluster_task list \<Rightarrow> bool" where
  "deadlocked n ws \<longleftrightarrow>
     list_all (\<lambda>l. case task_waits l of [Shared a] \<Rightarrow> n \<le> held_at task_guards ws a | _ \<Rightarrow> False) ws"

lemma deadlocked_waits:
  assumes "deadlocked n ws" and "l \<in> set ws"
  obtains a where "task_waits l = [Shared a]" "n \<le> held_at task_guards ws a"
proof -
  have l: "case task_waits l of [Shared a] \<Rightarrow> n \<le> held_at task_guards ws a | _ \<Rightarrow> False"
    using assms by (simp only: deadlocked_def list_all_iff)
  show thesis
  proof (cases "task_waits l")
    case (Cons p ps)
    with l that show thesis by (cases p; cases ps) simp_all
  qed (use l in simp)
qed

lemma deadlocked_stuck:
  assumes "cluster_reach C (cluster_shared config replicas ranges) (ws @ rest, s)" and "sorted (map range_start ranges)"
    and "deadlocked (cfg_pool_size config) ws" and "l \<in> set ws"
  shows "\<not> cluster_move C l s l' s'"
proof
  assume move: "cluster_move C l s l' s'"
  obtain a where a: "task_waits l = [Shared a]" "cfg_pool_size config \<le> held_at task_guards ws a"
    using deadlocked_waits [OF assms(3,4)] by blast
  obtain pool where pool: "map_of (nodes s) a = Some pool" "permits pool \<noteq> 0"
    using waiting_move [OF move a(1)] by auto
  have "held_at task_guards ws a \<le> held_at task_guards (ws @ rest) a" by (simp add: held_at_def)
  moreover have "pool_max_size pool = cfg_pool_size config"
    using cluster_reach_ok(1) [OF assms(1,2)] map_of_SomeD [OF pool(1)] by (auto simp: tables_ok_def)
  ultimately show False
    using cluster_users.pool_accounting(1) [OF assms(1) [unfolded cluster_reach_def] pool(1)] a(2) pool(2)
    by (simp add: available_def max_size_def)
qed

lemma deadlocked_forever:
  assumes "cluster_reach C (cluster_shared config replicas ranges) (ws @ rest, s)" and "sorted (map range_start ranges)"
    and "deadlocked (cfg_pool_size config) ws" and "(task_step (cluster_move C) cluster_call)\<^sup>*\<^sup>* (ws @ rest, s) t"
  shows "take (length ws) (fst t) = ws \<and> (\<forall>l\<in>set ws. \<forall>l' s'. \<not> cluster_move C l (snd t) l' s')"
proof -
  let ?s0 = "cluster_shared config replicas ranges"
  have stuck: "\<not> cluster_move C l g l' g'" if "cluster_reach C ?s0 (ts, g)" "take (length ws) ts = ws" "l \<in> set ws" for ts g l l' g'
    using deadlocked_stuck [of C config replicas ranges ws "drop (length ws) ts" g l] assms(2,3) that
    by (metis append_take_drop_id)
  from assms(4) have "cluster_reach C ?s0 t \<and> take (length ws) (fst t) = ws"
  proof (induction rule: rtranclp_induct)
    case base
    then show ?case using assms(1) by simp
  next
    case (step t u)
    obtain ts g where t: "t = (ts, g)" by (cases t)
    have reach: "cluster_reach C ?s0 u" using step unfolding cluster_reach_def by (blast intro: task_reachable.step)
    from step(2) [unfolded t] show ?case
    proof cases
      case (Move i l g')
      have "\<not> i < length ws"
      proof
        assume "i < length ws"
        moreover have "take (length ws) ts = ws" using step(3) t by simp
        ultimately have "ts ! i \<in> set ws" by (metis nth_mem nth_take)
        with stuck step(3) t Move show False by auto
      qed
      with Move step(3) t reach show ?thesis by simp
    next
      case (Arrive l)
      have "length ws \<le> length ts" using step(3) t by (metis fst_conv length_take min.absorb_iff2 min.commute nat_le_linear)
      with Arrive step(3) t reach show ?thesis by simp
    qed
  qed
  with stuck [of "fst t" "snd t"] show ?thesis by simp
qed

text \<open>The node \<open>a\<close> may answer the command \<open>x\<close> with MOVED to \<open>b\<close>.\<close>

definition sends_away :: "crates \<Rightarrow> ConnectionConfig \<Rightarrow> string \<Rightarrow> string list \<Rightarrow> string \<Rightarrow> bool" where
  "sends_away C config a x b \<longleftrightarrow> (\<exists>cfg d conn conn' msg slot.
     node_pool_config config a = Some cfg \<and> create_connection C d cfg = Some (Ok conn) \<and>
     execute_str C x conn = Some (Ok (Error msg), conn') \<and> fst (from_error_msg msg) = Moved slot b)"

lemma get_known_pool:
  assumes "map_of (nodes s) a = Some pool"
  shows "snd (get_pool a s) = s" "pool_arc a s = Shared a"
  using assms by (simp_all add: pool_arc_def get_pool_def ensure_pool_for_def)

lemma execute_str_split:
  assumes "execute_str C x conn = Some (Ok v, conn')"
  obtains conn1 where "send_group C [(0, x)] conn = Some (Ok (), conn1)" "read_response C conn1 = Some (Ok v, conn')"
  using assms by (auto simp: execute_str_def io_bind_def io_return_def split: option.splits result.splits)

text \<open>A pipeline of one command takes a new connection and sends the command.\<close>

lemma pipeline_sends:
  assumes "map_of (nodes s) a = Some pool" "permits pool \<noteq> 0" "idle pool = []" and "target_addr s x = a" "a \<noteq> []"
    and "create_connection C d (pool_config pool) = Some (Ok conn)" "send_group C [(0, x)] conn = Some (Ok (), conn')"
  shows "solo (cluster_move C) (Pipe (Grouping 0 [x] []), s)
    (Pipe (Reading [(0, x)] [] [None] (Shared a) conn'), put_pool a (pool\<lparr>permits := permits pool - 1\<rparr>) s)"
proof -
  let ?pool = "pool\<lparr>permits := permits pool - 1\<rparr>" and ?L = "\<lambda>l. Pipe (Leasing [(0, x)] [] [None] l)"
  have acq: "pool_acquire 0 pool = Some (None, ?pool)"
    using assms(2,3) by (simp add: pool_acquire_def take_healthy_connection_def)
  have pool: "arc_pool (Shared a) (put_pool a ?pool s) = Some ?pool" using assms(1) by (simp add: map_of_put_pool)
  note first = solo_first [where move = "cluster_move C"]
  have "solo (cluster_move C) (Pipe (Grouping 0 [x] []), s) (?L (Want a), s)"
    using first [OF cluster_move.Pipes [OF pipe_move.Group [of C 0 x "[]" "[]" s]]]
      first [OF cluster_move.Pipes [OF pipe_move.Grouped [of C 1 "[(a, [(0, x)])]" s]]]
      solo_step [where move = "cluster_move C", OF cluster_move.Pipes [OF pipe_move.Choose [OF assms(5), of C "[]" "[(0, x)]" "[]" "[None]" s]]]
      assms(4) by simp
  also have "solo (cluster_move C) (?L (Want a), s) (?L (Open (Shared a)), put_pool a ?pool s)"
    using first [OF cluster_move.Pipes [OF pipe_move.Lease [OF lease_step.Get [of C a s]]]]
      solo_step [where move = "cluster_move C", OF cluster_move.Pipes [OF pipe_move.Lease [OF lease_step.Dial [of "Shared a" s pool 0 ?pool C]]]]
      assms(1) acq get_known_pool [OF assms(1)] by simp
  also have "solo (cluster_move C) (?L (Open (Shared a)), put_pool a ?pool s)
      (Pipe (Reading [(0, x)] [] [None] (Shared a) conn'), put_pool a ?pool s)"
    using first [OF cluster_move.Pipes [OF pipe_move.Lease [OF lease_step.Connected [OF pool]]]] assms(6)
      solo_step [where move = "cluster_move C", OF cluster_move.Pipes [OF pipe_move.Send [OF assms(7)]]] by simp
  finally show ?thesis .
qed

text \<open>It reads MOVED and waits for the other node, with its first connection in hand.\<close>

definition stranded :: "string list \<Rightarrow> string \<Rightarrow> RedisConnection \<Rightarrow> string \<Rightarrow> cluster_task" where
  "stranded x a conn b =
     Pipe (Redirected 0 x [] [] [None] (Shared a) conn (Running (Direct (MAX_REDIRECTS - 1) b) (Wait (Shared b))))"

lemma pipeline_strands:
  assumes "read_response C conn = Some (Ok (Error msg), conn')" "fst (from_error_msg msg) = Moved slot b" "map_of (nodes s) b = Some pool"
  shows "solo (cluster_move C) (Pipe (Reading [(0, x)] [] [None] (Shared a) conn), s) (stranded x a conn' b, update_map slot b s)"
proof -
  let ?s = "update_map slot b s" and ?e = "Direct (MAX_REDIRECTS - 1) b"
  have "redirect_of (Error msg) s = Some (?e, ?s)" using assms(2) by (simp add: redirect_of_def reply_kind_def)
  note read = pipe_move.ReadRedirect [OF assms(1) this, of 0 x "[]" "[]" "[None]" "Shared a"]
  have "lease_step C (Want b) ?s (Wait (Shared b)) ?s"
    using lease_step.Get [of C b ?s] get_known_pool [of ?s b pool] assms(3) by simp
  note get = pipe_move.Follow [OF run_step.Lease [OF this, of x ?e], of 0 "[]" "[]" "[None]" "Shared a" conn']
  show ?thesis
    unfolding stranded_def
    using solo_first [where move = "cluster_move C", OF cluster_move.Pipes [OF read]]
      solo_step [where move = "cluster_move C", OF cluster_move.Pipes [OF get]]
    by (simp add: run_errand_def)
qed

text \<open>As many pipelines as fit, one after the other, take all the connections of a node.\<close>

definition drained :: "ClusterRouter \<Rightarrow> string \<Rightarrow> ConnectionConfig \<Rightarrow> nat \<Rightarrow> ClusterRouter \<Rightarrow> bool" where
  "drained s0 a cfg k s \<longleftrightarrow> slot_map s = slot_map s0 \<and> read_from_replicas s = read_from_replicas s0 \<and>
     map_of (nodes s) a = Some (pool_new cfg\<lparr>permits := cfg_pool_size cfg - k\<rparr>) \<and>
     (\<forall>b. b \<noteq> a \<longrightarrow> map_of (nodes s) b = map_of (nodes s0) b)"

lemma target_addr_cong: "slot_map s = slot_map s' \<Longrightarrow> read_from_replicas s = read_from_replicas s' \<Longrightarrow> target_addr s x = target_addr s' x"
  by (auto simp: target_addr_def Let_def split: option.split)

lemma drain:
  assumes "map_of (nodes s0) a = Some (pool_new cfg)" and "target_addr s0 x = a" "a \<noteq> []"
    and "create_connection C d cfg = Some (Ok conn)" "send_group C [(0, x)] conn = Some (Ok (), conn')"
  obtains s where "(task_step (cluster_move C) initial)\<^sup>*\<^sup>* (xs @ replicate (cfg_pool_size cfg) (Pipe (Grouping 0 [x] [])) @ ys, s0)
      (xs @ replicate (cfg_pool_size cfg) (Pipe (Reading [(0, x)] [] [None] (Shared a) conn')) @ ys, s)"
    and "drained s0 a cfg (cfg_pool_size cfg) s"
proof (rule one_after_the_other [where I = "drained s0 a cfg" and move = "cluster_move C" and g = s0])
  fix k s assume k: "drained s0 a cfg k s" "k < cfg_pool_size cfg"
  let ?pool = "pool_new cfg\<lparr>permits := cfg_pool_size cfg - k\<rparr>" and ?pool' = "pool_new cfg\<lparr>permits := cfg_pool_size cfg - Suc k\<rparr>"
  have a: "map_of (nodes s) a = Some ?pool" "target_addr s x = a"
    using k(1) assms(2) target_addr_cong [of s s0 x] by (simp_all add: drained_def)
  have "drained s0 a cfg (Suc k) (put_pool a ?pool' s)"
    using k a(1) by (simp add: drained_def map_of_put_pool) (simp add: put_pool_def)
  moreover have "solo (cluster_move C) (Pipe (Grouping 0 [x] []), s)
      (Pipe (Reading [(0, x)] [] [None] (Shared a) conn'), put_pool a ?pool' s)"
    using pipeline_sends [OF a(1) _ _ a(2) assms(3) _ assms(5)] assms(4) k(2) by (simp add: pool_new_def Let_def)
  ultimately show "\<exists>s'. solo (cluster_move C) (Pipe (Grouping 0 [x] []), s)
      (Pipe (Reading [(0, x)] [] [None] (Shared a) conn'), s') \<and> drained s0 a cfg (Suc k) s'" by blast
qed (use assms(1) that in \<open>auto simp: drained_def pool_new_def Let_def\<close>)

lemma strand:
  assumes "read_response C conn = Some (Ok (Error msg), conn')" "fst (from_error_msg msg) = Moved slot b" "a \<in> dom (map_of (nodes s0))" "b \<in> dom (map_of (nodes s0))"
  obtains s where "(task_step (cluster_move C) initial)\<^sup>*\<^sup>* (xs @ replicate n (Pipe (Reading [(0, x)] [] [None] (Shared a) conn)) @ ys, s0)
      (xs @ replicate n (stranded x a conn' b) @ ys, s)" and "nodes s = nodes s0"
proof (rule one_after_the_other [where I = "\<lambda>k (s :: ClusterRouter). nodes s = nodes s0" and move = "cluster_move C" and g = s0])
  fix k and s :: ClusterRouter assume "nodes s = nodes s0"
  with assms(4) obtain pool where "map_of (nodes s) b = Some pool" by auto
  from pipeline_strands [OF assms(1,2) this, of x a] \<open>nodes s = nodes s0\<close>
  show "\<exists>s'. solo (cluster_move C) (Pipe (Reading [(0, x)] [] [None] (Shared a) conn), s) (stranded x a conn' b, s') \<and> nodes s' = nodes s0"
    by (metis update_map_nodes(1))
qed (use that in auto)

text \<open>Both directions at once.\<close>

lemma circular_wait:
  assumes "map_of (nodes s0) a = Some (pool_new cfg_a)" "map_of (nodes s0) b = Some (pool_new cfg_b)" "a \<noteq> b"
    and "target_addr s0 x = a" "target_addr s0 y = b" "a \<noteq> []" "b \<noteq> []"
    and "create_connection C d cfg_a = Some (Ok conn_a)" "execute_str C x conn_a = Some (Ok (Error msg_a), conn_a')" "fst (from_error_msg msg_a) = Moved slot_a b"
    and "create_connection C d' cfg_b = Some (Ok conn_b)" "execute_str C y conn_b = Some (Ok (Error msg_b), conn_b')" "fst (from_error_msg msg_b) = Moved slot_b a"
  shows "\<exists>s. (task_step (cluster_move C) cluster_call)\<^sup>*\<^sup>* ([], s0)
    (replicate (cfg_pool_size cfg_a) (stranded x a conn_a' b) @ replicate (cfg_pool_size cfg_b) (stranded y b conn_b' a), s)"
proof -
  let ?P = "\<lambda>x. Pipe (Grouping 0 [x] [])" and ?R = "\<lambda>x a conn. Pipe (Reading [(0, x)] [] [None] (Shared a) conn)"
  let ?n = "cfg_pool_size cfg_a" and ?m = "cfg_pool_size cfg_b" and ?step = "(task_step (cluster_move C) cluster_call)\<^sup>*\<^sup>*"
  obtain ca where ca: "send_group C [(0, x)] conn_a = Some (Ok (), ca)" "read_response C ca = Some (Ok (Error msg_a), conn_a')"
    using execute_str_split [OF assms(9)] .
  obtain cb where cb: "send_group C [(0, y)] conn_b = Some (Ok (), cb)" "read_response C cb = Some (Ok (Error msg_b), conn_b')"
    using execute_str_split [OF assms(12)] .
  have "?step ([], s0) (replicate ?n (?P x), s0)" "?step (replicate ?n (?P x), s0) (replicate ?n (?P x) @ replicate ?m (?P y), s0)"
    using all_arrive [of cluster_call "?P x" "cluster_move C" "[]" s0 ?n] all_arrive [of cluster_call "?P y"] by simp_all
  then have arrive: "?step ([], s0) (replicate ?n (?P x) @ replicate ?m (?P y), s0)" by (rule rtranclp_trans)
  obtain s1 where s1: "?step (replicate ?n (?P x) @ replicate ?m (?P y), s0) (replicate ?n (?R x a ca) @ replicate ?m (?P y), s1)"
    "drained s0 a cfg_a ?n s1"
    using drain [OF assms(1,4,6,8) ca(1), of cluster_call "[]" "replicate ?m (?P y)"] by auto
  then have b: "map_of (nodes s1) b = Some (pool_new cfg_b)" "target_addr s1 y = b"
    using assms(2,3,5) target_addr_cong [of s1 s0 y] by (auto simp: drained_def)
  obtain s2 where s2: "?step (replicate ?n (?R x a ca) @ replicate ?m (?P y), s1) (replicate ?n (?R x a ca) @ replicate ?m (?R y b cb), s2)"
    "drained s1 b cfg_b ?m s2"
    using drain [OF b assms(7,11) cb(1), of cluster_call "replicate ?n (?R x a ca)" "[]"] by auto
  have known: "a \<in> dom (map_of (nodes s2))" "b \<in> dom (map_of (nodes s2))"
    using s1(2) s2(2) assms(3) by (auto simp: drained_def)
  obtain s3 where s3: "?step (replicate ?n (?R x a ca) @ replicate ?m (?R y b cb), s2)
      (replicate ?n (stranded x a conn_a' b) @ replicate ?m (?R y b cb), s3)" "nodes s3 = nodes s2"
    using strand [OF ca(2) assms(10) known, of cluster_call "[]" ?n x "replicate ?m (?R y b cb)"] by auto
  obtain s4 where s4: "?step (replicate ?n (stranded x a conn_a' b) @ replicate ?m (?R y b cb), s3)
      (replicate ?n (stranded x a conn_a' b) @ replicate ?m (stranded y b conn_b' a), s4)"
    using strand [OF cb(2) assms(13), of b s3 cluster_call "replicate ?n (stranded x a conn_a' b)" ?m y "[]"] known s3(2) by auto
  note arrive also note s1(1) also note s2(1) also note s3(1) also note s4
  finally show ?thesis by blast
qed

lemma stranded_deadlocked:
  assumes "n \<le> k" "n \<le> m"
  shows "deadlocked n (replicate k (stranded x a ca b) @ replicate m (stranded y b cb a))"
proof -
  have "task_waits (stranded x a c b) = [Shared b]" "task_guards (stranded x a c b) = [(a, c)]" for x a c b
    by (simp_all add: stranded_def)
  then show ?thesis
    using assms by (auto simp: deadlocked_def held_at_def list_all_iff sum_list_replicate)
qed

section \<open>Samples\<close>

text \<open>A cluster of the master \<open>a:1\<close> and its replica \<open>b:2\<close>, which answers the reads.\<close>

definition one_replica :: "SlotRange list" where
  "one_replica = [\<lparr>range_start = 0, range_end = 9, range_master = ''a:1'', range_replicas = [''b:2'']\<rparr>]"

definition replica_slots :: bytes where
  "replica_slots = ''*1'' @ crlf @ ''*4'' @ crlf @ '':0'' @ crlf @ '':9'' @ crlf @ ''*2'' @ crlf @ ''$1'' @ crlf @ ''a'' @ crlf @ '':1'' @ crlf @
     ''*2'' @ crlf @ ''$1'' @ crlf @ ''b'' @ crlf @ '':2'' @ crlf"

definition replica_stream :: tcp_stream where
  "replica_stream = \<lparr>clock = 0, inbox = [ReadEvent 1 65536 (Data replica_slots)], writes = [WriteOk 1], sent = [], peer = []\<rparr>"

definition two_nodes :: ClusterRouter where
  "two_nodes = \<lparr>nodes = [(''b:2'', pool_new node_b), (''a:1'', pool_new node_a)], slot_map = one_replica,
     cluster_config = default_config, read_from_replicas = True, env_script = []\<rparr>"

lemma node_configs:
  "node_pool_config default_config ''a:1'' = Some node_a" "node_pool_config default_config ''b:2'' = Some node_b"
  by (simp_all add: node_pool_config_def rsplit_once_def parse_u16_def parse_unsigned_def ascii_digit_def digit_val_def
      default_config_def node_a_def node_b_def)

lemma two_nodes_new:
  "cluster_new (documented_crates (\<lambda>_. True)) [(''s'', 7)] default_config True
     [\<lparr>at_get = 0, at_drop = 0, dialing = Dialed replica_stream\<rparr>] = Some (Ok two_nodes)"
proof -
  let ?C = "documented_crates (\<lambda>_. True)"
  let ?v = "Array [Array [Integer 0, Integer 9, Array [BulkString ''a'', Integer 1], Array [BulkString ''b'', Integer 2]]]"
  have d: "concat (map event_data (inbox replica_stream)) = replica_slots" by (simp add: replica_stream_def event_data_def)
  have "parse ?C (concat (map event_data (inbox replica_stream))) = Ok (?v, 46)"
    unfolding d replica_slots_def by code_simp
  moreover have "from_cluster_slots ?v = Ok one_replica" by code_simp
  moreover have "ensure_pools default_config one_replica [] = nodes two_nodes"
    by (simp add: ensure_pools_def one_replica_def ensure_pool_for_def two_nodes_def node_configs)
  moreover have "replica_slots \<noteq> []" by (simp add: replica_slots_def)
  ultimately show ?thesis
    using cluster_new_reply [OF documented.crate_env_axioms, of default_config
        "\<lparr>at_get = 0, at_drop = 0, dialing = Dialed replica_stream\<rparr>" replica_stream 1 "[]" "\<lambda>_. True" ?v 46 one_replica
        "(''s'', 7)" "[]" True "[]"]
    by (simp add: two_nodes_def replica_stream_def delivers_def default_config_def)
qed

lemma two_nodes_targets: "target_addr two_nodes [''PING''] = ''a:1''" "target_addr two_nodes [''GET'', []] = ''b:2''"
proof -
  have "extract_key [''PING''] = None" by code_simp
  then show "target_addr two_nodes [''PING''] = ''a:1''" by (simp add: target_addr_def two_nodes_def one_replica_def)
  have "hash_slot [] = 0" by (simp add: hash_slot_def extract_hash_tag_def crc16_def)
  moreover have "find_range one_replica 0 = Some 0"
    by (subst find_range_iff) (simp_all add: one_replica_def wf_slots_def covers_def)
  moreover have "extract_key [''GET'', []] = Some []" "is_read_only_command ''GET''" by code_simp+
  ultimately show "target_addr two_nodes [''GET'', []] = ''b:2''"
    by (simp add: target_addr_def two_nodes_def replica_for_slot_def Let_def) (simp add: one_replica_def)
qed

text \<open>A node that answers one command with MOVED.\<close>

lemma line_sends_away:
  assumes "node_pool_config default_config a = Some cfg" "no_handshake cfg" "65536 < cfg_max_buffer_size cfg"
    and "parse (documented_crates (\<lambda>_. True)) (''-'' @ msg @ crlf) = Ok (Error msg, n)" and "fst (from_error_msg msg) = Moved slot b"
  shows "sends_away (documented_crates (\<lambda>_. True)) default_config a x b"
proof -
  let ?C = "documented_crates (\<lambda>_. True)" and ?st = "line_stream (''-'' @ msg)"
  have "create_connection ?C (Dialed ?st) cfg = Some (Ok (fresh_conn cfg ?st))"
    using fresh_pool_get [OF assms(2), of ?C 0 ?st]
    by (auto simp: pool_get_def pool_new_def Let_def pool_acquire_def take_healthy_connection_def split: option.splits result.splits if_splits)
  moreover have "parse ?C (pending_input (fresh_conn cfg ?st)) = Ok (Error msg, n)"
    using line_conn(2) [OF assms(3), of "''-'' @ msg"] assms(4) by simp
  then obtain c where "execute_str ?C x (fresh_conn cfg ?st) = Some (Ok (Error msg), c)"
    by (rule crate_env.execute_str_stream [OF documented.crate_env_axioms line_conn(3,1) [OF assms(3)], where args = x])
  ultimately show ?thesis using assms(1,5) unfolding sends_away_def by blast
qed

lemma two_nodes_send_away:
  "sends_away (documented_crates (\<lambda>_. True)) default_config ''a:1'' x ''b:2''"
  "sends_away (documented_crates (\<lambda>_. True)) default_config ''b:2'' x ''a:1''"
proof -
  have cfg: "no_handshake node_a" "65536 < cfg_max_buffer_size node_a" "no_handshake node_b" "65536 < cfg_max_buffer_size node_b"
    by (simp_all add: no_handshake_def node_a_def node_b_def default_config_def)
  have "decimal 3 = ''3''" by code_simp
  then have moved: "fst (from_error_msg ''MOVED 3 b:2'') = Moved 3 ''b:2''" "fst (from_error_msg ''MOVED 3 a:1'') = Moved 3 ''a:1''"
    using from_error_msg_moved [of 3 "''b:2''"] from_error_msg_moved [of 3 "''a:1''"] by simp_all
  have "parse (documented_crates (\<lambda>_. True)) (''-'' @ ''MOVED 3 b:2'' @ crlf) = Ok (Error ''MOVED 3 b:2'', 14)"
    "parse (documented_crates (\<lambda>_. True)) (''-'' @ ''MOVED 3 a:1'' @ crlf) = Ok (Error ''MOVED 3 a:1'', 14)"
    by code_simp+
  then show "sends_away (documented_crates (\<lambda>_. True)) default_config ''a:1'' x ''b:2''"
    "sends_away (documented_crates (\<lambda>_. True)) default_config ''b:2'' x ''a:1''"
    using line_sends_away [OF node_configs(1) cfg(1,2) _ moved(1)] line_sends_away [OF node_configs(2) cfg(3,4) _ moved(2)] by blast+
qed

text \<open>A command that has come as far as waiting for a permit.\<close>

lemma command_waits:
  assumes "args \<noteq> []" "target_addr s0 args = a" "a \<noteq> []" "map_of (nodes s0) a = Some pool"
  shows "cluster_reach C s0 ([Command args (Commanding (Running (Direct MAX_REDIRECTS a) (Wait (Shared a))))], s0)"
proof -
  let ?step = "task_step (cluster_move C) cluster_call" and ?e = "Direct MAX_REDIRECTS a"
  have "?step ([], s0) ([Command args Routing], s0)"
    using task_step.Arrive [of cluster_call "Command args Routing" "cluster_move C" "[]" s0] by simp
  moreover have "solo (cluster_move C) (Command args Routing, s0) (Command args (Commanding (Running ?e (Wait (Shared a)))), s0)"
    using solo_first [where move = "cluster_move C", OF cluster_move.Commands [OF command_move.Route [OF assms(1), of s0 C]]]
      solo_step [where move = "cluster_move C", OF cluster_move.Commands [OF command_move.Run [OF run_step.Lease [OF lease_step.Get [of C a s0]]]]]
      get_known_pool [OF assms(4)] assms(2,3) by (simp add: run_errand_def)
  from solo_runs [OF this, of 0 "[Command args Routing]" cluster_call]
  have "?step\<^sup>*\<^sup>* ([Command args Routing], s0) ([Command args (Commanding (Running ?e (Wait (Shared a))))], s0)" by simp
  ultimately show ?thesis
    unfolding cluster_reach_def by (meson converse_rtranclp_into_rtranclp task_reachable.start task_runs.reachable_run)
qed

lemma two_nodes_wait:
  "cluster_reach C two_nodes ([Command [''PING''] (Commanding (Running (Direct MAX_REDIRECTS ''a:1'') (Wait (Shared ''a:1''))))], two_nodes)"
  by (rule command_waits [OF _ two_nodes_targets(1)]) (simp_all add: two_nodes_def)

lemma two_nodes_start [simp]: "two_nodes\<lparr>env_script := []\<rparr> = two_nodes"
  by (simp add: two_nodes_def)

section \<open>Properties\<close>

text \<open>
  C18: Commands, pipelines and topology refreshes may interleave on a cluster router as they like,
  with redirects, failures and guards held across redirects: in every reachable state the
  table has one pool per address, made for that address, and the slot map is sorted; in every
  pool free permits, guards and connecting tasks make up the pool size, and idle connections
  come on top of the used ones within it.
\<close>

theorem cluster_tasks_accounted:
  assumes "cluster_new C seeds config replicas envs = Some (Ok s0)" and "cluster_reach C (s0\<lparr>env_script := []\<rparr>) (ts, s)"
  shows "distinct (map fst (nodes s)) \<and> sorted (map range_start (slot_map s)) \<and>
    list_all (\<lambda>(a, pool). node_pool_config config a = Some (pool_config pool) \<and>
      available pool + held_at task_guards ts a + dialling_at task_dialling ts a = cfg_pool_size config \<and>
      idle_count pool + held_at task_guards ts a + dialling_at task_dialling ts a \<le> cfg_pool_size config) (nodes s)"
proof -
  note new = cluster_new_shared [OF assms(1)]
  note reach = assms(2) [unfolded new(1)]
  have ok: "tables_ok config s" using cluster_reach_ok(1) [OF reach new(2)] .
  have "available pool + held_at task_guards ts a + dialling_at task_dialling ts a = cfg_pool_size config \<and>
      idle_count pool + held_at task_guards ts a + dialling_at task_dialling ts a \<le> cfg_pool_size config"
    if "(a, pool) \<in> set (nodes s)" for a pool
  proof -
    have "map_of (nodes s) a = Some pool" "max_size pool = cfg_pool_size config"
      using ok that by (auto simp: tables_ok_def max_size_def)
    with cluster_users.pool_accounting [OF reach [unfolded cluster_reach_def]] show ?thesis by metis
  qed
  with ok show ?thesis by (auto simp: tables_ok_def list_all_iff)
qed

theorem cluster_tasks_accounted_witness:
  "list_all (\<lambda>(a, pool). available pool = 8) (nodes two_nodes)"
  using cluster_tasks_accounted [OF two_nodes_new, of "[Command [''PING''] (Commanding (Running (Direct MAX_REDIRECTS ''a:1'') (Wait (Shared ''a:1''))))]" two_nodes]
    two_nodes_wait by (auto simp: list_all_iff held_at_def dialling_at_def default_config_def)

text \<open>
  C20: Only pipelines that follow a redirect can block each other. When a task waits for a permit,
  it can go on at once, or another task has a permit of the same pool, and this task is not
  itself waiting for a permit, unless it is a pipeline in the middle of a redirect. So
  commands among themselves never deadlock.
\<close>

theorem only_redirected_pipelines_block:
  assumes "cluster_new C seeds config replicas envs = Some (Ok s0)" and "cluster_reach C (s0\<lparr>env_script := []\<rparr>) (ts, s)"
    and "l \<in> set ts" "task_waits l = [p]" "0 < cfg_pool_size config"
  shows "(\<exists>l' s'. cluster_move C l s l' s') \<or>
    (\<exists>a. p = Shared a \<and> (\<exists>m\<in>set ts. (a \<in> fst ` set (task_guards m) \<or> a \<in> set (task_dialling m)) \<and> (task_waits m = [] \<or> following m)))"
proof -
  note new = cluster_new_shared [OF assms(1)]
  note reach = assms(2) [unfolded new(1)]
  have ok: "tables_ok config s" "arc_ok config s p"
    using cluster_reach_ok(1) [OF reach new(2)] cluster_reach_ok(2) [OF reach new(2) assms(3)] assms(4) by (simp_all add: task_ok_def)
  then obtain pool where pool: "arc_pool p s = Some pool" "max_size pool = cfg_pool_size config"
    by (cases p) (auto simp: tables_ok_def max_size_def pool_new_def Let_def)
  show ?thesis
  proof (cases "permits pool = 0")
    case False
    with free_permit_moves [OF assms(4) pool(1)] show ?thesis by blast
  next
    case True
    with ok(2) pool assms(5) obtain a where a: "p = Shared a"
      by (cases p) (auto simp: max_size_def pool_new_def Let_def)
    then have "map_of (nodes s) a = Some pool" using pool(1) by simp
    from cluster_users.exhausted_pool_in_use [OF reach [unfolded cluster_reach_def] this] True pool(2) assms(5)
    obtain m where m: "m \<in> set ts" "a \<in> fst ` set (task_guards m) \<or> a \<in> set (task_dialling m)" by (auto simp: available_def)
    moreover have "task_guards m \<noteq> [] \<or> task_dialling m \<noteq> []" using m(2) by auto
    with holder_waits have "task_waits m = [] \<or> following m" by blast
    ultimately show ?thesis using a by blast
  qed
qed

theorem only_redirected_pipelines_block_witness:
  "\<exists>l' s'. cluster_move (documented_crates (\<lambda>_. True))
     (Command [''PING''] (Commanding (Running (Direct MAX_REDIRECTS ''a:1'') (Wait (Shared ''a:1''))))) two_nodes l' s'"
  using only_redirected_pipelines_block [OF two_nodes_new,
      of "[Command [''PING''] (Commanding (Running (Direct MAX_REDIRECTS ''a:1'') (Wait (Shared ''a:1''))))]" two_nodes
        "Command [''PING''] (Commanding (Running (Direct MAX_REDIRECTS ''a:1'') (Wait (Shared ''a:1''))))" "Shared ''a:1''"]
    two_nodes_wait by (auto simp: default_config_def)

text \<open>
  C19: Such pipelines do block each other. A pipeline keeps the connection of its group while a
  redirected command waits for a connection to another node. If the node \<open>a\<close> may answer \<open>x\<close>
  with MOVED to \<open>b\<close> and \<open>b\<close> may answer \<open>y\<close> with MOVED to \<open>a\<close>, then for every pool size as many
  pipelines of \<open>x\<close> and of \<open>y\<close> can get into a state in which each waits for a connection that the
  others hold. Whatever happens later, none of them ever makes another step.
\<close>

theorem redirected_pipelines_deadlock:
  assumes "cluster_new C seeds config replicas envs = Some (Ok s0)" and "target_addr s0 x = a" "target_addr s0 y = b"
    and "a \<noteq> b" "a \<in> fst ` set (nodes s0)" "b \<in> fst ` set (nodes s0)"
    and "sends_away C config a x b" "sends_away C config b y a"
  shows "\<exists>ts s. cluster_reach C (s0\<lparr>env_script := []\<rparr>) (ts, s) \<and> length ts = 2 * cfg_pool_size config \<and> list_all following ts \<and>
    (\<forall>t. (task_step (cluster_move C) cluster_call)\<^sup>*\<^sup>* (ts, s) t \<longrightarrow>
      take (length ts) (fst t) = ts \<and> (\<forall>l\<in>set ts. \<forall>l' s'. \<not> cluster_move C l (snd t) l' s'))"
proof -
  let ?s0 = "s0\<lparr>env_script := []\<rparr>" and ?n = "cfg_pool_size config"
  note new = cluster_new_shared [OF assms(1)]
  have ok: "tables_ok config ?s0"
    unfolding new(1) by (rule cluster_reach_ok(1) [OF cluster_reach_start new(2)])
  have node: "node_pool_config config c = Some cfg \<Longrightarrow> map_of (nodes ?s0) c = Some (pool_new cfg) \<and> cfg_pool_size cfg = ?n \<and> c \<noteq> []"
    if c: "c \<in> fst ` set (nodes s0)" for c cfg
  proof -
    assume cfg: "node_pool_config config c = Some cfg"
    obtain pool where pool: "map_of (nodes ?s0) c = Some pool" using c by (cases "map_of (nodes ?s0) c") (auto simp: map_of_eq_None_iff)
    then obtain cfg' where "pool = pool_new cfg'" using cluster_fresh new(1) by metis
    moreover have "pool_config pool = cfg" using ok map_of_SomeD [OF pool] cfg by (auto simp: tables_ok_def)
    moreover have "cfg_pool_size cfg = ?n" "c \<noteq> []" using cfg by (auto simp: node_pool_config_def rsplit_once_def split: option.splits)
    ultimately show ?thesis using pool by (simp add: pool_new_def Let_def)
  qed
  have targets: "target_addr ?s0 x = a" "target_addr ?s0 y = b" using assms(2,3) target_addr_cong [of ?s0 s0] by simp_all
  obtain cfg_a d conn_a conn_a' msg_a slot_a where a: "node_pool_config config a = Some cfg_a" "create_connection C d cfg_a = Some (Ok conn_a)"
    "execute_str C x conn_a = Some (Ok (Error msg_a), conn_a')" "fst (from_error_msg msg_a) = Moved slot_a b"
    using assms(7) by (auto simp: sends_away_def)
  obtain cfg_b d' conn_b conn_b' msg_b slot_b where b: "node_pool_config config b = Some cfg_b" "create_connection C d' cfg_b = Some (Ok conn_b)"
    "execute_str C y conn_b = Some (Ok (Error msg_b), conn_b')" "fst (from_error_msg msg_b) = Moved slot_b a"
    using assms(8) by (auto simp: sends_away_def)
  note na = node [OF assms(5) a(1)] and nb = node [OF assms(6) b(1)]
  let ?ts = "replicate ?n (stranded x a conn_a' b) @ replicate ?n (stranded y b conn_b' a)"
  obtain s where "(task_step (cluster_move C) cluster_call)\<^sup>*\<^sup>* ([], ?s0) (?ts, s)"
    using circular_wait [of ?s0 a cfg_a b cfg_b x y C d conn_a msg_a conn_a' slot_a d' conn_b msg_b conn_b' slot_b] na nb a b assms(4) targets by auto
  then have reach: "cluster_reach C ?s0 (?ts, s)"
    unfolding cluster_reach_def by (rule task_runs.reachable_run) (rule task_reachable.start)
  moreover have "deadlocked ?n ?ts" by (rule stranded_deadlocked) simp_all
  from deadlocked_forever [OF _ new(2) this, of C replicas "[]" s] reach new(1)
  have "\<forall>t. (task_step (cluster_move C) cluster_call)\<^sup>*\<^sup>* (?ts, s) t \<longrightarrow>
      take (length ?ts) (fst t) = ?ts \<and> (\<forall>l\<in>set ?ts. \<forall>l' s'. \<not> cluster_move C l (snd t) l' s')" by (metis append_Nil2)
  moreover have "list_all following ?ts" by (auto simp: list_all_iff stranded_def)
  ultimately show ?thesis by (intro exI [of _ ?ts] exI [of _ s]) simp
qed

theorem redirected_pipelines_deadlock_witness:
  "\<exists>ts s. cluster_reach (documented_crates (\<lambda>_. True)) two_nodes (ts, s) \<and> length ts = 16 \<and> list_all following ts \<and>
     (\<forall>l\<in>set ts. \<forall>l' s'. \<not> cluster_move (documented_crates (\<lambda>_. True)) l s l' s')"
  using redirected_pipelines_deadlock [OF two_nodes_new two_nodes_targets _ _ _ two_nodes_send_away]
  by (simp add: two_nodes_def default_config_def) (metis rtranclp.rtrancl_refl snd_conv)

end
