(* ===== verification/Cluster_Alone.thy ===== *)
theory Cluster_Alone
  imports Cluster_Tasks
begin

text \<open>
  The sequential model of the cluster router (\<open>Cluster\<close>) against the interleaved one
  (\<open>Cluster_Tasks\<close>): whatever a command, a pipeline or a tick of the refresh returns there, the
  machine of the task returns too, when no other task gets in between. So the results about one
  call at a time are results about the runs of the concurrent router in which calls do not overlap.
\<close>

section \<open>A call alone\<close>

text \<open>What the sequential model shares with the concurrent one: everything but the script of the network.\<close>

definition tables :: "ClusterRouter \<Rightarrow> ClusterRouter" where
  "tables s = s\<lparr>env_script := []\<rparr>"

lemma tables_simps [simp]:
  "nodes (tables s) = nodes s" "slot_map (tables s) = slot_map s" "cluster_config (tables s) = cluster_config s"
  "read_from_replicas (tables s) = read_from_replicas s" "tables (s\<lparr>env_script := es\<rparr>) = tables s"
  by (simp_all add: tables_def)

lemma tables_updates [simp]:
  "tables (s\<lparr>nodes := ns\<rparr>) = tables s\<lparr>nodes := ns\<rparr>" "tables (s\<lparr>slot_map := m\<rparr>) = tables s\<lparr>slot_map := m\<rparr>"
  "tables (update_map slot a s) = update_map slot a (tables s)" "tables (put_pool a pool s) = put_pool a pool (tables s)"
  "put_pool a pool (s\<lparr>slot_map := m\<rparr>) = put_pool a pool s\<lparr>slot_map := m\<rparr>"
  by (cases s; simp add: tables_def update_map_def put_pool_def)+

lemma target_addr_tables [simp]: "target_addr (tables s) args = target_addr s args"
  by (rule target_addr_cong) simp_all

lemma put_pool_twice [simp]: "put_pool a pool (put_pool a q s) = put_pool a pool s"
  by (simp add: put_pool_def) (rule arg_cong2 [where f = "\<lambda>ns s. s\<lparr>nodes := ns\<rparr>"], auto)

lemma arc_put_slot_map [simp]: "arc_put pool p (s\<lparr>slot_map := m\<rparr>) = arc_put pool p s\<lparr>slot_map := m\<rparr>"
  by (cases p) simp_all

text \<open>The \<open>Arc\<close> a call gets for an address.\<close>

fun fits :: "ConnectionConfig \<Rightarrow> string \<Rightarrow> arc \<Rightarrow> bool" where
  "fits config a (Shared b) \<longleftrightarrow> b = a \<and> node_pool_config config a \<noteq> None"
| "fits config a (Own pool) \<longleftrightarrow> node_pool_config config a = None"

abbreviation in_order :: "ConnectionConfig \<Rightarrow> (string \<Rightarrow> nat) \<Rightarrow> ClusterRouter \<Rightarrow> bool" where
  "in_order \<equiv> cluster_ok (\<lambda>ranges. sorted (map range_start ranges))"

lemma private_unknown: "in_order config h s \<Longrightarrow> node_pool_config config a = None \<Longrightarrow> map_of (nodes s) a = None"
  by (auto simp: cluster_ok_def pools_ok_def map_of_eq_None_iff)

lemma put_pool_unknown: "map_of (nodes s) a = None \<Longrightarrow> put_pool a pool s = s"
proof -
  assume "map_of (nodes s) a = None"
  then have "map (\<lambda>(b, p). if b = a then (b, pool) else (b, p)) (nodes s) = nodes s"
    by (intro map_idI) (auto simp: map_of_eq_None_iff rev_image_eqI)
  then show ?thesis by (simp add: put_pool_def)
qed

lemma arc_put_tables:
  assumes "in_order config h s" "fits config a p"
  shows "arc_put pool p (tables s) = tables (put_pool a pool s)"
  using assms by (cases p) (simp_all add: private_unknown put_pool_unknown)

lemma fits_own [simp]: "fits config a (arc_own pool p) = fits config a p"
  by (cases p) simp_all

lemma fits_known:
  assumes "in_order config h s" "fits config a p" "0 < h a"
  shows "\<exists>pool. arc_pool p (s\<lparr>slot_map := m\<rparr>) = Some pool \<and> (p = Shared a \<longrightarrow> pool = current_pool a s)"
proof (cases p)
  case (Shared b)
  with assms held_known [OF assms(1,3)] obtain pool where "map_of (nodes s) a = Some pool"
    by (cases "map_of (nodes s) a") (auto simp: map_of_eq_None_iff)
  with Shared assms(2) show ?thesis by (simp add: current_pool_def)
qed simp

lemma drop_solo:
  assumes "in_order config h s" "fits config a p" "0 < h a"
  shows "lease_drop p conn (tables s\<lparr>slot_map := m\<rparr>) (tables (node_drop a t conn s)\<lparr>slot_map := m\<rparr>)"
proof -
  obtain pool where pool: "arc_pool p (tables s\<lparr>slot_map := m\<rparr>) = Some pool" "p = Shared a \<longrightarrow> pool = current_pool a s"
    using fits_known [OF assms] by (cases p) auto
  have "arc_put (guard_drop t (Some conn) pool) p (tables s\<lparr>slot_map := m\<rparr>) = tables (node_drop a t conn s)\<lparr>slot_map := m\<rparr>"
  proof (cases p)
    case (Shared b)
    with assms(2) pool(2) show ?thesis by (simp add: node_drop_def)
  next
    case (Own q)
    with assms show ?thesis by (simp add: node_drop_def private_unknown put_pool_unknown)
  qed
  with lease_drop.Drop [OF pool(1), of conn t] show ?thesis by simp
qed

lemma drop_solo_tables:
  assumes "in_order config h s" "fits config a p" "0 < h a"
  shows "lease_drop p conn (tables s) (tables (node_drop a t conn s))"
proof -
  have "tables s\<lparr>slot_map := slot_map s\<rparr> = tables s" "tables (node_drop a t conn s)\<lparr>slot_map := slot_map s\<rparr> = tables (node_drop a t conn s)"
    by (simp_all add: node_drop_def tables_def put_pool_def)
  with drop_solo [OF assms, of conn "slot_map s" t] show ?thesis by metis
qed

lemma node_get_solo:
  assumes "node_get C a s = Some (r, s')" and "in_order config h s" "r \<noteq> Panic"
  shows "r = Ok (conn, t) \<Longrightarrow> \<exists>p. fits config a p \<and> solo (lease_step C) (Want a, tables s) (Hold p conn, tables s')"
    and "r = Err e \<Longrightarrow> \<exists>l g. solo (lease_step C) (Want a, tables s) (l, g) \<and> lease_fails C l g e (tables s')"
proof -
  obtain env envs where env: "env_script s = env # envs"
    using assms(1) by (auto simp: node_get_def split: list.splits)
  have c: "cluster_config s = config" using assms(2) by (simp add: cluster_ok_def)
  let ?ns = "ensure_pool_for config (nodes s) a"
  let ?s = "s\<lparr>env_script := envs, nodes := ?ns\<rparr>"
  define pool where "pool = unwrap_or (pool_new config) (map_of ?ns a)"
  define p where "p = pool_arc a (tables s)"
  have ok: "in_order config h ?s" using assms(2) by (auto simp: cluster_ok_def intro: ensure_pool_for_ok)
  have fit: "fits config a p"
    using private_unknown [OF assms(2), of a] c ensure_pool_for_ok(2) [of config h "nodes s" a] assms(2)
    by (auto simp: p_def pool_arc_def get_pool_def Let_def ensure_pool_for_def cluster_ok_def split: option.splits)
  have pool_p: "arc_pool p (tables ?s) = Some pool"
    using c by (auto simp: p_def pool_def pool_arc_def get_pool_def Let_def)
  have get: "lease_step C (Want a) (tables s) (Wait p) (tables ?s)"
    using lease_step.Get [of C a "tables s"] c by (simp add: p_def get_pool_def Let_def)
  obtain r1 pool1 where g: "pool_get C (at_get env) (dialing env) pool = Some (r1, pool1)" "s' = put_pool a pool1 ?s"
    "r = (case r1 of Ok conn \<Rightarrow> Ok (conn, at_drop env) | Err e \<Rightarrow> Err e | Panic \<Rightarrow> Panic)"
    using assms(1) env c by (auto simp: node_get_def get_pool_def Let_def pool_def split: option.splits result.splits)
  have put: "arc_put q p' (tables ?s) = tables (put_pool a q ?s)" if "fits config a p'" for q p'
    by (rule arc_put_tables [OF ok that])
  obtain o1 pool2 where acq: "pool_acquire (at_get env) pool = Some (o1, pool2)"
    using g(1) by (auto simp: pool_get_def split: option.splits)
  let ?p = "arc_own pool2 p" and ?g = "tables (put_pool a pool2 ?s)"
  have "arc_pool ?p ?g = Some pool2"
    using pool_p fit put [OF fit, of pool2] by (cases p) (auto simp: map_of_put_pool)
  moreover have "arc_put q ?p ?g = tables (put_pool a q ?s)" for q
    using fit put [of ?p] by (cases p) simp_all
  moreover have "solo (lease_step C) (Want a, tables s) (Hold ?p conn, ?g)" if "o1 = Some conn" for conn
    using solo_first [where move = "lease_step C", OF get] solo_step [where move = "lease_step C", OF lease_step.Reuse [OF pool_p]]
      acq that put [OF fit] by metis
  moreover have "solo (lease_step C) (Want a, tables s) (Open ?p, ?g)" if "o1 = None"
    using solo_first [where move = "lease_step C", OF get] solo_step [where move = "lease_step C", OF lease_step.Dial [OF pool_p]]
      acq that put [OF fit] by metis
  moreover note connected = lease_step.Connected [of ?p ?g pool2 C "dialing env"] and refused = lease_fails.Refused [of ?p ?g pool2 C "dialing env"]
  ultimately show "r = Ok (conn, t) \<Longrightarrow> \<exists>p. fits config a p \<and> solo (lease_step C) (Want a, tables s) (Hold p conn, tables s')"
    and "r = Err e \<Longrightarrow> \<exists>l g. solo (lease_step C) (Want a, tables s) (l, g) \<and> lease_fails C l g e (tables s')"
    using g acq fit
    by (auto simp: pool_get_def split: option.splits result.splits)
       (metis fits_own solo_step solo_trans)+
qed

lemma follow_same_map:
  assumes "follow e v s = (onward, g)" and "slot_map s' = slot_map s"
  shows "follow e v s' = (onward, s'\<lparr>slot_map := slot_map g\<rparr>)" "g = s\<lparr>slot_map := slot_map g\<rparr>"
  using assms
  by (cases e; auto simp: update_map_def split: option.splits prod.splits RedisErrorKind.splits nat.splits;
      metis ClusterRouter.surjective ClusterRouter.update_convs(2))+

text \<open>The guard of an errand, and the drop at its end, with whatever slot map the reply has left.\<close>

lemma on_node_held:
  assumes "node_get C (errand_addr e) s = Some (Ok (conn, t), s1)" and "in_order config h s"
  obtains p where "solo (run_step C args) (run_errand e, tables s) (Running e (Hold p conn), tables s1)"
    and "\<And>conn' m. lease_drop p conn' (tables s1\<lparr>slot_map := m\<rparr>) (tables (node_drop (errand_addr e) t conn' s1)\<lparr>slot_map := m\<rparr>)"
    and "\<And>conn'. lease_drop p conn' (tables s1) (tables (node_drop (errand_addr e) t conn' s1))"
proof -
  let ?a = "errand_addr e"
  obtain p where p: "fits config ?a p" "solo (lease_step C) (Want ?a, tables s) (Hold p conn, tables s1)"
    using node_get_solo(1) [OF assms] by blast
  have ok: "in_order config (h(?a := Suc (h ?a))) s1" using node_get_ok [OF assms(2,1)] by simp
  have "solo (run_step C args) (run_errand e, tables s) (Running e (Hold p conn), tables s1)"
    unfolding run_errand_def by (rule solo_embed [OF p(2)]) (rule run_step.Lease)
  with that drop_solo [OF ok p(1)] drop_solo_tables [OF ok p(1)] show thesis by simp
qed

lemma on_node_reply:
  assumes "on_node C (errand_addr e) (exchange C e args) s = Some (Ok v, s')" and "in_order config h s"
    and "follow e v (tables s') = (onward, g')"
  shows "solo (run_step C args) (run_errand e, tables s) (run_onward onward, g')"
proof -
  note step = solo_step [where move = "run_step C args"]
  obtain conn t conn' s1 where u: "node_get C (errand_addr e) s = Some (Ok (conn, t), s1)"
    "exchange C e args conn = Some (Ok v, conn')" "s' = node_drop (errand_addr e) t conn' s1"
    using assms(1) by (auto simp: on_node_def cl_bind_def split: option.splits result.splits)
  obtain p where p: "solo (run_step C args) (run_errand e, tables s) (Running e (Hold p conn), tables s1)"
    "\<And>m. lease_drop p conn' (tables s1\<lparr>slot_map := m\<rparr>) (tables s'\<lparr>slot_map := m\<rparr>)"
    using on_node_held [OF u(1) assms(2)] u(3) by metis
  have "slot_map (tables s1) = slot_map (tables s')" using u(3) by (simp add: node_drop_def)
  note m = follow_same_map [OF assms(3) this]
  from p(1) step [OF run_step.Reply [OF u(2) m(1)]] step [OF run_step.Close [OF p(2) [of "slot_map g'"]]]
  show ?thesis by (metis m(2) solo_trans)
qed

lemma on_node_error:
  assumes "on_node C (errand_addr e) (exchange C e args) s = Some (Err err, s')" and "in_order config h s"
  shows "solo (run_step C args) (run_errand e, tables s) (Ran (Err err), tables s')"
proof -
  note step = solo_step [where move = "run_step C args"]
  consider conn t conn' s1 where "node_get C (errand_addr e) s = Some (Ok (conn, t), s1)"
      "exchange C e args conn = Some (Err err, conn')" "s' = node_drop (errand_addr e) t conn' s1"
    | "node_get C (errand_addr e) s = Some (Err err, s')"
    using assms(1) by (auto simp: on_node_def cl_bind_def split: option.splits result.splits)
  then show ?thesis
  proof cases
    case 1
    obtain p where p: "solo (run_step C args) (run_errand e, tables s) (Running e (Hold p conn), tables s1)" "lease_drop p conn' (tables s1) (tables s')"
      using on_node_held [OF 1(1) assms(2)] 1(3) by metis
    from p(1) step [OF run_step.Broken [OF 1(2)]] step [OF run_step.Close [OF p(2), where onward = "Answer (Err err)"]]
    show ?thesis by (metis run_onward.simps(1) solo_trans)
  next
    case 2
    obtain l g where l: "solo (lease_step C) (Want (errand_addr e), tables s) (l, g)" "lease_fails C l g err (tables s')"
      using node_get_solo(2) [OF 2 assms(2)] by auto
    from solo_embed [where f = "Running e" and move = "run_step C args", OF l(1) run_step.Lease] step [OF run_step.NoLease [OF l(2)]]
    show ?thesis by (metis run_errand_def solo_trans)
  qed
qed

lemma ask_node_solo:
  assumes "ask_node C a args s = Some (r, s')" and "in_order config h s" "r \<noteq> Panic"
  shows "solo (run_step C args) (run_errand (Asked a), tables s) (Ran r, tables s')"
proof -
  have o: "on_node C (errand_addr (Asked a)) (exchange C (Asked a) args) s = Some (r, s')"
    using assms(1) by (simp add: ask_node_def)
  show ?thesis
    using on_node_reply [of C "Asked a"] on_node_error [of C "Asked a"] o assms(2,3) by (cases r) fastforce+
qed

lemma execute_on_solo:
  assumes "execute_on C n a args s = Some (r, s')" and "in_order config h s" "r \<noteq> Panic"
  shows "solo (run_step C args) (run_errand (Direct n a), tables s) (Ran r, tables s')"
  using assms
proof (induction n arbitrary: a s)
  case (0 a s)
  let ?e = "Direct 0 a"
  obtain x s1 where x: "on_node C (errand_addr ?e) (exchange C ?e args) s = Some (x, s1)"
    using 0(1) by (subst (asm) execute_on.simps) (auto simp: cl_bind_def split: option.splits)
  have "follow ?e v (tables s1) = (Answer r, tables s')" if "x = Ok v" for v
    using 0(1) x that by (subst (asm) execute_on.simps)
      (auto simp: cl_bind_def split: option.splits prod.splits RedisErrorKind.splits)
  moreover have "x = r \<and> s1 = s'" if "\<not> is_ok x"
    using 0(1) x that by (subst (asm) execute_on.simps) (cases x; simp add: cl_bind_def)
  ultimately show ?case
    using on_node_reply [of C ?e] on_node_error [of C ?e] x 0(2,3) by (cases x) fastforce+
next
  case (Suc n a s)
  let ?e = "Direct (Suc n) a"
  obtain x s1 where x: "on_node C (errand_addr ?e) (exchange C ?e args) s = Some (x, s1)"
    using Suc.prems(1) by (subst (asm) execute_on.simps) (auto simp: cl_bind_def split: option.splits)
  have ok: "in_order config h s1" using keepsD [OF on_node_ok Suc.prems(2) x] .
  note first = on_node_reply [OF _ Suc.prems(2), of C ?e args]
  show ?case
  proof (cases x)
    case (Ok v)
    note run = Suc.prems(1) [unfolded execute_on.simps [of C "Suc n"]]
    consider slot b msg where "reply_kind v = Some (Moved slot b, msg)" | slot b msg where "reply_kind v = Some (Ask slot b, msg)"
      | msg where "reply_kind v = Some (TryAgain, msg)" | "follow ?e v (tables s1) = (Answer r, tables s')"
      using run x Ok by (auto simp: cl_bind_def split: option.splits prod.splits RedisErrorKind.splits)
    then show ?thesis
    proof cases
      case (1 slot b msg)
      then have "execute_on C n b args (update_map slot b s1) = Some (r, s')" using run x Ok by (simp add: cl_bind_def)
      from Suc.IH [OF this sorted_starts.update_map_ok [OF ok] Suc.prems(3)] first x Ok 1
      show ?thesis by (force elim: solo_trans)
    next
      case (2 slot b msg)
      then have "ask_node C b args s1 = Some (r, s')" using run x Ok by (simp add: cl_bind_def)
      from ask_node_solo [OF this ok Suc.prems(3)] first x Ok 2 show ?thesis by (force elim: solo_trans)
    next
      case (3 msg)
      then have "execute_on C n a args s1 = Some (r, s')" using run x Ok by (simp add: cl_bind_def)
      from Suc.IH [OF this ok Suc.prems(3)] first x Ok 3 show ?thesis by (force elim: solo_trans)
    next
      case 4
      with first x Ok show ?thesis by fastforce
    qed
  qed (use Suc.prems(1,3) x on_node_error [of C ?e, OF _ Suc.prems(2)] in \<open>auto simp: cl_bind_def execute_on.simps [of C "Suc n"]\<close>)
qed

text \<open>What one reply of a group leads to, and where that leaves the pipeline.\<close>

definition reply_follow :: "crates \<Rightarrow> RespValue \<Rightarrow> string list \<Rightarrow> RespValue cluster_io" where
  "reply_follow C resp cmd_args s =
     (case reply_kind resp of
        Some (Moved slot b, msg) \<Rightarrow> execute_on C (MAX_REDIRECTS - 1) b cmd_args (update_map slot b s)
      | Some (Ask slot b, msg) \<Rightarrow> ask_node C b cmd_args s
      | _ \<Rightarrow> Some (Ok resp, s))"

fun after_reply :: "command_group \<Rightarrow> groups \<Rightarrow> replies \<Rightarrow> arc \<Rightarrow> RedisConnection \<Rightarrow> nat \<Rightarrow> RespValue res \<Rightarrow> pipe_stage" where
  "after_reply grp groups results p conn idx (Ok v) = Reading grp groups (results[idx := Some v]) p conn"
| "after_reply grp groups results p conn idx (Err e) = GroupDone (Err e) groups p conn"
| "after_reply grp groups results p conn idx Panic = GroupDone Panic groups p conn"

lemma reply_solo:
  assumes "read_response C conn = Some (Ok resp, conn1)" and "reply_follow C resp cmd_args s = Some (y, s1)"
    and "in_order config h s" "y \<noteq> Panic"
  shows "solo (pipe_move C) (Reading ((idx, cmd_args) # grp) groups results p conn, tables s) (after_reply grp groups results p conn1 idx y, tables s1)"
proof (cases "redirect_of resp (tables s)")
  case None
  then have "y = Ok resp" "s1 = s"
    using assms(2) by (auto simp: reply_follow_def redirect_of_def split: option.splits prod.splits RedisErrorKind.splits)
  with solo_step [where move = "pipe_move C", OF pipe_move.Read [OF assms(1) None]] show ?thesis by simp
next
  case (Some eg)
  obtain e g where eg: "eg = (e, g)" by (cases eg)
  let ?R = "Redirected idx cmd_args grp groups results p conn1"
  have "solo (run_step C cmd_args) (run_errand e, g) (Ran y, tables s1)"
    using assms(2,4) Some eg execute_on_solo [OF _ sorted_starts.update_map_ok [OF assms(3)]] ask_node_solo [OF _ assms(3)]
    by (auto simp: reply_follow_def redirect_of_def split: option.splits prod.splits RedisErrorKind.splits)
  from solo_embed [where move = "pipe_move C" and f = ?R, OF this pipe_move.Follow]
    solo_step [where move = "pipe_move C", OF pipe_move.ReadRedirect [OF assms(1) Some [unfolded eg], of idx cmd_args grp groups results p]]
  have "solo (pipe_move C) (Reading ((idx, cmd_args) # grp) groups results p conn, tables s) (?R (Ran y), tables s1)"
    by (metis solo_trans)
  moreover have "pipe_move C (?R (Ran y)) (tables s1) (after_reply grp groups results p conn1 idx y) (tables s1)"
    using assms(4) pipe_move.Followed pipe_move.FollowFails by (cases y) simp_all
  ultimately show ?thesis by (metis solo_step solo_trans)
qed

text \<open>A group: its replies are read while the guard is held, whatever the redirected commands do.\<close>

lemma read_group_solo:
  assumes "read_group C grp results conn s = Some (r, conn', s')" and "in_order config h s" "r \<noteq> Panic"
  shows "solo (pipe_move C) (Reading grp groups results p conn, tables s) (GroupDone r groups p conn', tables s')"
  using assms
proof (induction grp arbitrary: results conn s)
  case Nil
  then show ?case using solo_step [where move = "pipe_move C", OF pipe_move.ReadAll] by auto
next
  case (Cons ic grp results conn s)
  obtain idx cmd_args where ic: "ic = (idx, cmd_args)" by (cases ic)
  obtain x conn1 where x: "read_response C conn = Some (x, conn1)"
    using Cons.prems(1) ic by (auto split: option.splits)
  show ?case
  proof (cases x)
    case (Ok resp)
    obtain y s1 where y: "reply_follow C resp cmd_args s = Some (y, s1)"
      using Cons.prems(1) ic x Ok by (auto simp: reply_follow_def split: option.split_asm)
    have ok: "in_order config h s1" by (rule sorted_starts.redirected_ok [OF Cons.prems(2) y [unfolded reply_follow_def]])
    have y_fine: "y \<noteq> Panic" using Cons.prems(1,3) ic x Ok y by (auto simp: reply_follow_def)
    have "solo (pipe_move C) (after_reply grp groups results p conn1 idx y, tables s1) (GroupDone r groups p conn', tables s')"
    proof (cases y)
      case Ok': (Ok v)
      with Cons.prems(1) ic x Ok y have "read_group C grp (results[idx := Some v]) conn1 s1 = Some (r, conn', s')"
        by (simp add: reply_follow_def)
      from Cons.IH [OF this ok Cons.prems(3)] Ok' show ?thesis by simp
    qed (use Cons.prems(1) ic x Ok y y_fine in \<open>auto simp: reply_follow_def\<close>)
    with reply_solo [OF x [unfolded Ok] y Cons.prems(2) y_fine] ic show ?thesis by (metis solo_trans)
  qed (use Cons.prems(1,3) ic x solo_step [where move = "pipe_move C", OF pipe_move.ReadFails] in auto)
qed

text \<open>The whole life of the guard of a group.\<close>

fun after_group :: "groups \<Rightarrow> replies res \<Rightarrow> pipe_stage" where
  "after_group groups (Ok results) = Choosing groups results"
| "after_group groups (Err e) = Returned (Err e)"
| "after_group groups Panic = Returned Panic"

lemma held_group_solo:
  assumes "node_get C a s = Some (Ok (conn, t), s1)" and "run_group C (a, grp) results s = Some (r, s')" "a \<noteq> []"
    and "in_order config h s" "r \<noteq> Panic" and p: "fits config a p"
  shows "solo (pipe_move C) (Leasing grp groups results (Hold p conn), tables s1) (after_group groups r, tables s')"
proof -
  note step = solo_step [where move = "pipe_move C"]
  let ?h = "h(a := Suc (h a))"
  have ok: "in_order config ?h s1" using node_get_ok [OF assms(4,1)] by simp
  have drop: "lease_drop p conn2 (tables s2) (tables (node_drop a t conn2 s2))" if "in_order config ?h s2" for conn2 s2
    by (rule drop_solo_tables [OF that p]) simp
  have close: "pipe_move C (GroupDone r groups p conn2) (tables s2) (after_group groups r) (tables s')"
    if "in_order config ?h s2" "s' = node_drop a t conn2 s2" for conn2 s2
    using that drop [OF that(1), of conn2] assms(5) pipe_move.Next pipe_move.Fail by (cases r) auto
  obtain y conn1 where y: "send_group C grp conn = Some (y, conn1)"
    using assms(1-3) by (auto simp: run_group_def cl_bind_def split: option.splits)
  show ?thesis
  proof (cases y)
    case (Ok u)
    with assms(1-3) y obtain conn2 s2 where
      g: "read_group C grp results conn1 s1 = Some (r, conn2, s2)" "s' = node_drop a t conn2 s2"
      by (auto simp: run_group_def cl_bind_def split: option.splits)
    from step [OF pipe_move.Send [OF y [unfolded Ok]]] read_group_solo [OF g(1) ok assms(5)]
      step [OF close [OF sorted_starts.read_group_ok [OF g(1) ok] g(2)]]
    show ?thesis by (metis solo_trans)
  next
    case (Err e)
    with assms(1-3) y have r: "r = Err e" "s' = node_drop a t conn1 s1" by (simp_all add: run_group_def cl_bind_def)
    from pipe_move.SendFails [OF y [unfolded Err], of groups results p "tables s1"] r(1)
    have "solo (pipe_move C) (Leasing grp groups results (Hold p conn), tables s1) (GroupDone r groups p conn1, tables s1)"
      by (simp add: solo_step)
    from solo_trans [OF this step [OF close [OF ok r(2)]]] show ?thesis .
  qed (use assms(1-3,5) y in \<open>simp add: run_group_def cl_bind_def\<close>)
qed

lemma run_group_solo:
  assumes "run_group C (a, grp) results s = Some (r, s')" and "in_order config h s" "r \<noteq> Panic"
  shows "solo (pipe_move C) (Choosing (before @ (a, grp) # after) results, tables s) (after_group (before @ after) r, tables s')"
proof (cases "a = []")
  case True
  with assms(1) solo_step [where move = "pipe_move C", OF pipe_move.Unowned [of C before grp after results "tables s"]] show ?thesis
    by (auto simp: run_group_def cl_return_def)
next
  case False
  note step = solo_step [where move = "pipe_move C"]
  note choose = step [OF pipe_move.Choose [OF False, of C before grp after results "tables s"]]
  note lift = solo_embed [where part = "lease_step C" and move = "pipe_move C" and f = "Leasing grp (before @ after) results", OF _ pipe_move.Lease]
  obtain x s1 where x: "node_get C a s = Some (x, s1)"
    using assms(1) False by (auto simp: run_group_def cl_bind_def split: option.splits)
  show ?thesis
  proof (cases x)
    case (Err e)
    then have r: "r = Err e" "s' = s1" using assms(1) False x by (simp_all add: run_group_def cl_bind_def)
    obtain l g where l: "solo (lease_step C) (Want a, tables s) (l, g)" "lease_fails C l g e (tables s1)"
      using node_get_solo(2) [OF x assms(2)] Err by auto
    from choose lift [OF l(1)] step [OF pipe_move.NoLease [OF l(2)]] r show ?thesis
      by (metis after_group.simps(2) solo_trans)
  next
    case (Ok ct)
    obtain conn t where ct: "ct = (conn, t)" by (cases ct)
    obtain p where p: "fits config a p" "solo (lease_step C) (Want a, tables s) (Hold p conn, tables s1)"
      using node_get_solo(1) [OF x assms(2)] Ok ct by auto
    note choose also note lift [OF p(2)]
    also note held_group_solo [OF x [unfolded Ok ct] assms(1) False assms(2,3) p(1)]
    finally show ?thesis .
  qed (use assms(1,3) False x in \<open>simp add: run_group_def cl_bind_def\<close>)
qed

lemma run_groups_solo:
  assumes "cl_bind (run_groups C gs results) (\<lambda>results. cl_return (Ok (map (unwrap_or Null) results))) s = Some (r, s')"
    and "in_order config h s" "r \<noteq> Panic" "mset gs = mset gs'"
  shows "solo (pipe_move C) (Choosing gs' results, tables s) (Returned r, tables s')"
  using assms
proof (induction gs arbitrary: gs' results s)
  case Nil
  then show ?case
    using solo_step [where move = "pipe_move C", OF pipe_move.Return [of C results "tables s"]] by (auto simp: cl_bind_def cl_return_def)
next
  case (Cons ag gs gs' results s)
  obtain a grp where ag: "ag = (a, grp)" by (cases ag)
  have "ag \<in> set gs'" using Cons.prems(4) by (metis list.set_intros(1) mset_eq_setD)
  then obtain before after where gs': "gs' = before @ ag # after" by (auto simp: in_set_conv_decomp)
  with Cons.prems(4) have rest: "mset gs = mset (before @ after)" by simp
  obtain x s1 where x: "run_group C (a, grp) results s = Some (x, s1)"
    using Cons.prems(1) ag by (auto simp: cl_bind_def split: option.splits)
  have ok: "in_order config h s1" by (rule keepsD [OF sorted_starts.run_group_ok Cons.prems(2) x])
  show ?case
  proof (cases x)
    case (Ok results')
    with Cons.prems(1) ag x have
      "cl_bind (run_groups C gs results') (\<lambda>results. cl_return (Ok (map (unwrap_or Null) results))) s1 = Some (r, s')"
      by (simp add: cl_bind_def)
    from Cons.IH [OF this ok Cons.prems(3) rest] run_group_solo [OF x Cons.prems(2), of before after] Ok gs' ag
    show ?thesis by (auto elim: solo_trans)
  next
    case (Err e)
    with Cons.prems(1) ag x have "r = Err e" "s' = s1" by (simp_all add: cl_bind_def)
    with run_group_solo [OF x Cons.prems(2), of before after] Err gs' ag show ?thesis by simp
  next
    case Panic
    with Cons.prems(1,3) ag x show ?thesis by (simp add: cl_bind_def)
  qed
qed

lemma grouping_solo:
  "solo (pipe_move C) (Grouping idx cmds groups, tables s)
     (Choosing (group_commands s idx cmds groups) (replicate (idx + length cmds) None), tables s)"
proof (induction cmds arbitrary: idx groups)
  case Nil
  then show ?case using solo_step [where move = "pipe_move C", OF pipe_move.Grouped] by simp
next
  case (Cons cmd cmds)
  from solo_first [where move = "pipe_move C", OF pipe_move.Group] Cons show ?case by fastforce
qed

lemma cluster_pipeline_solo:
  assumes "cluster_pipeline C order cmds s = Some (r, s')" and "in_order config h s" "r \<noteq> Panic" "\<And>gs. mset (order gs) = mset gs"
  shows "solo (cluster_move C) (Pipe (Grouping 0 cmds []), tables s) (Pipe (Returned r), tables s')"
proof -
  have "solo (pipe_move C) (Choosing (group_commands s 0 cmds []) (replicate (length cmds) None), tables s) (Returned r, tables s')"
    using run_groups_solo [OF _ assms(2,3,4)] assms(1) by (simp add: cluster_pipeline_def Let_def)
  with grouping_solo [of C 0 cmds "[]" s] have "solo (pipe_move C) (Grouping 0 cmds [], tables s) (Returned r, tables s')"
    by (simp add: solo_trans)
  from solo_embed [where f = Pipe and move = "cluster_move C", OF this cluster_move.Pipes] show ?thesis .
qed

lemma execute_routed_solo:
  assumes "execute_routed C args s = Some (r, s')" and "in_order config h s" "r \<noteq> Panic"
  shows "solo (cluster_move C) (Command args Routing, tables s) (Command args (Replied r), tables s')"
proof -
  note step = solo_step [where move = "command_move C args"]
  consider "args = []" | "args \<noteq> []" "target_addr s args = []" | "args \<noteq> []" "target_addr s args \<noteq> []" by blast
  then have "solo (command_move C args) (Routing, tables s) (Replied r, tables s')"
  proof cases
    case 1
    with assms(1) step [OF command_move.Empty] show ?thesis by (auto simp: execute_routed_def)
  next
    case 2
    with assms(1) step [OF command_move.NoNode] show ?thesis by (auto simp: execute_routed_def)
  next
    case 3
    let ?e = "Direct MAX_REDIRECTS (target_addr s args)"
    have "execute_on C MAX_REDIRECTS (target_addr s args) args s = Some (r, s')"
      using assms(1) 3 by (simp add: execute_routed_def Let_def)
    from execute_on_solo [OF this assms(2,3)]
    have "solo (command_move C args) (Commanding (run_errand ?e), tables s) (Commanding (Ran r), tables s')"
      by (rule solo_embed) (rule command_move.Run)
    with step [OF command_move.Route [OF 3(1), of "tables s"]] step [OF command_move.Finish] 3 show ?thesis
      by (metis solo_trans target_addr_tables)
  qed
  from solo_embed [where f = "Command args" and move = "cluster_move C", OF this cluster_move.Commands] show ?thesis .
qed

lemma refresh_tick_solo:
  assumes "refresh_tick C order s = Some (r, s')" and "r \<noteq> Panic" "\<And>xs. set (order xs) \<subseteq> set xs"
  shows "solo (cluster_move C) (Refresh Sleeping, tables s) (Refresh Sleeping, tables s')"
proof (cases "order (map fst (nodes s))")
  case Nil
  with assms(1) show ?thesis by (simp add: refresh_tick_def)
next
  case (Cons addr addrs)
  obtain x s1 where x: "refresh_slots_from C addr s = Some (x, s1)" "x \<noteq> Panic" "s' = s1"
    using assms(1,2) Cons by (auto simp: refresh_tick_def split: option.splits result.splits)
  have addr: "addr \<in> fst ` set (nodes (tables s))" using assms(3) [of "map fst (nodes s)"] Cons by simp
  show ?thesis
  proof (cases x)
    case (Ok u)
    let ?m = "slot_map s1" and ?g = "tables s\<lparr>nodes := ensure_pools (cluster_config s) (slot_map s1) (nodes s)\<rparr>"
    have r: "refreshed s s1" using refresh_result [OF x(1)] Ok by simp
    obtain env envs s2 where env: "env_script s = env # envs"
      and s2: "refresh_slots_from C addr (tables s\<lparr>env_script := [env]\<rparr>) = Some (Ok u, s2)" "slot_map s2 = ?m"
      using x(1) Ok
      by (auto simp: refresh_slots_from_def Let_def tables_def split: list.splits option.splits result.splits)
    have "solo (refresh_move C) (Sleeping, tables s) (Sleeping, ?g\<lparr>slot_map := ?m\<rparr>)"
      using solo_first [where move = "refresh_move C", OF refresh_move.Fetch [OF addr s2(1)]]
        solo_first [where move = "refresh_move C", OF refresh_move.Ensure [of C ?m "tables s"]]
        solo_step [where move = "refresh_move C", OF refresh_move.Install [of C ?m ?g]] s2(2) by simp
    moreover have "?g\<lparr>slot_map := ?m\<rparr> = tables s'"
      using r x(3) by (cases s1; cases s) (simp add: refreshed_def tables_def)
    ultimately show ?thesis using solo_embed [where f = Refresh and move = "cluster_move C", OF _ cluster_move.Refreshes] by simp
  next
    case (Err e)
    then have "tables s' = tables s" using refresh_result [OF x(1)] x(3) by (cases s; cases s') (simp add: untouched_def tables_def)
    then show ?thesis by simp
  qed (use x(2) in simp)
qed

section \<open>Properties\<close>

text \<open>
  C17: The sequential model of the cluster router is the concurrent one with a single task. In every
  state the router gets into, whenever a command, a pipeline or a tick of the background refresh
  returns there, the machine alone comes to the same result and the same tables.
\<close>

theorem cluster_call_alone:
  assumes "cluster_new C seeds config replicas envs = Some (Ok s0)" and "cluster_reachable C s0 s"
  shows "(\<forall>args r s'. execute_routed C args s = Some (r, s') \<and> r \<noteq> Panic \<longrightarrow>
      solo (cluster_move C) (Command args Routing, tables s) (Command args (Replied r), tables s')) \<and>
    (\<forall>order cmds r s'. (\<forall>gs. mset (order gs) = mset gs) \<and> cluster_pipeline C order cmds s = Some (r, s') \<and> r \<noteq> Panic \<longrightarrow>
      solo (cluster_move C) (Pipe (Grouping 0 cmds []), tables s) (Pipe (Returned r), tables s')) \<and>
    (\<forall>order r s'. (\<forall>xs. set (order xs) \<subseteq> set xs) \<and> refresh_tick C order s = Some (r, s') \<and> r \<noteq> Panic \<longrightarrow>
      solo (cluster_move C) (Refresh Sleeping, tables s) (Refresh Sleeping, tables s'))"
proof -
  have ok: "in_order config (\<lambda>_. 0) s" by (rule sorted_starts.cluster_reachable_ok [OF assms])
  then show ?thesis
    using execute_routed_solo [OF _ ok] cluster_pipeline_solo [OF _ ok] refresh_tick_solo by blast
qed

theorem cluster_call_alone_witness:
  "\<exists>s'. solo (cluster_move (documented_crates (\<lambda>_. True))) (Command [''PING''] Routing, tables moved_cluster)
     (Command [''PING''] (Replied (Ok (SimpleString ''PONG''))), s')"
proof -
  from moved_cluster_runs obtain s' where
    "execute_routed (documented_crates (\<lambda>_. True)) [''PING''] moved_cluster = Some (Ok (SimpleString ''PONG''), s')" by blast
  with cluster_call_alone [OF moved_cluster_new cluster_reachable.start] show ?thesis by blast
qed

end
