(* ===== verification/Response.thy ===== *)
theory Response
  imports Resp_Values
begin

text \<open>
  \<open>src/src/response.rs\<close>: RESP to Python. \<open>resp_to_python\<close> and \<open>resp_to_python_decoded\<close>
  convert a parsed value; \<open>parse_to_python\<close> parses and converts in a single pass, with
  its own line reader, integer reader and limits on depth and counts.

  CPython is a parameter: the record \<open>python\<close> holds the interpreter functions whose result
  the code depends on. Memory for strings, bytes and floats is taken to be available, as
  the bindings abort the process otherwise.
\<close>

section \<open>Python objects\<close>

datatype pyobj =
    PyNone
  | PyStr string
  | PyBytes bytes
  | PyInt int
  | PyBool bool
  | PyFloat f64
  | PyList "pyobj list"
  | PyDict "(pyobj \<times> pyobj) list"
  | PySet "pyobj list"

text \<open>\<open>int(s)\<close>, \<open>PyLong_FromLongLong\<close>, \<open>PyList_New\<close>, \<open>d[k] = v\<close> and \<open>s.add(x)\<close>.\<close>

record python =
  py_int :: "string \<Rightarrow> pyobj py_res"
  new_long :: "int \<Rightarrow> pyobj py_res"
  new_list :: "nat \<Rightarrow> unit py_res"
  dict_set :: "(pyobj \<times> pyobj) list \<Rightarrow> pyobj \<Rightarrow> pyobj \<Rightarrow> (pyobj \<times> pyobj) list py_res"
  set_add :: "pyobj list \<Rightarrow> pyobj \<Rightarrow> pyobj list py_res"

definition MAX_RESP_ELEMENTS :: nat where "MAX_RESP_ELEMENTS = 16777216"
definition MAX_PARSE_DEPTH :: nat where "MAX_PARSE_DEPTH = 512"
definition MAX_BIGNUMBER_LEN :: nat where "MAX_BIGNUMBER_LEN = 10000"

definition py_raise :: "PyrsedisError \<Rightarrow> 'a py_res" where
  "py_raise e = Err (into_pyerr e)"

definition to_py :: "'a res \<Rightarrow> 'a py_res" where
  "to_py r = map_err into_pyerr r"

section \<open>Converting a parsed value\<close>

text \<open>\<open>iter().map(f).collect::<PyResult<Vec<_>>>()\<close>: the first error ends it.\<close>

fun collect :: "('a \<Rightarrow> ('e, 'b) result) \<Rightarrow> 'a list \<Rightarrow> ('e, 'b list) result" where
  "collect f [] = Ok []"
| "collect f (x # xs) = and_then (f x) (\<lambda>y. and_then (collect f xs) (\<lambda>ys. Ok (y # ys)))"

fun fill_dict :: "python \<Rightarrow> (RespValue \<Rightarrow> pyobj py_res) \<Rightarrow> (RespValue \<times> RespValue) list
    \<Rightarrow> (pyobj \<times> pyobj) list \<Rightarrow> (pyobj \<times> pyobj) list py_res" where
  "fill_dict P f [] dict = Ok dict"
| "fill_dict P f ((k, v) # pairs) dict =
     and_then (f k) (\<lambda>py_key. and_then (f v) (\<lambda>py_val.
     and_then (dict_set P dict py_key py_val) (fill_dict P f pairs)))"

fun fill_set :: "python \<Rightarrow> (RespValue \<Rightarrow> pyobj py_res) \<Rightarrow> RespValue list \<Rightarrow> pyobj list \<Rightarrow> pyobj list py_res" where
  "fill_set P f [] s = Ok s"
| "fill_set P f (item # items) s =
     and_then (f item) (\<lambda>x. and_then (set_add P s x) (fill_set P f items))"

lemma collect_cong [fundef_cong]:
  "xs = ys \<Longrightarrow> (\<And>x. x \<in> set ys \<Longrightarrow> f x = g x) \<Longrightarrow> collect f xs = collect g ys"
  by (induction ys arbitrary: xs) auto

lemma fill_dict_cong [fundef_cong]:
  assumes "P = Q" "ps = qs" "d = e" and "\<And>k v. (k, v) \<in> set qs \<Longrightarrow> f k = g k"
    and "\<And>k v. (k, v) \<in> set qs \<Longrightarrow> f v = g v"
  shows "fill_dict P f ps d = fill_dict Q g qs e"
proof -
  have "\<forall>(k, v)\<in>set qs. f k = g k \<and> f v = g v" using assms(4,5) by fastforce
  then have "fill_dict Q f qs e = fill_dict Q g qs e"
    by (induction qs arbitrary: e) (auto intro!: and_then_cong)
  with assms(1-3) show ?thesis by simp
qed

lemma fill_set_cong [fundef_cong]:
  assumes "P = Q" "xs = ys" "d = e" and "\<And>x. x \<in> set ys \<Longrightarrow> f x = g x"
  shows "fill_set P f xs d = fill_set Q g ys e"
proof -
  have "fill_set Q f ys e = fill_set Q g ys e"
    using assms(4) by (induction Q f ys e rule: fill_set.induct) (auto intro!: and_then_cong)
  with assms(1-3) show ?thesis by simp
qed

text \<open>\<open>PyList::new(py, &items)?\<close>\<close>

definition py_list :: "python \<Rightarrow> pyobj list \<Rightarrow> pyobj py_res" where
  "py_list P items = and_then (new_list P (length items)) (\<lambda>_. Ok (PyList items))"

text \<open>The attribute wrapper: \<open>__data__\<close> first, then the attributes.\<close>

definition attribute_dict :: "python \<Rightarrow> (RespValue \<Rightarrow> pyobj py_res) \<Rightarrow> RespValue \<Rightarrow> (RespValue \<times> RespValue) list \<Rightarrow> pyobj py_res" where
  "attribute_dict P f data attributes =
     and_then (f data) (\<lambda>x.
     and_then (dict_set P [] (PyStr ''__data__'') x) (\<lambda>dict.
     and_then (fill_dict P f attributes []) (\<lambda>attrs_dict.
     and_then (dict_set P dict (PyStr ''__attrs__'') (PyDict attrs_dict)) (\<lambda>dict. Ok (PyDict dict)))))"

lemma attribute_dict_cong [fundef_cong]:
  assumes "P = Q" "v = w" "ps = qs" "f w = g w" and "\<And>k v. (k, v) \<in> set qs \<Longrightarrow> f k = g k"
    and "\<And>k v. (k, v) \<in> set qs \<Longrightarrow> f v = g v"
  shows "attribute_dict P f v ps = attribute_dict Q g w qs"
  using fill_dict_cong [OF refl refl refl assms(5,6)] assms(1-4) by (simp add: attribute_dict_def)

lemma size_pairs:
  "(k, v) \<in> set ps \<Longrightarrow> size k < Suc (size_list (size_prod size size) ps) \<and> size v < Suc (size_list (size_prod size size) ps)"
  by (induction ps) auto

lemma size_elem: "x \<in> set xs \<Longrightarrow> size x < Suc (size_list size xs)"
  by (induction xs) auto

function resp_to_python :: "python \<Rightarrow> RespValue \<Rightarrow> pyobj py_res" where
  "resp_to_python P (SimpleString s) = Ok (PyStr s)"
| "resp_to_python P (BulkString b) = Ok (PyBytes b)"
| "resp_to_python P (Integer i) = Ok (PyInt i)"
| "resp_to_python P Null = Ok PyNone"
| "resp_to_python P (Array items) = and_then (collect (resp_to_python P) items) (py_list P)"
| "resp_to_python P (Error msg) = py_raise (redis_error msg)"
| "resp_to_python P (BulkError msg) = py_raise (redis_error msg)"
| "resp_to_python P (Boolean b) = Ok (PyBool b)"
| "resp_to_python P (Double f) = Ok (PyFloat f)"
| "resp_to_python P (BigNumber s) = py_int P s"
| "resp_to_python P (Map pairs) = and_then (fill_dict P (resp_to_python P) pairs []) (\<lambda>d. Ok (PyDict d))"
| "resp_to_python P (Set items) = and_then (fill_set P (resp_to_python P) items []) (\<lambda>s. Ok (PySet s))"
| "resp_to_python P (VerbatimString encoding data) = Ok (PyStr data)"
| "resp_to_python P (Push kind data) = and_then (collect (resp_to_python P) data) (py_list P)"
| "resp_to_python P (Attribute data attributes) = attribute_dict P (resp_to_python P) data attributes"
  by pat_completeness auto
termination
  by (relation "measure (\<lambda>(P, v). size v)") (auto dest: size_pairs size_elem)

function resp_to_python_decoded :: "python \<Rightarrow> RespValue \<Rightarrow> pyobj py_res" where
  "resp_to_python_decoded P value =
     (case value of
        BulkString b \<Rightarrow> (case from_utf8 b of Ok s \<Rightarrow> Ok (PyStr s) | _ \<Rightarrow> Ok (PyBytes b))
      | Array items \<Rightarrow> and_then (collect (resp_to_python_decoded P) items) (py_list P)
      | Map pairs \<Rightarrow> and_then (fill_dict P (resp_to_python_decoded P) pairs []) (\<lambda>d. Ok (PyDict d))
      | Set items \<Rightarrow> and_then (fill_set P (resp_to_python_decoded P) items []) (\<lambda>s. Ok (PySet s))
      | Push kind data \<Rightarrow> and_then (collect (resp_to_python_decoded P) data) (py_list P)
      | Attribute data attributes \<Rightarrow> attribute_dict P (resp_to_python_decoded P) data attributes
      | other \<Rightarrow> resp_to_python P other)"
  by pat_completeness auto
termination
  by (relation "measure (\<lambda>(P, v). size v)") (auto dest: size_pairs size_elem)

declare resp_to_python_decoded.simps [simp del]

section \<open>Conversions to Rust values\<close>

fun resp_to_bytes :: "RespValue \<Rightarrow> bytes option" where
  "resp_to_bytes (BulkString b) = Some b"
| "resp_to_bytes (SimpleString s) = Some s"
| "resp_to_bytes (VerbatimString encoding data) = Some data"
| "resp_to_bytes _ = None"

fun resp_to_string :: "RespValue \<Rightarrow> string option" where
  "resp_to_string (SimpleString s) = Some s"
| "resp_to_string (BulkString b) = from_utf8_ok b"
| "resp_to_string (VerbatimString encoding data) = Some data"
| "resp_to_string _ = None"

fun resp_to_i64 :: "RespValue \<Rightarrow> int option" where
  "resp_to_i64 (Integer i) = Some i"
| "resp_to_i64 (SimpleString s) = parse_i64 s"
| "resp_to_i64 (BigNumber s) = parse_i64 s"
| "resp_to_i64 (BulkString b) = Option.bind (from_utf8_ok b) parse_i64"
| "resp_to_i64 _ = None"

fun resp_to_bool :: "RespValue \<Rightarrow> bool option" where
  "resp_to_bool (Boolean b) = Some b"
| "resp_to_bool (Integer i) = Some (i \<noteq> 0)"
| "resp_to_bool (SimpleString s) =
     (if s \<in> {''OK'', ''ok'', ''1'', ''true'', ''TRUE''} then Some True
      else if s \<in> {''0'', ''false'', ''FALSE''} then Some False
      else None)"
| "resp_to_bool _ = None"

definition is_ok_response :: "RespValue \<Rightarrow> bool" where
  "is_ok_response value = (case value of SimpleString s \<Rightarrow> s = ''OK'' | _ \<Rightarrow> False)"

section \<open>The fused parser: lines and integers\<close>

unbundle bit_operations_syntax

text \<open>The scan for short buffers; longer ones use \<open>memchr\<close>.\<close>

fun scan_cr :: "nat \<Rightarrow> bytes \<Rightarrow> nat option" where
  "scan_cr i [] = None"
| "scan_cr i (b # bs) = (if b = CR then Some i else scan_cr (Suc i) bs)"

definition fused_find_crlf :: "crates \<Rightarrow> bytes \<Rightarrow> nat \<Rightarrow> nat res" where
  "fused_find_crlf C buf offset =
     and_then (slice_from buf offset) (\<lambda>search.
       case (if length search \<le> 32 then scan_cr 0 search else memchr C CR search) of
         Some pos \<Rightarrow>
           (let abs = offset + pos in
            if abs + 1 < length buf \<and> buf ! (abs + 1) = LF then Ok abs
            else if length buf \<le> abs + 1 then Err Incomplete
            else Err (Protocol (''expected '' @ [CHR 0x5C] @ ''n after '' @ [CHR 0x5C] @ ''r'')))
       | None \<Rightarrow> Err Incomplete)"

definition fused_read_line :: "crates \<Rightarrow> bytes \<Rightarrow> nat \<Rightarrow> (bytes \<times> nat) res" where
  "fused_read_line C buf offset =
     and_then (fused_find_crlf C buf offset) (\<lambda>cr.
     and_then (slice_range buf offset cr) (\<lambda>line. Ok (line, cr + 2)))"

text \<open>The digit check ORs the wrapped differences \<open>b - b'0'\<close> in 8 bits.\<close>

definition digit_diff :: "u8 \<Rightarrow> 8 word" where
  "digit_diff b = of_nat (of_char b) - 48"

definition digit_check :: "bytes \<Rightarrow> 8 word" where
  "digit_check digits = fold (\<lambda>b check. check OR digit_diff b) digits 0"

definition fused_digits :: "bytes \<Rightarrow> int" where
  "fused_digits digits =
     fold (\<lambda>b n. wrapping_add_i64 (wrapping_mul_i64 n 10) (uint (digit_diff b))) digits 0"

definition fused_parse_int :: "bytes \<Rightarrow> int res" where
  "fused_parse_int bytes =
     (if bytes = [] then Err (Protocol ''empty integer'')
      else let (negative, start) =
             (if bytes ! 0 = CHR ''-'' then (True, 1) else if bytes ! 0 = CHR ''+'' then (False, 1) else (False, 0));
               digits = drop start bytes
           in if digits = [] then Err (Protocol ''integer has no digits'')
              else case (if 9 < digit_check digits then List.find (\<lambda>b. \<not> ascii_digit b) digits else None) of
                Some b \<Rightarrow> Err (Protocol (''invalid byte in integer: '' @ hex_byte b))
              | None \<Rightarrow> (let n = fused_digits digits in Ok (if negative then wrap_i64 (- n) else n)))"

definition validated_count :: "int \<Rightarrow> nat py_res" where
  "validated_count count =
     (if count < 0 then py_raise (Protocol ''negative element count'')
      else let count = nat count in
        if MAX_RESP_ELEMENTS < count then
          py_raise (Protocol (''element count '' @ decimal count @ '' exceeds maximum '' @ decimal MAX_RESP_ELEMENTS))
        else Ok count)"

section \<open>The fused parser: values\<close>

type_synonym py_parsed = "(pyobj \<times> nat) py_res"

text \<open>
  The branches of \<open>parse_inner\<close>. Those of aggregates take the recursive call at the next
  depth as the argument \<open>p\<close>; positions are offsets into the whole buffer.
\<close>

definition py_line :: "crates \<Rightarrow> bytes \<Rightarrow> nat \<Rightarrow> (bytes \<Rightarrow> nat \<Rightarrow> 'a py_res) \<Rightarrow> 'a py_res" where
  "py_line C buf pos k = and_then (to_py (fused_read_line C buf (pos + 1))) (\<lambda>(line, next). k line next)"

definition py_counted :: "crates \<Rightarrow> bytes \<Rightarrow> nat \<Rightarrow> (int \<Rightarrow> nat \<Rightarrow> 'a py_res) \<Rightarrow> 'a py_res" where
  "py_counted C buf pos k = py_line C buf pos (\<lambda>line next. and_then (to_py (fused_parse_int line)) (\<lambda>n. k n next))"

definition inner_simple_string :: "crates \<Rightarrow> bytes \<Rightarrow> nat \<Rightarrow> py_parsed" where
  "inner_simple_string C buf pos = py_line C buf pos (\<lambda>line next.
     and_then (to_py (utf8_or ''invalid UTF-8: '' line)) (\<lambda>s. Ok (PyStr s, next)))"

definition inner_error :: "crates \<Rightarrow> bytes \<Rightarrow> nat \<Rightarrow> py_parsed" where
  "inner_error C buf pos = py_line C buf pos (\<lambda>line next. py_raise (redis_error (from_utf8_lossy line)))"

definition inner_integer :: "crates \<Rightarrow> python \<Rightarrow> bytes \<Rightarrow> nat \<Rightarrow> py_parsed" where
  "inner_integer C P buf pos = py_counted C buf pos (\<lambda>n next. and_then (new_long P n) (\<lambda>x. Ok (x, next)))"

definition inner_bulk_string :: "crates \<Rightarrow> bytes \<Rightarrow> nat \<Rightarrow> bool \<Rightarrow> py_parsed" where
  "inner_bulk_string C buf pos decode = py_counted C buf pos (\<lambda>len next.
     if len < 0 then Ok (PyNone, next)
     else let len = nat len; total = next + len + 2 in
       if length buf < total then py_raise Incomplete
       else and_then (slice_range buf next (next + len)) (\<lambda>data.
         if decode then (case from_utf8 data of Ok s \<Rightarrow> Ok (PyStr s, total) | _ \<Rightarrow> Ok (PyBytes data, total))
         else Ok (PyBytes data, total)))"

text \<open>
  \<open>build_pylist_ffi\<close>: a list of \<open>count\<close> empty slots (\<open>None\<close>: a null pointer), filled in
  order. On an error the remaining slots are set to Python's \<open>None\<close> before the list is
  released. Reading a null slot of a finished list would be undefined behaviour: \<open>Panic\<close>.
\<close>

fun fill_slots :: "(nat \<Rightarrow> py_parsed) \<Rightarrow> nat list \<Rightarrow> nat \<Rightarrow> pyobj option list \<Rightarrow> nat py_res \<times> pyobj option list" where
  "fill_slots p [] pos slots = (Ok pos, slots)"
| "fill_slots p (i # is) pos slots =
     (case p pos of
        Ok (item, end_pos) \<Rightarrow> fill_slots p is end_pos (slots[i := Some item])
      | Err e \<Rightarrow> (Err e, fold (\<lambda>j s. s[j := Some PyNone]) (i # is) slots)
      | Panic \<Rightarrow> (Panic, slots))"

definition build_pylist_ffi :: "python \<Rightarrow> (nat \<Rightarrow> py_parsed) \<Rightarrow> nat \<Rightarrow> nat \<Rightarrow> py_parsed" where
  "build_pylist_ffi P p pos count =
     and_then (new_list P count) (\<lambda>_.
       case fill_slots p [0..<count] pos (replicate count None) of
         (Ok end_pos, slots) \<Rightarrow>
           if None \<in> set slots then Panic else Ok (PyList (map the slots), end_pos)
       | (Err e, slots) \<Rightarrow> Err e
       | (Panic, slots) \<Rightarrow> Panic)"

definition inner_array :: "crates \<Rightarrow> python \<Rightarrow> (nat \<Rightarrow> py_parsed) \<Rightarrow> bytes \<Rightarrow> nat \<Rightarrow> py_parsed" where
  "inner_array C P p buf pos = py_counted C buf pos (\<lambda>count next.
     if count < 0 then Ok (PyNone, next)
     else and_then (validated_count count) (build_pylist_ffi P p next))"

definition inner_null :: "bytes \<Rightarrow> nat \<Rightarrow> py_parsed" where
  "inner_null buf pos = (if length buf < pos + 3 then py_raise Incomplete else Ok (PyNone, pos + 3))"

definition inner_boolean :: "bytes \<Rightarrow> nat \<Rightarrow> py_parsed" where
  "inner_boolean buf pos =
     (if length buf < pos + 4 then py_raise Incomplete else Ok (PyBool (buf ! (pos + 1) = CHR ''t''), pos + 4))"

definition inner_double :: "crates \<Rightarrow> bytes \<Rightarrow> nat \<Rightarrow> py_parsed" where
  "inner_double C buf pos = py_line C buf pos (\<lambda>line next.
     and_then (to_py (utf8_or ''invalid UTF-8 in double: '' line)) (\<lambda>s.
     and_then (to_py (map_err (\<lambda>e. Protocol (''invalid double: '' @ parse_float_error_msg e)) (parse_f64 s))) (\<lambda>f.
     Ok (PyFloat f, next))))"

definition inner_big_number :: "crates \<Rightarrow> python \<Rightarrow> bytes \<Rightarrow> nat \<Rightarrow> py_parsed" where
  "inner_big_number C P buf pos = py_line C buf pos (\<lambda>line next.
     if MAX_BIGNUMBER_LEN < length line then
       py_raise (Protocol (''BigNumber length '' @ decimal (length line) @ '' exceeds maximum '' @ decimal MAX_BIGNUMBER_LEN))
     else and_then (to_py (utf8_or ''invalid UTF-8 in big number: '' line)) (\<lambda>s.
       and_then (py_int P s) (\<lambda>x. Ok (x, next))))"

definition inner_bulk_error :: "crates \<Rightarrow> bytes \<Rightarrow> nat \<Rightarrow> py_parsed" where
  "inner_bulk_error C buf pos = py_counted C buf pos (\<lambda>len next.
     if len < 0 then py_raise (Protocol ''negative bulk error length'')
     else let len = nat len; total = next + len + 2 in
       if length buf < total then py_raise Incomplete
       else and_then (slice_range buf next (next + len)) (\<lambda>data. py_raise (redis_error (from_utf8_lossy data))))"

definition inner_verbatim :: "crates \<Rightarrow> bytes \<Rightarrow> nat \<Rightarrow> py_parsed" where
  "inner_verbatim C buf pos = py_counted C buf pos (\<lambda>len next.
     if len < 0 then py_raise (Protocol ''negative verbatim string length'')
     else let len = nat len; total = next + len + 2 in
       if length buf < total then py_raise Incomplete
       else and_then (slice_range buf next (next + len)) (\<lambda>data.
         let text = (if 4 < length data \<and> data ! 3 = CHR '':'' then drop 4 data else data) in
         and_then (to_py (utf8_or ''invalid UTF-8: '' text)) (\<lambda>s. Ok (PyStr s, total))))"

text \<open>The loops \<open>for _ in 0..count\<close> of maps and sets.\<close>

fun inner_pairs :: "python \<Rightarrow> (nat \<Rightarrow> py_parsed) \<Rightarrow> nat \<Rightarrow> nat \<Rightarrow> (pyobj \<times> pyobj) list
    \<Rightarrow> ((pyobj \<times> pyobj) list \<times> nat) py_res" where
  "inner_pairs P p next 0 dict = Ok (dict, next)"
| "inner_pairs P p next (Suc n) dict =
     and_then (p next) (\<lambda>(key, end_k). and_then (p end_k) (\<lambda>(val, end_v).
     and_then (dict_set P dict key val) (\<lambda>dict. inner_pairs P p end_v n dict)))"

fun inner_items :: "python \<Rightarrow> (nat \<Rightarrow> py_parsed) \<Rightarrow> nat \<Rightarrow> nat \<Rightarrow> pyobj list \<Rightarrow> (pyobj list \<times> nat) py_res" where
  "inner_items P p next 0 s = Ok (s, next)"
| "inner_items P p next (Suc n) s =
     and_then (p next) (\<lambda>(item, end_pos). and_then (set_add P s item) (\<lambda>s. inner_items P p end_pos n s))"

definition inner_map :: "crates \<Rightarrow> python \<Rightarrow> (nat \<Rightarrow> py_parsed) \<Rightarrow> bytes \<Rightarrow> nat \<Rightarrow> py_parsed" where
  "inner_map C P p buf pos = py_counted C buf pos (\<lambda>count next.
     and_then (validated_count count) (\<lambda>count.
     and_then (inner_pairs P p next count []) (\<lambda>(dict, next). Ok (PyDict dict, next))))"

definition inner_set :: "crates \<Rightarrow> python \<Rightarrow> (nat \<Rightarrow> py_parsed) \<Rightarrow> bytes \<Rightarrow> nat \<Rightarrow> py_parsed" where
  "inner_set C P p buf pos = py_counted C buf pos (\<lambda>count next.
     and_then (validated_count count) (\<lambda>count.
     and_then (inner_items P p next count []) (\<lambda>(s, next). Ok (PySet s, next))))"

definition inner_push :: "crates \<Rightarrow> python \<Rightarrow> (nat \<Rightarrow> py_parsed) \<Rightarrow> bytes \<Rightarrow> nat \<Rightarrow> py_parsed" where
  "inner_push C P p buf pos = py_counted C buf pos (\<lambda>count next.
     and_then (validated_count count) (build_pylist_ffi P p next))"

definition inner_attribute :: "crates \<Rightarrow> python \<Rightarrow> (nat \<Rightarrow> py_parsed) \<Rightarrow> bytes \<Rightarrow> nat \<Rightarrow> py_parsed" where
  "inner_attribute C P p buf pos = py_counted C buf pos (\<lambda>count next.
     and_then (validated_count count) (\<lambda>count.
     and_then (inner_pairs P p next count []) (\<lambda>(attrs_dict, next).
     and_then (p next) (\<lambda>(data, end_pos).
     and_then (dict_set P [] (PyStr ''__attrs__'') (PyDict attrs_dict)) (\<lambda>dict.
     and_then (dict_set P dict (PyStr ''__data__'') data) (\<lambda>dict.
     Ok (PyDict dict, end_pos)))))))"

function parse_inner :: "crates \<Rightarrow> python \<Rightarrow> bytes \<Rightarrow> nat \<Rightarrow> nat \<Rightarrow> bool \<Rightarrow> py_parsed" where
  "parse_inner C P buf pos depth decode =
     (if MAX_PARSE_DEPTH < depth then
        py_raise (Protocol (''RESP nesting depth exceeds maximum of '' @ decimal MAX_PARSE_DEPTH))
      else if length buf \<le> pos then py_raise Incomplete
      else let p = (\<lambda>pos. parse_inner C P buf pos (depth + 1) decode); b = buf ! pos in
        if b = CHR ''+'' then inner_simple_string C buf pos
        else if b = CHR ''-'' then inner_error C buf pos
        else if b = CHR '':'' then inner_integer C P buf pos
        else if b = CHR ''$'' then inner_bulk_string C buf pos decode
        else if b = CHR ''*'' then inner_array C P p buf pos
        else if b = CHR ''_'' then inner_null buf pos
        else if b = CHR ''#'' then inner_boolean buf pos
        else if b = CHR '','' then inner_double C buf pos
        else if b = CHR ''('' then inner_big_number C P buf pos
        else if b = CHR ''!'' then inner_bulk_error C buf pos
        else if b = CHR ''='' then inner_verbatim C buf pos
        else if b = CHR ''%'' then inner_map C P p buf pos
        else if b = CHR ''~'' then inner_set C P p buf pos
        else if b = CHR ''>'' then inner_push C P p buf pos
        else if b = CHR ''|'' then inner_attribute C P p buf pos
        else py_raise (Protocol (''unknown RESP type byte: '' @ hex_byte b)))"
  by pat_completeness auto
termination
  by (relation "measure (\<lambda>(C, P, buf, pos, depth, decode). Suc MAX_PARSE_DEPTH - depth)") auto

declare parse_inner.simps [simp del]

definition parse_to_python :: "crates \<Rightarrow> python \<Rightarrow> bytes \<Rightarrow> bool \<Rightarrow> py_parsed" where
  "parse_to_python C P buf decode =
     (if buf = [] then py_raise Incomplete else parse_inner C P buf 0 0 decode)"

end
