(* ===== verification/Fused.thy ===== *)
theory Fused
  imports Response
begin

text \<open>
  The single-pass parser of \<open>src/src/response.rs\<close> against its two references: the parser
  followed by the conversion, and the frame scanner that delimits what it is given. The
  interface to CPython is the locale \<open>python_env\<close>.
\<close>

section \<open>The interpreter\<close>

text \<open>An exception that is not one of the module's own.\<close>

definition foreign :: "PyErr \<Rightarrow> bool" where
  "foreign e = (case e of PyErr c m \<Rightarrow> \<not> subclass_of c ExcPyrsedisError)"

definition well_behaved :: "'a py_res \<Rightarrow> bool" where
  "well_behaved r \<longleftrightarrow> r \<noteq> Panic \<and> (\<forall>e. r = Err e \<longrightarrow> foreign e)"

text \<open>
  What is assumed of CPython: small allocations succeed, and the builtins either return or
  raise a builtin exception.
\<close>

locale python_env = crate_env C for C +
  fixes P :: python
  assumes new_long_ok: "new_long P i = Ok (PyInt i)"
    and new_list_ok: "new_list P n = Ok ()"
    and py_int_behaves: "well_behaved (py_int P s)"
    and dict_set_behaves: "well_behaved (dict_set P d k v)"
    and set_add_behaves: "well_behaved (set_add P x v)"

text \<open>An interpreter with enough memory, over any well-behaved builtins.\<close>

definition documented_python :: "(string \<Rightarrow> pyobj py_res) \<Rightarrow> python" where
  "documented_python to_int =
     \<lparr>py_int = to_int, new_long = \<lambda>i. Ok (PyInt i), new_list = \<lambda>_. Ok (),
      dict_set = \<lambda>d k v.
        (case k of
           PyList _ \<Rightarrow> Err (PyErr ExcTypeError ''unhashable type: list'')
         | PyDict _ \<Rightarrow> Err (PyErr ExcTypeError ''unhashable type: dict'')
         | PySet _ \<Rightarrow> Err (PyErr ExcTypeError ''unhashable type: set'')
         | _ \<Rightarrow> Ok (filter (\<lambda>(k', _). k' \<noteq> k) d @ [(k, v)])),
      set_add = \<lambda>s x.
        (case x of
           PyList _ \<Rightarrow> Err (PyErr ExcTypeError ''unhashable type: list'')
         | PyDict _ \<Rightarrow> Err (PyErr ExcTypeError ''unhashable type: dict'')
         | PySet _ \<Rightarrow> Err (PyErr ExcTypeError ''unhashable type: set'')
         | _ \<Rightarrow> Ok (List.insert x s))\<rparr>"

lemma foreign_TypeError [simp]: "foreign (PyErr ExcTypeError m)"
  by (auto simp: foreign_def elim: subclass_of.cases)

lemma foreign_into_pyerr: "foreign (into_pyerr e) \<Longrightarrow> \<exists>m. e = TypeErr m"
  by (cases e) (auto simp: foreign_def into_pyerr_def py_class_def split: RedisErrorKind.splits
      intro: subclass_PyrsedisError sub_base)

definition sample_int :: "string \<Rightarrow> pyobj py_res" where
  "sample_int s = (case parse_i64 s of Some i \<Rightarrow> Ok (PyInt i) | None \<Rightarrow> Err (PyErr (ExcInterpreter ''ValueError'') s))"

lemma sample_int_behaves: "well_behaved (sample_int s)"
  by (auto simp: sample_int_def well_behaved_def foreign_def split: option.splits elim: subclass_of.cases)

interpretation sample_py: python_env "documented_crates a" "documented_python sample_int"
  by unfold_locales
     (auto simp: documented_python_def sample_int_behaves, auto simp: well_behaved_def split: pyobj.splits)

section \<open>Lines and integers\<close>

lemma scan_cr_position: "scan_cr i bs = map_option ((+) i) (position CR bs)"
  by (induction i bs rule: scan_cr.induct) (auto simp: option.map_comp comp_def)

lemma digit_diff_le: "digit_diff b \<le> 9 \<longleftrightarrow> ascii_digit b"
proof -
  define n where "n = (of_char b :: nat)"
  have lt: "n < 256" by (cases b) (simp add: n_def)
  have "uint (digit_diff b) = (uint (of_nat n :: 8 word) - 48) mod 256"
    by (simp add: digit_diff_def n_def uint_word_ariths)
  then have diff: "uint (digit_diff b) = (int n - 48) mod 256" using lt by (simp add: unsigned_of_nat take_bit_nat_eq_self)
  have window: "(int n - 48) mod 256 \<le> 9 \<longleftrightarrow> 48 \<le> n \<and> n \<le> 57"
  proof (cases "48 \<le> n")
    case True
    with lt show ?thesis by (simp add: mod_pos_pos_trivial)
  next
    case False
    then have "(int n - 48) mod 256 = int n + 208" using mod_pos_pos_trivial [of "int n + 208" 256]
      mod_add_self2 [of "int n - 48" 256] by simp
    with False show ?thesis by simp
  qed
  from diff have "digit_diff b \<le> 9 \<longleftrightarrow> (int n - 48) mod 256 \<le> 9" by (simp add: word_le_def)
  also have "\<dots> \<longleftrightarrow> 48 \<le> n \<and> n \<le> 57" by (rule window)
  also have "\<dots> \<longleftrightarrow> ascii_digit b" by (simp add: ascii_digit_def n_def)
  finally show ?thesis .
qed

lemma uint_digit_diff: "ascii_digit b \<Longrightarrow> uint (digit_diff b) = int (digit_val b)"
proof -
  assume b: "ascii_digit b"
  have "digit_diff b = of_nat (digit_val b)"
    using b by (simp add: digit_diff_def digit_val_def ascii_digit_def of_nat_diff)
  moreover have "digit_val b < 256" using digit_val_le [OF b] by simp
  ultimately show ?thesis by (simp add: unsigned_of_nat take_bit_nat_eq_self)
qed

text \<open>A byte that is no digit leaves its bits in the OR of the differences.\<close>

lemma digit_check_ge: "c \<le> fold (\<lambda>b check. check OR digit_diff b) ds c"
proof (induction ds arbitrary: c)
  case (Cons d ds)
  have "c \<le> c OR digit_diff d" by (rule le_word_or2)
  with Cons [of "c OR digit_diff d"] show ?case by simp
qed simp

lemma digit_check_all: "b \<in> set ds \<Longrightarrow> digit_diff b \<le> fold (\<lambda>b check. check OR digit_diff b) ds c"
proof (induction ds arbitrary: c)
  case (Cons d ds)
  show ?case
  proof (cases "b = d")
    case True
    have "digit_diff d \<le> c OR digit_diff d" by (rule le_word_or1)
    with digit_check_ge [of "c OR digit_diff d" ds] True show ?thesis by simp
  next
    case False
    with Cons show ?thesis by simp
  qed
qed simp

lemma digit_check_small: "\<not> 9 < digit_check ds \<Longrightarrow> list_all ascii_digit ds"
  using digit_check_all [of _ ds 0] digit_diff_le
  by (auto simp: digit_check_def list_all_iff not_less intro: order.trans)

lemma digit_check_find:
  "(if 9 < digit_check ds then List.find (\<lambda>b. \<not> ascii_digit b) ds else None) = List.find (\<lambda>b. \<not> ascii_digit b) ds"
  using digit_check_small [of ds] by (auto simp: list_all_iff find_None_iff find_None_iff2)

lemma fused_digits_from:
  "list_all ascii_digit ds \<Longrightarrow>
     fold (\<lambda>b n. wrapping_add_i64 (wrapping_mul_i64 n 10) (uint (digit_diff b))) ds (wrap_i64 (int m)) =
       wrap_i64 (int (digits_val m ds))"
proof (induction ds arbitrary: m)
  case (Cons d ds)
  have "wrapping_add_i64 (wrapping_mul_i64 (wrap_i64 (int m)) 10) (uint (digit_diff d)) =
      wrap_i64 (int (10 * m + digit_val d))"
    using Cons.prems by (simp add: wrapping_add_i64_def wrapping_mul_i64_def uint_digit_diff mult.commute)
  with Cons.IH [of "10 * m + digit_val d"] Cons.prems show ?case
    by simp
qed simp

lemma fused_digits_val: "list_all ascii_digit ds \<Longrightarrow> fused_digits ds = wrap_i64 (int (digits_val 0 ds))"
  using fused_digits_from [of ds 0] by (simp add: fused_digits_def i64_bounds)

text \<open>The fused integer reader never fails on digits; it wraps where the other reports an overflow.\<close>

lemma fused_parse_int_eq:
  "fused_parse_int bs =
     (let (neg, ds) = sign_split bs; m = int (digits_val 0 ds) in
      if bs = [] then Err (Protocol ''empty integer'')
      else if ds = [] then Err (Protocol ''integer has no digits'')
      else case List.find (\<lambda>b. \<not> ascii_digit b) ds of
        Some b \<Rightarrow> Err (Protocol (''invalid byte in integer: '' @ hex_byte b))
      | None \<Rightarrow> Ok (wrap_i64 (if neg then - m else m)))"
proof -
  have tail: "(case List.find (\<lambda>b. \<not> ascii_digit b) ds of
        Some b \<Rightarrow> Err (Protocol (''invalid byte in integer: '' @ hex_byte b))
      | None \<Rightarrow> Ok (if neg then wrap_i64 (- fused_digits ds) else fused_digits ds)) =
      (case List.find (\<lambda>b. \<not> ascii_digit b) ds of
        Some b \<Rightarrow> Err (Protocol (''invalid byte in integer: '' @ hex_byte b))
      | None \<Rightarrow> Ok (wrap_i64 (if neg then - int (digits_val 0 ds) else int (digits_val 0 ds))))" for neg ds
  proof (cases "List.find (\<lambda>b. \<not> ascii_digit b) ds")
    case None
    then have "list_all ascii_digit ds" by (simp add: find_None_iff list_all_iff)
    with None show ?thesis by (simp add: fused_digits_val)
  qed simp
  show ?thesis
    unfolding fused_parse_int_def sign_split_def Let_def digit_check_find
    by (simp add: tail [of True, simplified] tail [of False, simplified])
       (use tail [of False bs] in \<open>simp split: option.splits\<close>)
qed

lemma fused_parse_int_Ok:
  assumes "parse_int_from_bytes bs = Ok i"
  shows "fused_parse_int bs = Ok i"
proof -
  obtain neg ds where s: "sign_split bs = (neg, ds)" by fastforce
  with assms have ok: "ds \<noteq> []" "list_all ascii_digit ds" "int (digits_val 0 ds) \<le> 2 ^ 63"
    "i = (if neg then - int (digits_val 0 ds) else wrap_i64 (int (digits_val 0 ds)))"
    by (auto simp: parse_int_from_bytes_Ok Let_def)
  moreover have "bs \<noteq> []" using s ok(1) by (auto simp: sign_split_def)
  moreover have "List.find (\<lambda>b. \<not> ascii_digit b) ds = None" using ok(2) by (simp add: find_None_iff list_all_iff)
  moreover have "in_i64 (- int (digits_val 0 ds))" using ok(3) by (simp add: i64_bounds)
  ultimately show ?thesis using s by (simp add: fused_parse_int_eq)
qed

section \<open>Lists built in place\<close>

text \<open>What \<open>build_pylist_ffi\<close> computes: \<open>count\<close> values in sequence.\<close>

fun py_seq :: "(nat \<Rightarrow> py_parsed) \<Rightarrow> nat \<Rightarrow> nat \<Rightarrow> (pyobj list \<times> nat) py_res" where
  "py_seq p pos 0 = Ok ([], pos)"
| "py_seq p pos (Suc n) =
     and_then (p pos) (\<lambda>(x, pos'). and_then (py_seq p pos' n) (\<lambda>(xs, pos''). Ok (x # xs, pos'')))"

lemma fill_slots_seq:
  "(case fill_slots p [length xs..<length xs + n] pos (map Some xs @ replicate n None) of
      (Ok e, slots) \<Rightarrow> if None \<in> set slots then Panic else Ok (PyList (map the slots), e)
    | (Err e, slots) \<Rightarrow> Err e
    | (Panic, slots) \<Rightarrow> Panic) =
   and_then (py_seq p pos n) (\<lambda>(ys, e). Ok (PyList (xs @ ys), e))"
proof (induction n arbitrary: xs pos)
  case 0
  then show ?case by (auto simp: comp_def)
next
  case (Suc n)
  have slots: "(map Some xs @ replicate (Suc n) None)[length xs := Some x] = map Some (xs @ [x]) @ replicate n None" for x
    by (simp add: list_update_append)
  have range_eq: "[length xs..<length xs + Suc n] = length xs # [length (xs @ [x])..<length (xs @ [x]) + n]" for x
    by (simp add: upt_conv_Cons)
  show ?case
  proof (cases "p pos")
    case (Ok r)
    obtain x pos' where r: "r = (x, pos')" by (cases r)
    have "fill_slots p [length xs..<length xs + Suc n] pos (map Some xs @ replicate (Suc n) None) =
        fill_slots p [length (xs @ [x])..<length (xs @ [x]) + n] pos' (map Some (xs @ [x]) @ replicate n None)"
      by (simp only: range_eq [of x] fill_slots.simps slots Ok r result.case prod.case)
    then show ?thesis using Ok r by (simp only: Suc.IH) (simp add: and_then_assoc split_def)
  qed (simp_all only: range_eq [of PyNone] fill_slots.simps result.case prod.case py_seq.simps and_then.simps)
qed

lemma build_pylist_seq:
  "build_pylist_ffi P p pos n =
     and_then (new_list P n) (\<lambda>_. and_then (py_seq p pos n) (\<lambda>(xs, e). Ok (PyList xs, e)))"
  using fill_slots_seq [of p "[]" n pos] by (simp add: build_pylist_ffi_def)

section \<open>Runs of values\<close>

text \<open>Consecutive values of a buffer, read by \<open>q\<close> on the bytes from each position on.\<close>

inductive run :: "(bytes \<Rightarrow> ('a \<times> nat) res) \<Rightarrow> bytes \<Rightarrow> nat \<Rightarrow> 'a list \<Rightarrow> nat \<Rightarrow> bool" for q buf where
  run_Nil: "run q buf pos [] pos"
| run_Cons: "q (drop pos buf) = Ok (v, n) \<Longrightarrow> run q buf (pos + n) vs pos' \<Longrightarrow> run q buf pos (v # vs) pos'"

inductive_simps run_Cons_iff [simp]: "run q buf pos (v # vs) pos'"
inductive_simps run_Nil_iff [simp]: "run q buf pos [] pos'"

lemma parse_seq_run:
  "parse_seq q (drop pos buf) k n [] = Ok (vs, k') \<Longrightarrow> run q buf (pos + k) vs (pos + k') \<and> length vs = n"
proof (induction n arbitrary: k vs)
  case 0
  then show ?case by (auto intro: run_Nil)
next
  case (Suc n)
  from Suc.prems obtain v m vs' where v: "q (drop (pos + k) buf) = Ok (v, m)"
    "parse_seq q (drop pos buf) (k + m) n [] = Ok (vs', k')" "vs = v # vs'"
    by (auto simp: parse_seq_acc [of q _ _ n "[_]"] slice_from_eq_Ok add.commute elim!: and_then_OkE)
  from Suc.IH [OF v(2)] v(1,3) show ?case by (auto intro: run_Cons simp: add.assoc)
qed

lemma run_append: "run q buf pos (vs @ ws) pos' \<longleftrightarrow> (\<exists>m. run q buf pos vs m \<and> run q buf m ws pos')"
  by (induction vs arbitrary: pos) auto

lemma run_mono: "run q buf pos vs pos' \<Longrightarrow> pos \<le> pos'"
  by (induction rule: run.induct) auto

text \<open>The loops of the fused parser along a run whose elements it converts with \<open>f\<close>.\<close>

definition converts :: "(bytes \<Rightarrow> (RespValue \<times> nat) res) \<Rightarrow> bytes \<Rightarrow> nat \<Rightarrow> (RespValue \<Rightarrow> pyobj py_res)
    \<Rightarrow> (nat \<Rightarrow> py_parsed) \<Rightarrow> RespValue list \<Rightarrow> bool" where
  "converts q buf start f p vs \<longleftrightarrow>
     (\<forall>pos v n. start \<le> pos \<longrightarrow> v \<in> set vs \<longrightarrow> q (drop pos buf) = Ok (v, n) \<longrightarrow>
        p pos = and_then (f v) (\<lambda>x. Ok (x, pos + n)))"

lemma converts_subset: "converts q buf start f p vs \<Longrightarrow> set ws \<subseteq> set vs \<Longrightarrow> start \<le> start' \<Longrightarrow> converts q buf start' f p ws"
  unfolding converts_def by (meson order.trans subsetD)

lemma converts_Cons:
  assumes "converts q buf pos f p (v # vs)" and "q (drop pos buf) = Ok (v, n)"
  shows "p pos = and_then (f v) (\<lambda>x. Ok (x, pos + n))" and "converts q buf (pos + n) f p vs"
  using assms converts_subset [OF assms(1), of vs "pos + n"] by (auto simp: converts_def)

lemma py_seq_run:
  "run q buf pos vs pos' \<Longrightarrow> converts q buf pos f p vs \<Longrightarrow>
     py_seq p pos (length vs) = and_then (collect f vs) (\<lambda>xs. Ok (xs, pos'))"
proof (induction pos vs pos' rule: run.induct)
  case (run_Cons pos v n vs pos')
  note c = converts_Cons [OF run_Cons.prems run_Cons.hyps(1)]
  show ?case using run_Cons.IH [OF c(2)] c(1) by (simp add: and_then_assoc)
qed simp

lemma inner_items_run:
  "run q buf pos vs pos' \<Longrightarrow> converts q buf pos f p vs \<Longrightarrow>
     inner_items P p pos (length vs) s = and_then (fill_set P f vs s) (\<lambda>xs. Ok (xs, pos'))"
proof (induction pos vs pos' arbitrary: s rule: run.induct)
  case (run_Cons pos v n vs pos')
  note c = converts_Cons [OF run_Cons.prems run_Cons.hyps(1)]
  from run_Cons.IH [OF c(2)] have "inner_items P p (pos + n) (length vs) =
      (\<lambda>s. and_then (fill_set P f vs s) (\<lambda>xs. Ok (xs, pos')))" by (intro ext)
  then show ?case using c(1) by (simp add: and_then_assoc)
qed simp

lemma inner_pairs_run:
  assumes "run q buf pos (flatten_pairs ps) pos'" and "converts q buf pos f p (flatten_pairs ps)"
  shows "inner_pairs P p pos (length ps) d = and_then (fill_dict P f ps d) (\<lambda>xs. Ok (xs, pos'))"
  using assms
proof (induction ps arbitrary: pos d)
  case (Cons kv ps)
  obtain k v where kv: "kv = (k, v)" by (cases kv)
  from Cons.prems(1) kv obtain m n where r: "q (drop pos buf) = Ok (k, m)" "q (drop (pos + m) buf) = Ok (v, n)"
    "run q buf (pos + m + n) (flatten_pairs ps) pos'" by auto
  note c1 = converts_Cons [OF Cons.prems(2) [unfolded kv flatten_pairs.simps] r(1)]
  note c2 = converts_Cons [OF c1(2) r(2)]
  from Cons.IH [OF r(3) c2(2)] have "inner_pairs P p (pos + m + n) (length ps) =
      (\<lambda>d. and_then (fill_dict P f ps d) (\<lambda>xs. Ok (xs, pos')))" by (intro ext)
  then show ?case using c1(1) c2(1) by (simp add: kv and_then_assoc)
qed simp

section \<open>Lines at an offset\<close>

context crate_env
begin

lemma fused_find_crlf_eq: "fused_find_crlf C buf off = find_crlf C buf off"
proof -
  have "scan_cr 0 s = memchr C CR s" for s
    by (cases "position CR s") (simp_all add: scan_cr_position memchr_first)
  then show ?thesis by (simp add: fused_find_crlf_def find_crlf_def cong: if_cong)
qed

lemma fused_read_line_eq: "fused_read_line C = read_line C"
  by (intro ext) (simp add: fused_read_line_def read_line_def fused_find_crlf_eq)

lemma find_crlf_shift:
  assumes "pos + off \<le> length buf"
  shows "find_crlf C buf (pos + off) = and_then (find_crlf C (drop pos buf) off) (\<lambda>i. Ok (pos + i))"
  using assms
  by (auto simp: find_crlf_def memchr_first Let_def add.commute add.left_commute less_diff_conv le_diff_conv split: option.splits)

lemma read_line_shift:
  assumes "pos < length buf"
  shows "read_line C buf (Suc pos) = and_then (read_line C (drop pos buf) 1) (\<lambda>(line, k). Ok (line, pos + k))"
proof (cases "find_crlf C (drop pos buf) 1")
  case (Ok i)
  with find_crlf_Ok [OF Ok] find_crlf_shift [of pos 1 buf] assms show ?thesis
    by (simp add: read_line_def)
qed (use find_crlf_shift [of pos 1 buf] assms in \<open>simp_all add: read_line_def\<close>)

lemma py_line_eq:
  assumes "pos < length buf"
  shows "py_line C buf pos k = and_then (to_py (read_line C (drop pos buf) 1)) (\<lambda>(line, n). k line (pos + n))"
  using read_line_shift [OF assms]
  by (cases "read_line C (drop pos buf) 1") (auto simp: py_line_def to_py_def fused_read_line_eq)

end

section \<open>The fused parser is the parser and the conversion\<close>

text \<open>The conversion the client chooses with \<open>decode_responses\<close>.\<close>

definition convert :: "python \<Rightarrow> bool \<Rightarrow> RespValue \<Rightarrow> pyobj py_res" where
  "convert P decode = (if decode then resp_to_python_decoded P else resp_to_python P)"

lemma convert_simps:
  "convert P dec (SimpleString s) = Ok (PyStr s)"
  "convert P dec (Error s) = py_raise (redis_error s)"
  "convert P dec (Integer i) = Ok (PyInt i)"
  "convert P dec (BulkString b) = Ok (if dec \<and> utf8_valid b then PyStr b else PyBytes b)"
  "convert P dec Null = Ok PyNone"
  "convert P dec (Boolean x) = Ok (PyBool x)"
  "convert P dec (Double f) = Ok (PyFloat f)"
  "convert P dec (BigNumber s) = py_int P s"
  "convert P dec (BulkError s) = py_raise (redis_error s)"
  "convert P dec (VerbatimString e s) = Ok (PyStr s)"
  "convert P dec (Array vs) = and_then (collect (convert P dec) vs) (py_list P)"
  "convert P dec (Map ps) = and_then (fill_dict P (convert P dec) ps []) (\<lambda>d. Ok (PyDict d))"
  "convert P dec (Set vs) = and_then (fill_set P (convert P dec) vs []) (\<lambda>s. Ok (PySet s))"
  by (simp_all add: convert_def resp_to_python_decoded.simps from_utf8_eq_Ok split: result.split)

text \<open>
  Values the two agree on, at a nesting budget \<open>d\<close>: within the limits of the fused parser,
  and without push messages, attributes and empty verbatim strings.
\<close>

function fusable :: "nat \<Rightarrow> RespValue \<Rightarrow> bool" where
  "fusable d (SimpleString s) = True"
| "fusable d (Error s) = True"
| "fusable d (Integer i) = True"
| "fusable d (BulkString b) = True"
| "fusable d Null = True"
| "fusable d (Boolean x) = True"
| "fusable d (Double f) = True"
| "fusable d (BigNumber s) = (length s \<le> MAX_BIGNUMBER_LEN)"
| "fusable d (BulkError s) = True"
| "fusable d (VerbatimString e s) = (s \<noteq> [])"
| "fusable d (Array vs) = (length vs \<le> MAX_RESP_ELEMENTS \<and> list_all (\<lambda>v. 0 < d \<and> fusable (d - 1) v) vs)"
| "fusable d (Map ps) = (length ps \<le> MAX_RESP_ELEMENTS \<and>
     list_all (\<lambda>(k, v). 0 < d \<and> fusable (d - 1) k \<and> fusable (d - 1) v) ps)"
| "fusable d (Set vs) = (length vs \<le> MAX_RESP_ELEMENTS \<and> list_all (\<lambda>v. 0 < d \<and> fusable (d - 1) v) vs)"
| "fusable d (Push k vs) = False"
| "fusable d (Attribute v ps) = False"
  by pat_completeness auto
termination
  by (relation "measure (\<lambda>(d, v). size v)") (auto dest: size_pairs size_elem)

lemma flatten_pair_up: "even (length vs) \<Longrightarrow> flatten_pairs (pair_up vs) = vs"
  by (induction vs rule: pair_up.induct) auto

lemma length_pair_up: "length (pair_up vs) = length vs div 2"
  by (induction vs rule: pair_up.induct) auto

lemma fusable_flat:
  "list_all (\<lambda>(k, v). Q k \<and> Q v) ps \<longleftrightarrow> list_all Q (flatten_pairs ps)"
  by (induction ps rule: flatten_pairs.induct) auto

lemma validated_count_ok: "0 \<le> c \<Longrightarrow> nat c \<le> MAX_RESP_ELEMENTS \<Longrightarrow> validated_count c = Ok (nat c)"
  by (simp add: validated_count_def)

lemma utf8_or_valid [simp]: "utf8_valid bs \<Longrightarrow> utf8_or what bs = Ok bs"
  by (simp add: utf8_or_def)

lemma status_lines_utf8 [simp]: "utf8_valid ''OK''" "utf8_valid ''PONG''" "utf8_valid ''QUEUED''"
  by code_simp+

context crate_env
begin

lemma py_counted_eq:
  assumes "pos < length buf" and "read_line C (drop pos buf) 1 = Ok (line, k)" and "parse_int_from_bytes line = Ok c"
  shows "py_counted C buf pos f = f c (pos + k)"
  using assms fused_parse_int_Ok by (simp add: py_counted_def py_line_eq to_py_def)

lemma slice_shift: "pos \<le> length buf \<Longrightarrow> slice_range (drop pos buf) a b = Ok d \<Longrightarrow> slice_range buf (pos + a) (pos + b) = Ok d"
  by (auto simp: slice_range_def add.commute split: if_splits)

lemma lines_convert:
  assumes "pos < length buf"
  shows "parse_simple_string C (drop pos buf) = Ok (v, n) \<Longrightarrow>
      inner_simple_string C buf pos = and_then (convert P dec v) (\<lambda>x. Ok (x, pos + n))"
    and "parse_simple_error C (drop pos buf) = Ok (v, n) \<Longrightarrow>
      inner_error C buf pos = and_then (convert P dec v) (\<lambda>x. Ok (x, pos + n))"
    and "parse_double C (drop pos buf) = Ok (v, n) \<Longrightarrow>
      inner_double C buf pos = and_then (convert P dec v) (\<lambda>x. Ok (x, pos + n))"
    and "parse_big_number C (drop pos buf) = Ok (v, n) \<Longrightarrow> fusable d v \<Longrightarrow>
      inner_big_number C P buf pos = and_then (convert P dec v) (\<lambda>x. Ok (x, pos + n))"
  using assms
  by (auto simp: parse_simple_string_def parse_simple_error_def parse_double_def parse_big_number_def
      inner_simple_string_def inner_error_def inner_double_def inner_big_number_def py_line_eq to_py_def
      utf8_or_eq_Ok convert_simps from_utf8_lossy_valid py_raise_def parse_f64_special Let_def
      utf8_or_def from_utf8_eq_Ok split: if_splits elim!: and_then_OkE)

lemma fixed_convert:
  "parse_null (drop pos buf) = Ok (v, n) \<Longrightarrow> inner_null buf pos = and_then (convert P dec v) (\<lambda>x. Ok (x, pos + n))"
  "parse_boolean (drop pos buf) = Ok (v, n) \<Longrightarrow> inner_boolean buf pos = and_then (convert P dec v) (\<lambda>x. Ok (x, pos + n))"
  by (auto simp: parse_null_def parse_boolean_def inner_null_def inner_boolean_def convert_simps
      less_diff_conv not_less le_diff_conv2 add.commute split: if_splits elim!: and_then_OkE)

lemma bulk_body_shift:
  assumes "pos \<le> length buf" and "bulk_body (drop pos buf) k len err g = Ok (v, n)"
  obtains d where "g d = Ok v" "n = k + len + 2" "\<not> length buf < pos + k + len + 2"
    "slice_range buf (pos + k) (pos + k + len) = (Ok d :: bytes py_res)" "length d = len"
  using assms
  by (auto simp: bulk_body_def slice_range_def add.commute add.left_commute split: if_splits elim!: and_then_OkE)

lemma bulks_convert:
  assumes "pos < length buf"
  shows "parse_bulk_string C (drop pos buf) = Ok (v, n) \<Longrightarrow>
      inner_bulk_string C buf pos dec = and_then (convert P dec v) (\<lambda>x. Ok (x, pos + n))"
    and "parse_bulk_error C (drop pos buf) = Ok (v, n) \<Longrightarrow>
      inner_bulk_error C buf pos = and_then (convert P dec v) (\<lambda>x. Ok (x, pos + n))"
    and "parse_verbatim_string C (drop pos buf) = Ok (v, n) \<Longrightarrow> fusable d v \<Longrightarrow>
      inner_verbatim C buf pos = and_then (convert P dec v) (\<lambda>x. Ok (x, pos + n))"
  unfolding bulk_alts
  using assms
  by (auto simp: inner_bulk_string_def inner_bulk_error_def inner_verbatim_def py_counted_eq convert_simps Let_def
      from_utf8_eq_Ok utf8_or_eq_Ok from_utf8_lossy_valid py_raise_def to_py_def verbatim_body_def add.assoc
      split: if_splits result.split elim!: and_then_OkE bulk_body_shift [OF less_imp_le, OF assms])

end

context python_env
begin

lemma integer_converts:
  "pos < length buf \<Longrightarrow> parse_integer C (drop pos buf) = Ok (v, n) \<Longrightarrow>
     inner_integer C P buf pos = and_then (convert P dec v) (\<lambda>x. Ok (x, pos + n))"
  by (auto simp: parse_integer_def inner_integer_def py_counted_eq new_long_ok convert_simps elim!: and_then_OkE)

text \<open>The aggregates, given what the recursive call does from the first element on.\<close>

lemma loops_convert:
  assumes IH: "\<forall>vs. list_all Q vs \<longrightarrow> converts (parse C) buf (Suc pos) f p vs"
    and "read_line C (drop pos buf) 1 = Ok (line, k)" and "parse_seq (parse C) (drop pos buf) k m [] = Ok (vs, k')"
    and "list_all Q vs"
  shows "length vs = m"
    and "py_seq p (pos + k) m = and_then (collect f vs) (\<lambda>xs. Ok (xs, pos + k'))"
    and "inner_items P p (pos + k) m s = and_then (fill_set P f vs s) (\<lambda>xs. Ok (xs, pos + k'))"
    and "flatten_pairs ps = vs \<Longrightarrow> inner_pairs P p (pos + k) (m div 2) e = and_then (fill_dict P f ps e) (\<lambda>xs. Ok (xs, pos + k'))"
proof -
  note r = parse_seq_run [OF assms(3)]
  have c: "converts (parse C) buf (pos + k) f p vs"
    using converts_subset [OF IH [rule_format, OF assms(4)] order.refl, of "pos + k"] line_next_ge [of "drop pos buf" line k] assms(2) by simp
  from r show "length vs = m" by simp
  from py_seq_run [OF _ c] inner_items_run [OF _ c] r
  show "py_seq p (pos + k) m = and_then (collect f vs) (\<lambda>xs. Ok (xs, pos + k'))"
    and "inner_items P p (pos + k) m s = and_then (fill_set P f vs s) (\<lambda>xs. Ok (xs, pos + k'))" by auto
  show "inner_pairs P p (pos + k) (m div 2) e = and_then (fill_dict P f ps e) (\<lambda>xs. Ok (xs, pos + k'))"
    if "flatten_pairs ps = vs"
    using inner_pairs_run [of "parse C" buf "pos + k" ps "pos + k'" f p P e] r c that by auto
qed

lemma aggregates_convert:
  assumes pos: "pos < length buf"
    and IH: "\<forall>vs. list_all (\<lambda>v. 0 < d \<and> fusable (d - 1) v) vs \<longrightarrow> converts (parse C) buf (Suc pos) (convert P dec) p vs"
    and fus: "fusable d v"
  shows "parse_array C (parse C) (drop pos buf) = Ok (v, n) \<Longrightarrow>
      inner_array C P p buf pos = and_then (convert P dec v) (\<lambda>x. Ok (x, pos + n))"
    and "parse_set C (parse C) (drop pos buf) = Ok (v, n) \<Longrightarrow>
      inner_set C P p buf pos = and_then (convert P dec v) (\<lambda>x. Ok (x, pos + n))"
    and "parse_map C (parse C) (drop pos buf) = Ok (v, n) \<Longrightarrow>
      inner_map C P p buf pos = and_then (convert P dec v) (\<lambda>x. Ok (x, pos + n))"
proof -
  assume "parse_array C (parse C) (drop pos buf) = Ok (v, n)"
  then obtain line k c where l: "read_line C (drop pos buf) 1 = Ok (line, k)" "parse_int_from_bytes line = Ok c"
    and "c < 0 \<and> v = Null \<and> n = k \<or> 0 \<le> c \<and> (\<exists>vs. parse_seq (parse C) (drop pos buf) k (nat c) [] = Ok (vs, n) \<and> v = Array vs)"
    unfolding parse_array_def by (auto split: if_splits elim!: and_then_OkE)
  with loops_convert(1,2) [OF IH l(1)] fus show
    "inner_array C P p buf pos = and_then (convert P dec v) (\<lambda>x. Ok (x, pos + n))"
    by (auto simp: inner_array_def py_counted_eq [OF pos l] convert_simps validated_count_ok build_pylist_seq new_list_ok py_list_def and_then_assoc)
next
  assume "parse_set C (parse C) (drop pos buf) = Ok (v, n)"
  then obtain line k c vs where l: "read_line C (drop pos buf) 1 = Ok (line, k)" "parse_int_from_bytes line = Ok c"
    and "0 \<le> c" "parse_seq (parse C) (drop pos buf) k (nat c) [] = Ok (vs, n)" "v = Set vs"
    unfolding parse_set_def by (auto split: if_splits elim!: and_then_OkE)
  with loops_convert(1,3) [OF IH l(1)] fus show
    "inner_set C P p buf pos = and_then (convert P dec v) (\<lambda>x. Ok (x, pos + n))"
    by (auto simp: inner_set_def py_counted_eq [OF pos l] convert_simps validated_count_ok and_then_assoc)
next
  assume "parse_map C (parse C) (drop pos buf) = Ok (v, n)"
  then obtain line k c vs where l: "read_line C (drop pos buf) 1 = Ok (line, k)" "parse_int_from_bytes line = Ok c"
    and s: "0 \<le> c" "parse_seq (parse C) (drop pos buf) k (2 * nat c) [] = Ok (vs, n)" "v = Map (pair_up vs)"
    unfolding parse_map_def parse_pairs_seq by (auto split: if_splits elim!: and_then_OkE)
  have vs: "flatten_pairs (pair_up vs) = vs" "length (pair_up vs) = nat c"
    using parse_seq_length [OF s(2)] by (auto simp: flatten_pair_up length_pair_up)
  with fus s(3) have "list_all (\<lambda>v. 0 < d \<and> fusable (d - 1) v) vs"
    using fusable_flat [of "\<lambda>v. 0 < d \<and> fusable (d - 1) v" "pair_up vs"] by (auto simp: split_def list_all_iff)
  from loops_convert(4) [OF IH l(1) s(2) this vs(1)] vs(2) s fus show
    "inner_map C P p buf pos = and_then (convert P dec v) (\<lambda>x. Ok (x, pos + n))"
    by (auto simp: inner_map_def py_counted_eq [OF pos l] convert_simps validated_count_ok and_then_assoc)
qed

lemma convert_push: "convert P dec (Push kind data) = and_then (collect (convert P dec) data) (\<lambda>xs. Ok (PyList xs))"
proof -
  have "py_list P = (\<lambda>xs. Ok (PyList xs))" by (intro ext) (simp add: py_list_def new_list_ok)
  then show ?thesis by (cases dec) (simp_all add: convert_def resp_to_python_decoded.simps)
qed

lemma push_attribute_not_fusable:
  "parse_push C q b = Ok (v, n) \<Longrightarrow> \<not> fusable d v" "parse_attribute C q b = Ok (v, n) \<Longrightarrow> \<not> fusable d v"
  by (auto simp: parse_push_def parse_attribute_def Let_def split: if_splits elim!: and_then_OkE)

lemma parse_inner_converts:
  assumes "parse C (drop pos buf) = Ok (v, n)" and "fusable (MAX_PARSE_DEPTH - depth) v" and "depth \<le> MAX_PARSE_DEPTH"
  shows "parse_inner C P buf pos depth dec = and_then (convert P dec v) (\<lambda>x. Ok (x, pos + n))"
  using assms
proof (induction "length buf - pos" arbitrary: pos depth v n rule: less_induct)
  case less
  have pos: "pos < length buf" using less.prems(1) by (rule contrapos_pp) (simp add: parse_unfold)
  let ?d = "MAX_PARSE_DEPTH - depth" and ?p = "\<lambda>pos. parse_inner C P buf pos (Suc depth) dec"
  have IH: "\<forall>vs. list_all (\<lambda>v. 0 < ?d \<and> fusable (?d - 1) v) vs \<longrightarrow>
      converts (parse C) buf (Suc pos) (convert P dec) ?p vs"
    using less.hyps pos by (auto simp: converts_def list_all_iff)
  note branches = lines_convert [OF pos] fixed_convert bulks_convert [OF pos] integer_converts [OF pos]
    aggregates_convert [OF pos IH less.prems(2)]
  from less.prems(1) pos have t: "parse_by_type (buf ! pos) (drop pos buf) = Ok (v, n)"
    by (simp add: parse_unfold)
  then show ?case
    using less.prems(2,3) pos
    by (subst parse_inner.simps) (auto simp: Let_def parse_by_type_def branches dest: push_attribute_not_fusable split: if_splits)
qed

lemmas parse_branch_defs = parse_by_type_def parse_simple_string_def parse_simple_error_def parse_integer_def
  parse_bulk_string_def parse_array_def parse_null_def parse_boolean_def parse_double_def parse_big_number_def
  parse_bulk_error_def parse_verbatim_string_def parse_map_def parse_set_def parse_attribute_def

lemma push_by_type: "parse_by_type t b = Ok (Push kind data, n) \<Longrightarrow> t = CHR ''>''"
  by (auto simp: parse_branch_defs Let_def split: if_split_asm elim!: and_then_OkE)

lemma parse_inner_push:
  assumes "parse C buf = Ok (Push kind data, n)" and "length data < MAX_RESP_ELEMENTS"
    and "list_all (fusable (MAX_PARSE_DEPTH - 1)) data"
  shows "\<exists>k\<in>{PyStr kind, PyBytes kind}. parse_to_python C P buf dec =
      and_then (collect (convert P dec) data) (\<lambda>xs. Ok (PyList (k # xs), n))"
proof -
  have buf: "buf \<noteq> []" using assms(1) by (auto simp: parse.simps)
  let ?p = "\<lambda>pos. parse_inner C P buf pos (Suc 0) dec"
  have IH: "\<forall>vs. list_all (fusable (MAX_PARSE_DEPTH - 1)) vs \<longrightarrow> converts (parse C) buf (Suc 0) (convert P dec) ?p vs"
    using parse_inner_converts [of _ buf _ _ "Suc 0" dec] by (auto simp: converts_def list_all_iff MAX_PARSE_DEPTH_def)
  have "buf ! 0 = CHR ''>''" "parse_push C (parse C) buf = Ok (Push kind data, n)"
    using assms(1) buf push_by_type [of "buf ! 0" buf kind data n] by (simp_all add: parse_unfold parse_by_type_def)
  then obtain line k c kv m where l: "read_line C (drop 0 buf) 1 = Ok (line, k)" "parse_int_from_bytes line = Ok c"
    and c: "0 < c" and kv: "parse C (drop k buf) = Ok (kv, m)" "push_kind kv = Ok kind" "k \<le> length buf"
    and rest: "parse_seq (parse C) (drop 0 buf) (k + m) (nat c - 1) [] = Ok (data, n)"
    by (auto simp: parse_push_def Let_def slice_from_eq_Ok split: if_split_asm elim!: and_then_OkE)
  from kv(2) have kind: "fusable d kv" "\<exists>k\<in>{PyStr kind, PyBytes kind}. convert P dec kv = Ok k" for d
    by (auto simp: push_kind_def utf8_or_eq_Ok convert_simps split: RespValue.splits)
  note r = parse_seq_run [OF rest]
  have run: "run (parse C) buf k (kv # data) n" using r kv(1) by auto
  have "nat c = length (kv # data)" using r c by simp
  moreover have "converts (parse C) buf (Suc 0) (convert P dec) ?p (kv # data)"
    using IH [rule_format, of "kv # data"] kind(1) assms(3) by simp
  then have "converts (parse C) buf k (convert P dec) ?p (kv # data)"
    using line_next_ge [of buf line k] l(1) by (elim converts_subset) simp_all
  ultimately have "py_seq ?p k (nat c) = and_then (collect (convert P dec) (kv # data)) (\<lambda>xs. Ok (xs, n))"
    using py_seq_run [OF run] by metis
  moreover have "validated_count c = Ok (nat c)" using r c assms(2) by (intro validated_count_ok) auto
  ultimately have "inner_push C P ?p buf 0 = and_then (collect (convert P dec) (kv # data)) (\<lambda>xs. Ok (PyList xs, n))"
    using buf by (simp add: inner_push_def py_counted_eq [of 0 buf line k c, OF _ l] build_pylist_seq new_list_ok and_then_assoc)
  moreover have "parse_to_python C P buf dec = inner_push C P ?p buf 0"
    using buf \<open>buf ! 0 = CHR ''>''\<close> by (simp add: parse_to_python_def parse_inner.simps)
  ultimately show ?thesis using kind(2) by (auto simp: and_then_assoc)
qed

end

section \<open>The fused parser on a complete frame\<close>

text \<open>Neither a panic nor a request for more bytes, and a value ends where it should.\<close>

definition settles :: "nat \<Rightarrow> ('a \<times> nat) py_res \<Rightarrow> bool" where
  "settles E m \<longleftrightarrow> m \<noteq> Panic \<and> m \<noteq> py_raise Incomplete \<and> (\<forall>x e. m = Ok (x, e) \<longrightarrow> e = E)"

lemma into_pyerr_Incomplete: "into_pyerr e = into_pyerr Incomplete \<longleftrightarrow> e = Incomplete"
  by (cases e) (auto simp: into_pyerr_def py_class_def split: RedisErrorKind.splits)

lemma foreign_not_Incomplete: "foreign e \<Longrightarrow> e \<noteq> into_pyerr Incomplete"
  using foreign_into_pyerr by blast

lemma settles_simps [simp]:
  "settles E (Ok (x, e)) \<longleftrightarrow> e = E" "settles E (py_raise err) \<longleftrightarrow> err \<noteq> Incomplete"
  by (auto simp: settles_def py_raise_def into_pyerr_Incomplete)

lemma settles_bind:
  assumes "settles E' m" and "\<And>x. m = Ok (x, E') \<Longrightarrow> settles E (f (x, E'))"
  shows "settles E (and_then m f)"
proof (cases m)
  case (Ok r)
  with assms(1) have "m = Ok (fst r, E')" by (cases r) (simp add: settles_def)
  then show ?thesis using assms(2) by simp
qed (use assms(1) in \<open>simp_all add: settles_def py_raise_def\<close>)

lemma settles_behaved:
  assumes "well_behaved m" and "\<And>x. m = Ok x \<Longrightarrow> settles E (f x)"
  shows "settles E (and_then m f)"
  using assms foreign_not_Incomplete by (cases m) (auto simp: settles_def well_behaved_def py_raise_def)

lemma settles_to_py:
  assumes "r \<noteq> Panic" "r \<noteq> Err Incomplete" and "\<And>x. r = Ok x \<Longrightarrow> settles E (f x)"
  shows "settles E (and_then (to_py r) f)"
  using assms by (cases r) (auto simp: settles_def to_py_def py_raise_def into_pyerr_Incomplete)

lemma settles_validated:
  assumes "\<And>n. c = int n \<Longrightarrow> n \<le> MAX_RESP_ELEMENTS \<Longrightarrow> settles E (f n)"
  shows "settles E (and_then (validated_count c) f)"
  using assms [of "nat c"]
  by (cases "c < 0"; cases "nat c \<le> MAX_RESP_ELEMENTS")
     (auto simp: validated_count_def py_raise_def settles_def into_pyerr_Incomplete)

definition settles_from :: "(bytes \<Rightarrow> ('a \<times> nat) res) \<Rightarrow> bytes \<Rightarrow> nat \<Rightarrow> (nat \<Rightarrow> py_parsed) \<Rightarrow> bool" where
  "settles_from q buf start p \<longleftrightarrow>
     (\<forall>pos v n. start \<le> pos \<longrightarrow> q (drop pos buf) = Ok (v, n) \<longrightarrow> settles (pos + n) (p pos))"

lemma settles_fromD:
  "settles_from q buf pos p \<Longrightarrow> q (drop pos buf) = Ok (v, n) \<Longrightarrow> settles (pos + n) (p pos) \<and> settles_from q buf (pos + n) p"
  by (auto simp: settles_from_def)

context python_env
begin

lemma py_seq_settles:
  "run q buf pos vs pos' \<Longrightarrow> settles_from q buf pos p \<Longrightarrow> settles pos' (py_seq p pos (length vs))"
proof (induction pos vs pos' rule: run.induct)
  case (run_Cons pos v n vs pos')
  note s = settles_fromD [OF run_Cons.prems run_Cons.hyps(1)]
  have "settles pos' (py_seq p (pos + n) (length vs))" using run_Cons.IH s by simp
  then show ?case
    using s by (simp, intro settles_bind [where E' = "pos + n"]) (auto intro: settles_bind [where E' = pos'])
qed simp

lemma inner_items_settles:
  "run q buf pos vs pos' \<Longrightarrow> settles_from q buf pos p \<Longrightarrow> settles pos' (inner_items P p pos (length vs) s)"
proof (induction pos vs pos' arbitrary: s rule: run.induct)
  case (run_Cons pos v n vs pos')
  note s = settles_fromD [OF run_Cons.prems run_Cons.hyps(1)]
  then show ?case
    using run_Cons.IH by (simp, intro settles_bind [where E' = "pos + n"]) (auto intro: settles_behaved set_add_behaves)
qed simp

lemma inner_pairs_settles:
  "run q buf pos vs pos' \<Longrightarrow> settles_from q buf pos p \<Longrightarrow> length vs = 2 * m \<Longrightarrow> settles pos' (inner_pairs P p pos m d)"
proof (induction m arbitrary: pos vs d)
  case (Suc m)
  from Suc.prems(3) obtain k v vs' where vs: "vs = k # v # vs'" "length vs' = 2 * m"
    by (cases vs rule: pair_up.cases) auto
  with Suc.prems(1) obtain i j where r: "q (drop pos buf) = Ok (k, i)" "q (drop (pos + i) buf) = Ok (v, j)"
    "run q buf (pos + i + j) vs' pos'" by auto
  note s1 = settles_fromD [OF Suc.prems(2) r(1)]
  note s2 = settles_fromD [OF s1 [THEN conjunct2] r(2)]
  show ?case
    using s1 s2 Suc.IH [OF r(3) s2 [THEN conjunct2] vs(2)]
    by (simp, intro settles_bind [where E' = "pos + i"], simp, simp, intro settles_bind [where E' = "pos + i + j"])
       (auto intro: settles_behaved dict_set_behaves)
qed simp

lemma line_settles:
  assumes "pos < length buf" and "read_line C (drop pos buf) 1 = Ok (line, k)" and "settles E (f line (pos + k))"
  shows "settles E (py_line C buf pos f)"
  using assms by (simp add: py_line_eq to_py_def)

lemma counted_settles:
  assumes "pos < length buf" and "read_line C (drop pos buf) 1 = Ok (line, k)" and "parse_int_from_bytes line = Ok c"
    and "settles E (f c (pos + k))"
  shows "settles E (py_counted C buf pos f)"
  using assms by (simp add: py_counted_eq)

lemma fused_parse_int_settles [simp]: "fused_parse_int line \<noteq> Panic" "fused_parse_int line \<noteq> Err Incomplete"
  by (auto simp: fused_parse_int_def Let_def split: option.splits)

lemma lines_settle:
  assumes "pos < length buf" and "frame_line C (drop pos buf) = Ok n"
  shows "settles (pos + n) (inner_simple_string C buf pos)" "settles (pos + n) (inner_error C buf pos)"
    "settles (pos + n) (inner_integer C P buf pos)" "settles (pos + n) (inner_double C buf pos)"
    "settles (pos + n) (inner_big_number C P buf pos)"
proof -
  from assms(2) obtain line where l: "read_line C (drop pos buf) 1 = Ok (line, n)"
    by (auto simp: frame_line_def elim!: and_then_OkE)
  show "settles (pos + n) (inner_simple_string C buf pos)" "settles (pos + n) (inner_error C buf pos)"
    "settles (pos + n) (inner_integer C P buf pos)" "settles (pos + n) (inner_double C buf pos)"
    "settles (pos + n) (inner_big_number C P buf pos)"
    unfolding inner_simple_string_def inner_error_def inner_integer_def inner_double_def inner_big_number_def py_counted_def
    by (auto intro!: line_settles [OF assms(1) l] settles_to_py settles_behaved [OF py_int_behaves] simp: redis_error_eq new_long_ok map_err_eq_Err)
qed

lemma bulks_settle:
  assumes "pos < length buf" and "frame_bulk C (drop pos buf) = Ok n"
  shows "settles (pos + n) (inner_bulk_string C buf pos dec)" "settles (pos + n) (inner_bulk_error C buf pos)"
    "settles (pos + n) (inner_verbatim C buf pos)"
proof -
  from assms(2) obtain line k c where l: "read_line C (drop pos buf) 1 = Ok (line, k)" "parse_int_from_bytes line = Ok c"
    and "if c < 0 then n = k else n = k + nat c + 2 \<and> n \<le> length (drop pos buf)"
    by (auto simp: frame_bulk_def Let_def split: if_split_asm elim!: and_then_OkE)
  then have n: "if c < 0 then n = k else n = k + nat c + 2 \<and> pos + k + nat c + 2 \<le> length buf"
    using assms(1) by auto
  show "settles (pos + n) (inner_bulk_string C buf pos dec)"
    unfolding inner_bulk_string_def by (rule counted_settles [OF assms(1) l]) (use n in \<open>auto simp: Let_def split: result.split if_split_asm\<close>)
  show "settles (pos + n) (inner_bulk_error C buf pos)"
    unfolding inner_bulk_error_def by (rule counted_settles [OF assms(1) l]) (use n in \<open>auto simp: Let_def redis_error_eq split: if_split_asm\<close>)
  show "settles (pos + n) (inner_verbatim C buf pos)"
    unfolding inner_verbatim_def
    by (rule counted_settles [OF assms(1) l]) (use n in \<open>auto simp: Let_def intro!: settles_to_py split: if_split_asm\<close>)
qed

text \<open>The aggregates, given that the recursive call settles from the first element on.\<close>

lemma settles_from_line:
  "settles_from q buf (Suc pos) p \<Longrightarrow> read_line C (drop pos buf) 1 = Ok (line, k) \<Longrightarrow> settles_from q buf (pos + k) p"
  using line_next_ge [of "drop pos buf" line k] by (auto simp: settles_from_def)

lemma frame_array_settles:
  assumes pos: "pos < length buf" and IH: "settles_from (forget (resp_frame_len C)) buf (Suc pos) p"
    and f: "frame_array C (resp_frame_len C) (drop pos buf) = Ok n"
  shows "settles (pos + n) (inner_array C P p buf pos)" "settles (pos + n) (inner_set C P p buf pos)"
    "settles (pos + n) (inner_push C P p buf pos)"
proof -
  let ?q = "forget (resp_frame_len C)"
  from f have "forget (frame_array C (resp_frame_len C)) (drop pos buf) = Ok (Null, n)" by (simp add: forget_def)
  then obtain line k c where l: "read_line C (drop pos buf) 1 = Ok (line, k)" "parse_int_from_bytes line = Ok c"
    and s: "c < 0 \<and> n = k \<or> 0 \<le> c \<and> (\<exists>vs. parse_seq ?q (drop pos buf) k (nat c) [] = Ok (vs, n))"
    unfolding forget_frames by (auto split: if_split_asm elim!: and_then_OkE)
  note from_k = settles_from_line [OF IH l(1)]
  have seq: "settles (pos + n) (py_seq p (pos + k) (nat c))"
    and items: "settles (pos + n) (inner_items P p (pos + k) (nat c) x)" if "0 \<le> c" for x
  proof -
    from s that obtain vs where "run ?q buf (pos + k) vs (pos + n)" "length vs = nat c"
      using parse_seq_run by fastforce
    with py_seq_settles [OF _ from_k] inner_items_settles [OF _ from_k]
    show "settles (pos + n) (py_seq p (pos + k) (nat c))" "settles (pos + n) (inner_items P p (pos + k) (nat c) x)"
      by metis+
  qed
  have built: "settles (pos + n) (build_pylist_ffi P p (pos + k) (nat c))" if "0 \<le> c"
    unfolding build_pylist_seq new_list_ok and_then.simps by (rule settles_bind [OF seq [OF that]]) simp
  show "settles (pos + n) (inner_array C P p buf pos)"
    unfolding inner_array_def
    by (rule counted_settles [OF pos l]) (use s built in \<open>auto intro!: settles_validated\<close>)
  show "settles (pos + n) (inner_push C P p buf pos)"
    unfolding inner_push_def
    by (rule counted_settles [OF pos l], rule settles_validated) (use built in auto)
  show "settles (pos + n) (inner_set C P p buf pos)"
    unfolding inner_set_def
    by (rule counted_settles [OF pos l], rule settles_validated, rule settles_bind [where E' = "pos + n"])
       (use items in auto)
qed

lemma frame_pairs_settles:
  assumes pos: "pos < length buf" and IH: "settles_from (forget (resp_frame_len C)) buf (Suc pos) p"
  shows "frame_map C (resp_frame_len C) (drop pos buf) = Ok n \<Longrightarrow> settles (pos + n) (inner_map C P p buf pos)"
    and "frame_attribute C (resp_frame_len C) (drop pos buf) = Ok n \<Longrightarrow> settles (pos + n) (inner_attribute C P p buf pos)"
proof -
  let ?q = "forget (resp_frame_len C)"
  have dicts: "settles (pos + e) (inner_pairs P p (pos + k) (nat c) d)"
    if "read_line C (drop pos buf) 1 = Ok (line, k)" "run ?q buf (pos + k) vs (pos + e)" "length vs = 2 * nat c"
    for line k c vs e d
    using inner_pairs_settles [OF that(2) settles_from_line [OF IH that(1)] that(3)] .
  show "settles (pos + n) (inner_map C P p buf pos)" if f: "frame_map C (resp_frame_len C) (drop pos buf) = Ok n"
  proof -
    from f have "forget (frame_map C (resp_frame_len C)) (drop pos buf) = Ok (Null, n)" by (simp add: forget_def)
    then obtain line k c vs where l: "read_line C (drop pos buf) 1 = Ok (line, k)" "parse_int_from_bytes line = Ok c"
      and s: "0 \<le> c" "parse_seq ?q (drop pos buf) k (2 * nat c) [] = Ok (vs, n)"
      unfolding forget_frames by (auto split: if_split_asm elim!: and_then_OkE)
    have "settles (pos + n) (inner_pairs P p (pos + k) (nat c) [])"
      using dicts [OF l(1)] parse_seq_run [OF s(2)] by blast
    then show ?thesis
      unfolding inner_map_def
      by (intro counted_settles [OF pos l] settles_validated settles_bind [where E' = "pos + n"]) auto
  qed
  show "settles (pos + n) (inner_attribute C P p buf pos)"
    if f: "frame_attribute C (resp_frame_len C) (drop pos buf) = Ok n"
  proof -
    from f have "forget (frame_attribute C (resp_frame_len C)) (drop pos buf) = Ok (Null, n)" by (simp add: forget_def)
    then obtain line k c vs where l: "read_line C (drop pos buf) 1 = Ok (line, k)" "parse_int_from_bytes line = Ok c"
      and s: "0 \<le> c" "parse_seq ?q (drop pos buf) k (Suc (2 * nat c)) [] = Ok (vs, n)"
      unfolding forget_frames by (auto split: if_split_asm elim!: and_then_OkE simp del: parse_seq.simps)
    from parse_seq_run [OF s(2)] obtain ws v where "run ?q buf (pos + k) (ws @ [v]) (pos + n)" "length ws = 2 * nat c"
      by (metis length_Suc_conv_rev)
    then obtain e j where r: "run ?q buf (pos + k) ws e" "?q (drop e buf) = Ok (v, j)" "e + j = pos + n" "length ws = 2 * nat c"
      by (auto simp: run_append)
    have e: "settles e (inner_pairs P p (pos + k) (nat c) [])"
      using inner_pairs_settles [OF r(1) settles_from_line [OF IH l(1)] r(4)] .
    have "Suc pos \<le> e" using run_mono [OF r(1)] line_next_ge [of "drop pos buf" line k] l(1) by simp
    then have v: "settles (pos + n) (p e)" using IH r(2,3) unfolding settles_from_def by metis
    show ?thesis
      unfolding inner_attribute_def
      by (rule counted_settles [OF pos l], rule settles_validated, rule settles_bind [where E' = e],
          use e in auto)
         (auto intro!: settles_bind [OF v] settles_behaved [OF dict_set_behaves])
  qed
qed

lemma parse_inner_settles:
  "resp_frame_len C (drop pos buf) = Ok n \<Longrightarrow> settles (pos + n) (parse_inner C P buf pos depth dec)"
proof (induction "length buf - pos" arbitrary: pos depth n rule: less_induct)
  case less
  have pos: "pos < length buf" using less.prems(1) by (rule contrapos_pp) (simp add: frame_unfold)
  let ?p = "\<lambda>pos. parse_inner C P buf pos (Suc depth) dec"
  have IH: "settles_from (forget (resp_frame_len C)) buf (Suc pos) ?p"
    using less.hyps pos by (auto simp: settles_from_def forget_def elim!: and_then_OkE)
  note branches = lines_settle [OF pos] bulks_settle [OF pos] frame_array_settles [OF pos IH] frame_pairs_settles [OF pos IH]
  from less.prems pos have "frame_by_type (buf ! pos) (drop pos buf) = Ok n"
    by (simp add: frame_unfold)
  with pos show ?case
    by (subst parse_inner.simps)
       (auto simp: Let_def frame_by_type_def branches inner_null_def inner_boolean_def split: if_split_asm)
qed

end

section \<open>Properties\<close>

text \<open>
  C4: The single pass changes nothing. On every reply the parser accepts, within the fused
  parser's own limits and without pushes, attributes and empty verbatim strings, it gives
  the same Python object, or raises the same exception, as parsing and then converting,
  in both decoding modes, and consumes the same bytes.
\<close>

theorem fused_equals_parse_then_convert:
  assumes "python_env C P" and "parse C buf = Ok (v, n)" and "fusable MAX_PARSE_DEPTH v"
  shows "parse_to_python C P buf decode =
    and_then (if decode then resp_to_python_decoded P v else resp_to_python P v) (\<lambda>x. Ok (x, n))"
proof -
  have "buf \<noteq> []" using assms(2) by (auto simp: parse.simps)
  then show ?thesis
    using python_env.parse_inner_converts [OF assms(1), of 0 buf v n 0 decode] assms(2,3)
    by (cases decode) (simp_all add: parse_to_python_def convert_def)
qed

definition nested_reply :: bytes where
  "nested_reply = ''*3'' @ crlf @ ''$2'' @ crlf @ ''hi'' @ crlf @ ''%1'' @ crlf @ ''+k'' @ crlf @ '':7'' @ crlf @ ''_'' @ crlf"

theorem fused_equals_parse_then_convert_witness:
  "parse_to_python (documented_crates (\<lambda>_. True)) (documented_python sample_int) nested_reply True =
     Ok (PyList [PyStr ''hi'', PyDict [(PyStr ''k'', PyInt 7)], PyNone], 27)"
proof -
  let ?v = "Array [BulkString ''hi'', Map [(SimpleString ''k'', Integer 7)], Null]"
  have "parse (documented_crates (\<lambda>_. True)) nested_reply = Ok (?v, 27)" by code_simp
  moreover have "fusable MAX_PARSE_DEPTH ?v"
    by (simp add: MAX_RESP_ELEMENTS_def MAX_PARSE_DEPTH_def)
  moreover have "resp_to_python_decoded (documented_python sample_int) ?v =
      Ok (PyList [PyStr ''hi'', PyDict [(PyStr ''k'', PyInt 7)], PyNone])" by code_simp
  ultimately show ?thesis
    using fused_equals_parse_then_convert [OF sample_py.python_env_axioms, of "\<lambda>_. True" nested_reply ?v 27 True] by simp
qed

text \<open>
  C24: A frame the scanner delimits is complete for the fused parser: it never asks for more
  bytes and never panics (so every slot of every list it builds is set), and a value it
  returns ends exactly where the frame ends.
\<close>

theorem fused_on_complete_frame:
  assumes "python_env C P" and "resp_frame_len C buf = Ok n"
  shows "parse_to_python C P buf decode \<noteq> Panic \<and> parse_to_python C P buf decode \<noteq> py_raise Incomplete \<and>
    (\<forall>x e. parse_to_python C P buf decode = Ok (x, e) \<longrightarrow> e = n)"
proof -
  have "buf \<noteq> []" using assms(2) by (auto simp: resp_frame_len.simps)
  then show ?thesis
    using python_env.parse_inner_settles [OF assms(1), of 0 buf n 0 decode] assms(2)
    by (simp add: parse_to_python_def settles_def)
qed

theorem fused_on_complete_frame_witness:
  "parse_to_python (documented_crates (\<lambda>_. True)) (documented_python sample_int) sample_reply True \<noteq> py_raise Incomplete"
  using fused_on_complete_frame [OF sample_py.python_env_axioms sample_frame, of True] by simp

text \<open>
  The fused integer reader does not check for overflow, although the frame scanner does
  not look at integer replies: a reply above the 64-bit range, which the parser rejects,
  passes the scanner and becomes an unrelated Python integer.
\<close>

lemma fused_integer_wraps:
  "resp_frame_len (documented_crates a) ('':18446744073709551623'' @ crlf) = Ok 23 \<and>
   parse (documented_crates a) ('':18446744073709551623'' @ crlf) = Err (Protocol ''integer overflow'') \<and>
   parse_to_python (documented_crates a) (documented_python sample_int) ('':18446744073709551623'' @ crlf) dec = Ok (PyInt 7, 23)"
  by (intro conjI; code_simp)

text \<open>
  The two paths differ on push messages: the fused parser returns the kind as the first
  element of the list, the conversion of the parsed value drops it.
\<close>

lemma fused_push_keeps_kind:
  assumes "python_env C P" and "parse C buf = Ok (Push kind data, n)" and "length data < MAX_RESP_ELEMENTS"
    and "list_all (fusable (MAX_PARSE_DEPTH - 1)) data"
  shows "\<exists>k\<in>{PyStr kind, PyBytes kind}. parse_to_python C P buf decode =
      and_then (collect (convert P decode) data) (\<lambda>xs. Ok (PyList (k # xs), n)) \<and>
    convert P decode (Push kind data) = and_then (collect (convert P decode) data) (\<lambda>xs. Ok (PyList xs))"
  using python_env.parse_inner_push [OF assms] python_env.convert_push [OF assms(1)] by metis

lemma fused_push_keeps_kind_witness:
  "\<exists>k\<in>{PyStr ''k'', PyBytes ''k''}.
    parse_to_python (documented_crates (\<lambda>_. True)) (documented_python sample_int)
      (''>2'' @ crlf @ ''+k'' @ crlf @ '':1'' @ crlf) True = Ok (PyList [k, PyInt 1], 12)"
proof -
  have "parse (documented_crates (\<lambda>_. True)) (''>2'' @ crlf @ ''+k'' @ crlf @ '':1'' @ crlf) = Ok (Push ''k'' [Integer 1], 12)"
    by code_simp
  from fused_push_keeps_kind [OF sample_py.python_env_axioms this, of True] show ?thesis
    by (auto simp: MAX_RESP_ELEMENTS_def convert_simps)
qed

text \<open>An empty verbatim string keeps its encoding prefix in the fused parser only.\<close>

lemma fused_empty_verbatim:
  "parse_to_python (documented_crates a) P (''=4'' @ crlf @ ''txt:'' @ crlf) dec = Ok (PyStr ''txt:'', 10)"
  "parse (documented_crates a) (''=4'' @ crlf @ ''txt:'' @ crlf) = Ok (VerbatimString ''txt'' [], 10)"
  "resp_to_python P (VerbatimString ''txt'' []) = Ok (PyStr [])"
  by code_simp+

end
