(* ===== verification/Client.thy ===== *)
theory Client
  imports Fused Standalone
begin

text \<open>
  \<open>src/src/client.rs\<close>: the classes \<open>Redis\<close> and \<open>Pipeline\<close> that Python code uses. A client and
  the pipelines made from it share one router through an \<open>Arc\<close>, so its connection pool is
  passed from call to call beside the objects. The arguments are those the bindings have
  already converted: \<open>&str\<close> and \<open>String\<close> are \<^typ>\<open>string\<close>, \<open>u16\<close>, \<open>u32\<close>, \<open>u64\<close> and \<open>usize\<close> are
  \<^typ>\<open>nat\<close>, \<open>i64\<close> is \<^typ>\<open>int\<close>. A call that never returns is \<open>None\<close>.

  The lemmas follow a command from the Python call to its converted reply, compare the
  methods of \<open>Pipeline\<close> with those of \<open>Redis\<close>, and show what \<open>set\<close> and \<open>ping\<close> make of errors.
\<close>

section \<open>Objects\<close>

record Redis =
  client_addr :: string
  decode_responses :: bool

record Pipeline =
  commands :: "string list list"
  pipe_decode :: bool

text \<open>
  What a call runs in: the crates, the interpreter, the network while it runs, and the two
  conversions of PyO3 that methods call themselves.
\<close>

record client_ctx =
  ctx_crates :: crates
  ctx_python :: python
  ctx_env :: call_env
  extract_string :: "pyobj \<Rightarrow> string py_res"
  extract_f64 :: "pyobj \<Rightarrow> f64 py_res"

type_synonym 'a call = "ConnectionPool \<Rightarrow> ('a py_res \<times> ConnectionPool) option"

text \<open>\<open>py.detach(|| runtime::block_on(self.router.execute_raw(args))).map_err(into)?\<close>\<close>

definition router_raw :: "client_ctx \<Rightarrow> string list \<Rightarrow> (bytes \<Rightarrow> 'a py_res) \<Rightarrow> 'a call" where
  "router_raw X args k pool =
     (case execute_raw (ctx_crates X) (ctx_env X) args pool of
        None \<Rightarrow> None
      | Some (r, pool) \<Rightarrow> Some (and_then (to_py r) k, pool))"

text \<open>\<open>let (obj, _) = parse_to_python(py, raw, decode)?; Ok(obj)\<close>\<close>

definition reply_object :: "client_ctx \<Rightarrow> bool \<Rightarrow> bytes \<Rightarrow> pyobj py_res" where
  "reply_object X decode raw =
     and_then (parse_to_python (ctx_crates X) (ctx_python X) raw decode) (\<lambda>(obj, _). Ok obj)"

definition exec_raw :: "client_ctx \<Rightarrow> Redis \<Rightarrow> string list \<Rightarrow> pyobj call" where
  "exec_raw X self args = router_raw X args (reply_object X (decode_responses self))"

section \<open>Construction\<close>

definition redis_new :: "string \<Rightarrow> nat \<Rightarrow> nat \<Rightarrow> string option \<Rightarrow> string option \<Rightarrow> nat \<Rightarrow> nat \<Rightarrow> nat \<Rightarrow> nat \<Rightarrow> nat \<Rightarrow> bool
    \<Rightarrow> (Redis \<times> ConnectionPool) py_res" where
  "redis_new host_arg port_arg db_arg password_arg username_arg max_conns connect_ms read_ms idle_ms max_buffer decode =
     (if max_conns = 0 then py_raise (TypeErr ''pool_size must be > 0'')
      else let config = \<lparr>cfg_host = host_arg, cfg_port = port_arg, cfg_username = username_arg,
                         cfg_password = password_arg, cfg_db = db_arg, cfg_tls = False,
                         cfg_topology = Standalone, cfg_pool_size = max_conns,
                         cfg_connect_timeout_ms = connect_ms, cfg_read_timeout_ms = read_ms, cfg_idle_timeout_ms = idle_ms,
                         cfg_max_buffer_size = max_buffer\<rparr>
           in Ok (\<lparr>client_addr = primary_addr config, decode_responses = decode\<rparr>, standalone_new config))"

definition redis_from_url :: "string \<Rightarrow> nat \<Rightarrow> nat \<Rightarrow> nat \<Rightarrow> nat \<Rightarrow> bool \<Rightarrow> (Redis \<times> ConnectionPool) py_res" where
  "redis_from_url url max_conns connect_ms read_ms idle_ms decode =
     and_then (to_py (from_url url)) (\<lambda>config.
       let config = config\<lparr>cfg_pool_size := max_conns, cfg_connect_timeout_ms := connect_ms, cfg_read_timeout_ms := read_ms,
                           cfg_idle_timeout_ms := idle_ms\<rparr>
       in Ok (\<lparr>client_addr = primary_addr config, decode_responses = decode\<rparr>, standalone_new config))"

definition redis_execute_command :: "client_ctx \<Rightarrow> Redis \<Rightarrow> string list \<Rightarrow> pyobj call" where
  "redis_execute_command X self args pool =
     (if args = [] then Some (py_raise (TypeErr ''execute_command requires at least one argument''), pool)
      else exec_raw X self args pool)"

definition redis_pipeline :: "Redis \<Rightarrow> Pipeline" where
  "redis_pipeline self = \<lparr>commands = [], pipe_decode = decode_responses self\<rparr>"

section \<open>Commands of \<open>Redis\<close>\<close>

text \<open>The optional trailing arguments.\<close>

definition opt_arg :: "('a \<Rightarrow> string list) \<Rightarrow> 'a option \<Rightarrow> string list" where
  "opt_arg f x = (case x of None \<Rightarrow> [] | Some a \<Rightarrow> f a)"

definition flag :: "bool \<Rightarrow> string \<Rightarrow> string list" where
  "flag b s = (if b then [s] else [])"

lemma opt_arg_simps [simp]: "opt_arg f None = []" "opt_arg f (Some a) = f a"
  by (simp_all add: opt_arg_def)

lemma flag_simps [simp]: "flag True s = [s]" "flag False s = []"
  by (simp_all add: flag_def)

definition redis_ping :: "client_ctx \<Rightarrow> Redis \<Rightarrow> bool call" where
  "redis_ping X self = router_raw X [''PING''] (\<lambda>raw. Ok (5 \<le> length raw \<and> take 5 raw = ''+PONG''))"

definition redis_set :: "client_ctx \<Rightarrow> Redis \<Rightarrow> string \<Rightarrow> string \<Rightarrow> nat option \<Rightarrow> nat option \<Rightarrow> bool \<Rightarrow> bool \<Rightarrow> pyobj call" where
  "redis_set X self name value ex px nx xx =
     router_raw X
       ([''SET'', name, value] @ opt_arg (\<lambda>seconds. [''EX'', decimal seconds]) ex
        @ opt_arg (\<lambda>millis. [''PX'', decimal millis]) px @ flag nx ''NX'' @ flag xx ''XX'')
       (\<lambda>raw.
          if 4 \<le> length raw \<and> raw ! 0 = CHR ''$'' \<and> raw ! 1 = CHR ''-'' then Ok PyNone
          else Ok (PyBool (3 \<le> length raw \<and> raw ! 0 = CHR ''+'' \<and> raw ! 1 = CHR ''O'' \<and> raw ! 2 = CHR ''K'')))"

definition redis_get :: "client_ctx \<Rightarrow> Redis \<Rightarrow> string \<Rightarrow> pyobj call" where
  "redis_get X self name = exec_raw X self [''GET'', name]"

definition redis_delete :: "client_ctx \<Rightarrow> Redis \<Rightarrow> string list \<Rightarrow> pyobj call" where
  "redis_delete X self names = exec_raw X self ([''DEL''] @ names)"

definition redis_exists :: "client_ctx \<Rightarrow> Redis \<Rightarrow> string list \<Rightarrow> pyobj call" where
  "redis_exists X self names = exec_raw X self ([''EXISTS''] @ names)"

definition redis_expire :: "client_ctx \<Rightarrow> Redis \<Rightarrow> string \<Rightarrow> nat \<Rightarrow> pyobj call" where
  "redis_expire X self name seconds = exec_raw X self [''EXPIRE'', name, decimal seconds]"

definition redis_ttl :: "client_ctx \<Rightarrow> Redis \<Rightarrow> string \<Rightarrow> pyobj call" where
  "redis_ttl X self name = exec_raw X self [''TTL'', name]"

definition redis_incr :: "client_ctx \<Rightarrow> Redis \<Rightarrow> string \<Rightarrow> pyobj call" where
  "redis_incr X self name = exec_raw X self [''INCR'', name]"

definition redis_decr :: "client_ctx \<Rightarrow> Redis \<Rightarrow> string \<Rightarrow> pyobj call" where
  "redis_decr X self name = exec_raw X self [''DECR'', name]"

definition redis_incrby :: "client_ctx \<Rightarrow> Redis \<Rightarrow> string \<Rightarrow> int \<Rightarrow> pyobj call" where
  "redis_incrby X self name amount = exec_raw X self [''INCRBY'', name, decimal_int amount]"

definition redis_mget :: "client_ctx \<Rightarrow> Redis \<Rightarrow> string list \<Rightarrow> pyobj call" where
  "redis_mget X self names = exec_raw X self ([''MGET''] @ names)"

text \<open>The loop of \<open>mset\<close>: \<open>extract\<close> raises for a key or a value that is not a string.\<close>

fun mset_args :: "client_ctx \<Rightarrow> (pyobj \<times> pyobj) list \<Rightarrow> string list py_res" where
  "mset_args X [] = Ok []"
| "mset_args X ((k, v) # items) =
     and_then (extract_string X k) (\<lambda>key. and_then (extract_string X v) (\<lambda>value.
     and_then (mset_args X items) (\<lambda>rest. Ok (key # value # rest))))"

definition redis_mset :: "client_ctx \<Rightarrow> Redis \<Rightarrow> (pyobj \<times> pyobj) list \<Rightarrow> pyobj call" where
  "redis_mset X self mapping pool =
     (case mset_args X mapping of
        Ok args \<Rightarrow> exec_raw X self ([''MSET''] @ args) pool
      | Err e \<Rightarrow> Some (Err e, pool)
      | Panic \<Rightarrow> Some (Panic, pool))"

subsection \<open>Hash commands\<close>

definition redis_hset :: "client_ctx \<Rightarrow> Redis \<Rightarrow> string \<Rightarrow> string \<Rightarrow> string \<Rightarrow> pyobj call" where
  "redis_hset X self name key value = exec_raw X self [''HSET'', name, key, value]"

definition redis_hget :: "client_ctx \<Rightarrow> Redis \<Rightarrow> string \<Rightarrow> string \<Rightarrow> pyobj call" where
  "redis_hget X self name key = exec_raw X self [''HGET'', name, key]"

definition redis_hgetall :: "client_ctx \<Rightarrow> Redis \<Rightarrow> string \<Rightarrow> pyobj call" where
  "redis_hgetall X self name = exec_raw X self [''HGETALL'', name]"

definition redis_hdel :: "client_ctx \<Rightarrow> Redis \<Rightarrow> string \<Rightarrow> string list \<Rightarrow> pyobj call" where
  "redis_hdel X self name keys = exec_raw X self ([''HDEL'', name] @ keys)"

definition redis_hexists :: "client_ctx \<Rightarrow> Redis \<Rightarrow> string \<Rightarrow> string \<Rightarrow> pyobj call" where
  "redis_hexists X self name key = exec_raw X self [''HEXISTS'', name, key]"

definition redis_hkeys :: "client_ctx \<Rightarrow> Redis \<Rightarrow> string \<Rightarrow> pyobj call" where
  "redis_hkeys X self name = exec_raw X self [''HKEYS'', name]"

definition redis_hvals :: "client_ctx \<Rightarrow> Redis \<Rightarrow> string \<Rightarrow> pyobj call" where
  "redis_hvals X self name = exec_raw X self [''HVALS'', name]"

definition redis_hlen :: "client_ctx \<Rightarrow> Redis \<Rightarrow> string \<Rightarrow> pyobj call" where
  "redis_hlen X self name = exec_raw X self [''HLEN'', name]"

definition redis_hincrby :: "client_ctx \<Rightarrow> Redis \<Rightarrow> string \<Rightarrow> string \<Rightarrow> int \<Rightarrow> pyobj call" where
  "redis_hincrby X self name key amount = exec_raw X self [''HINCRBY'', name, key, decimal_int amount]"

definition redis_hincrbyfloat :: "client_ctx \<Rightarrow> Redis \<Rightarrow> string \<Rightarrow> string \<Rightarrow> f64 \<Rightarrow> pyobj call" where
  "redis_hincrbyfloat X self name key amount = exec_raw X self [''HINCRBYFLOAT'', name, key, f64_to_string amount]"

definition redis_hsetnx :: "client_ctx \<Rightarrow> Redis \<Rightarrow> string \<Rightarrow> string \<Rightarrow> string \<Rightarrow> pyobj call" where
  "redis_hsetnx X self name key value = exec_raw X self [''HSETNX'', name, key, value]"

definition redis_hmget :: "client_ctx \<Rightarrow> Redis \<Rightarrow> string \<Rightarrow> string list \<Rightarrow> pyobj call" where
  "redis_hmget X self name keys = exec_raw X self ([''HMGET'', name] @ keys)"

subsection \<open>List commands\<close>

definition redis_lpush :: "client_ctx \<Rightarrow> Redis \<Rightarrow> string \<Rightarrow> string list \<Rightarrow> pyobj call" where
  "redis_lpush X self name values = exec_raw X self ([''LPUSH'', name] @ values)"

definition redis_rpush :: "client_ctx \<Rightarrow> Redis \<Rightarrow> string \<Rightarrow> string list \<Rightarrow> pyobj call" where
  "redis_rpush X self name values = exec_raw X self ([''RPUSH'', name] @ values)"

definition redis_lrange :: "client_ctx \<Rightarrow> Redis \<Rightarrow> string \<Rightarrow> int \<Rightarrow> int \<Rightarrow> pyobj call" where
  "redis_lrange X self name start stop = exec_raw X self [''LRANGE'', name, decimal_int start, decimal_int stop]"

definition redis_llen :: "client_ctx \<Rightarrow> Redis \<Rightarrow> string \<Rightarrow> pyobj call" where
  "redis_llen X self name = exec_raw X self [''LLEN'', name]"

definition redis_lpop :: "client_ctx \<Rightarrow> Redis \<Rightarrow> string \<Rightarrow> nat option \<Rightarrow> pyobj call" where
  "redis_lpop X self name count = exec_raw X self (case count of Some c \<Rightarrow> [''LPOP'', name, decimal c] | None \<Rightarrow> [''LPOP'', name])"

definition redis_rpop :: "client_ctx \<Rightarrow> Redis \<Rightarrow> string \<Rightarrow> nat option \<Rightarrow> pyobj call" where
  "redis_rpop X self name count = exec_raw X self (case count of Some c \<Rightarrow> [''RPOP'', name, decimal c] | None \<Rightarrow> [''RPOP'', name])"

definition redis_lindex :: "client_ctx \<Rightarrow> Redis \<Rightarrow> string \<Rightarrow> int \<Rightarrow> pyobj call" where
  "redis_lindex X self name index = exec_raw X self [''LINDEX'', name, decimal_int index]"

definition redis_lset :: "client_ctx \<Rightarrow> Redis \<Rightarrow> string \<Rightarrow> int \<Rightarrow> string \<Rightarrow> pyobj call" where
  "redis_lset X self name index value = exec_raw X self [''LSET'', name, decimal_int index, value]"

definition redis_lrem :: "client_ctx \<Rightarrow> Redis \<Rightarrow> string \<Rightarrow> int \<Rightarrow> string \<Rightarrow> pyobj call" where
  "redis_lrem X self name count value = exec_raw X self [''LREM'', name, decimal_int count, value]"

subsection \<open>Set commands\<close>

definition redis_sadd :: "client_ctx \<Rightarrow> Redis \<Rightarrow> string \<Rightarrow> string list \<Rightarrow> pyobj call" where
  "redis_sadd X self name members = exec_raw X self ([''SADD'', name] @ members)"

definition redis_smembers :: "client_ctx \<Rightarrow> Redis \<Rightarrow> string \<Rightarrow> pyobj call" where
  "redis_smembers X self name = exec_raw X self [''SMEMBERS'', name]"

definition redis_scard :: "client_ctx \<Rightarrow> Redis \<Rightarrow> string \<Rightarrow> pyobj call" where
  "redis_scard X self name = exec_raw X self [''SCARD'', name]"

definition redis_srem :: "client_ctx \<Rightarrow> Redis \<Rightarrow> string \<Rightarrow> string list \<Rightarrow> pyobj call" where
  "redis_srem X self name members = exec_raw X self ([''SREM'', name] @ members)"

definition redis_sismember :: "client_ctx \<Rightarrow> Redis \<Rightarrow> string \<Rightarrow> string \<Rightarrow> pyobj call" where
  "redis_sismember X self name value = exec_raw X self [''SISMEMBER'', name, value]"

definition redis_spop :: "client_ctx \<Rightarrow> Redis \<Rightarrow> string \<Rightarrow> nat option \<Rightarrow> pyobj call" where
  "redis_spop X self name count = exec_raw X self (case count of Some c \<Rightarrow> [''SPOP'', name, decimal c] | None \<Rightarrow> [''SPOP'', name])"

definition redis_sinter :: "client_ctx \<Rightarrow> Redis \<Rightarrow> string list \<Rightarrow> pyobj call" where
  "redis_sinter X self names = exec_raw X self ([''SINTER''] @ names)"

definition redis_sunion :: "client_ctx \<Rightarrow> Redis \<Rightarrow> string list \<Rightarrow> pyobj call" where
  "redis_sunion X self names = exec_raw X self ([''SUNION''] @ names)"

definition redis_sdiff :: "client_ctx \<Rightarrow> Redis \<Rightarrow> string list \<Rightarrow> pyobj call" where
  "redis_sdiff X self names = exec_raw X self ([''SDIFF''] @ names)"

subsection \<open>Sorted set commands\<close>

text \<open>The loop of \<open>zadd\<close>: the score is extracted, formatted and sent before its member.\<close>

fun zadd_args :: "client_ctx \<Rightarrow> (pyobj \<times> pyobj) list \<Rightarrow> string list py_res" where
  "zadd_args X [] = Ok []"
| "zadd_args X ((member, score) # items) =
     and_then (extract_f64 X score) (\<lambda>s. and_then (extract_string X member) (\<lambda>m.
     and_then (zadd_args X items) (\<lambda>rest. Ok (f64_to_string s # m # rest))))"

definition redis_zadd :: "client_ctx \<Rightarrow> Redis \<Rightarrow> string \<Rightarrow> (pyobj \<times> pyobj) list \<Rightarrow> bool \<Rightarrow> bool \<Rightarrow> bool \<Rightarrow> bool \<Rightarrow> bool \<Rightarrow> pyobj call" where
  "redis_zadd X self name mapping nx xx gt lt ch pool =
     (case zadd_args X mapping of
        Ok args \<Rightarrow>
          exec_raw X self ([''ZADD'', name] @ flag nx ''NX'' @ flag xx ''XX'' @ flag gt ''GT'' @ flag lt ''LT''
            @ flag ch ''CH'' @ args) pool
      | Err e \<Rightarrow> Some (Err e, pool)
      | Panic \<Rightarrow> Some (Panic, pool))"

definition redis_zrem :: "client_ctx \<Rightarrow> Redis \<Rightarrow> string \<Rightarrow> string list \<Rightarrow> pyobj call" where
  "redis_zrem X self name members = exec_raw X self ([''ZREM'', name] @ members)"

definition redis_zscore :: "client_ctx \<Rightarrow> Redis \<Rightarrow> string \<Rightarrow> string \<Rightarrow> pyobj call" where
  "redis_zscore X self name member = exec_raw X self [''ZSCORE'', name, member]"

definition redis_zrank :: "client_ctx \<Rightarrow> Redis \<Rightarrow> string \<Rightarrow> string \<Rightarrow> pyobj call" where
  "redis_zrank X self name member = exec_raw X self [''ZRANK'', name, member]"

definition redis_zcard :: "client_ctx \<Rightarrow> Redis \<Rightarrow> string \<Rightarrow> pyobj call" where
  "redis_zcard X self name = exec_raw X self [''ZCARD'', name]"

definition redis_zcount :: "client_ctx \<Rightarrow> Redis \<Rightarrow> string \<Rightarrow> string \<Rightarrow> string \<Rightarrow> pyobj call" where
  "redis_zcount X self name min_score max_score = exec_raw X self [''ZCOUNT'', name, min_score, max_score]"

definition redis_zincrby :: "client_ctx \<Rightarrow> Redis \<Rightarrow> string \<Rightarrow> f64 \<Rightarrow> string \<Rightarrow> pyobj call" where
  "redis_zincrby X self name amount member = exec_raw X self [''ZINCRBY'', name, f64_to_string amount, member]"

definition redis_zrange :: "client_ctx \<Rightarrow> Redis \<Rightarrow> string \<Rightarrow> int \<Rightarrow> int \<Rightarrow> bool \<Rightarrow> pyobj call" where
  "redis_zrange X self name start stop withscores = exec_raw X self ([''ZRANGE'', name, decimal_int start, decimal_int stop] @ flag withscores ''WITHSCORES'')"

definition redis_zrevrange :: "client_ctx \<Rightarrow> Redis \<Rightarrow> string \<Rightarrow> int \<Rightarrow> int \<Rightarrow> bool \<Rightarrow> pyobj call" where
  "redis_zrevrange X self name start stop withscores = exec_raw X self ([''ZREVRANGE'', name, decimal_int start, decimal_int stop] @ flag withscores ''WITHSCORES'')"

definition redis_zrangebyscore :: "client_ctx \<Rightarrow> Redis \<Rightarrow> string \<Rightarrow> string \<Rightarrow> string \<Rightarrow> bool \<Rightarrow> int option \<Rightarrow> int option \<Rightarrow> pyobj call" where
  "redis_zrangebyscore X self name min_score max_score withscores offset count = exec_raw X self ([''ZRANGEBYSCORE'', name, min_score, max_score] @ flag withscores ''WITHSCORES''
        @ (case (offset, count) of (Some o', Some c) \<Rightarrow> [''LIMIT'', decimal_int o', decimal_int c] | _ \<Rightarrow> []))"

definition redis_zremrangebyscore :: "client_ctx \<Rightarrow> Redis \<Rightarrow> string \<Rightarrow> string \<Rightarrow> string \<Rightarrow> pyobj call" where
  "redis_zremrangebyscore X self name min_score max_score = exec_raw X self [''ZREMRANGEBYSCORE'', name, min_score, max_score]"

definition redis_zremrangebyrank :: "client_ctx \<Rightarrow> Redis \<Rightarrow> string \<Rightarrow> int \<Rightarrow> int \<Rightarrow> pyobj call" where
  "redis_zremrangebyrank X self name start stop = exec_raw X self [''ZREMRANGEBYRANK'', name, decimal_int start, decimal_int stop]"

subsection \<open>Key commands\<close>

definition redis_rename :: "client_ctx \<Rightarrow> Redis \<Rightarrow> string \<Rightarrow> string \<Rightarrow> pyobj call" where
  "redis_rename X self src dst = exec_raw X self [''RENAME'', src, dst]"

definition redis_persist :: "client_ctx \<Rightarrow> Redis \<Rightarrow> string \<Rightarrow> pyobj call" where
  "redis_persist X self name = exec_raw X self [''PERSIST'', name]"

definition redis_pexpire :: "client_ctx \<Rightarrow> Redis \<Rightarrow> string \<Rightarrow> nat \<Rightarrow> pyobj call" where
  "redis_pexpire X self name millis = exec_raw X self [''PEXPIRE'', name, decimal millis]"

definition redis_pttl :: "client_ctx \<Rightarrow> Redis \<Rightarrow> string \<Rightarrow> pyobj call" where
  "redis_pttl X self name = exec_raw X self [''PTTL'', name]"

definition redis_scan :: "client_ctx \<Rightarrow> Redis \<Rightarrow> nat \<Rightarrow> string option \<Rightarrow> nat option \<Rightarrow> pyobj call" where
  "redis_scan X self cursor match_pattern count = exec_raw X self ([''SCAN'', decimal cursor] @ opt_arg (\<lambda>p. [''MATCH'', p]) match_pattern
        @ opt_arg (\<lambda>c. [''COUNT'', decimal c]) count)"

subsection \<open>String commands\<close>

definition redis_append :: "client_ctx \<Rightarrow> Redis \<Rightarrow> string \<Rightarrow> string \<Rightarrow> pyobj call" where
  "redis_append X self name value = exec_raw X self [''APPEND'', name, value]"

definition redis_strlen :: "client_ctx \<Rightarrow> Redis \<Rightarrow> string \<Rightarrow> pyobj call" where
  "redis_strlen X self name = exec_raw X self [''STRLEN'', name]"

definition redis_getrange :: "client_ctx \<Rightarrow> Redis \<Rightarrow> string \<Rightarrow> int \<Rightarrow> int \<Rightarrow> pyobj call" where
  "redis_getrange X self name start stop = exec_raw X self [''GETRANGE'', name, decimal_int start, decimal_int stop]"

definition redis_getset :: "client_ctx \<Rightarrow> Redis \<Rightarrow> string \<Rightarrow> string \<Rightarrow> pyobj call" where
  "redis_getset X self name value = exec_raw X self [''GETSET'', name, value]"

definition redis_getdel :: "client_ctx \<Rightarrow> Redis \<Rightarrow> string \<Rightarrow> pyobj call" where
  "redis_getdel X self name = exec_raw X self [''GETDEL'', name]"

definition redis_setnx :: "client_ctx \<Rightarrow> Redis \<Rightarrow> string \<Rightarrow> string \<Rightarrow> pyobj call" where
  "redis_setnx X self name value = exec_raw X self [''SETNX'', name, value]"

definition redis_setex :: "client_ctx \<Rightarrow> Redis \<Rightarrow> string \<Rightarrow> nat \<Rightarrow> string \<Rightarrow> pyobj call" where
  "redis_setex X self name seconds value = exec_raw X self [''SETEX'', name, decimal seconds, value]"

definition redis_incrbyfloat :: "client_ctx \<Rightarrow> Redis \<Rightarrow> string \<Rightarrow> f64 \<Rightarrow> pyobj call" where
  "redis_incrbyfloat X self name amount = exec_raw X self [''INCRBYFLOAT'', name, f64_to_string amount]"

definition redis_decrby :: "client_ctx \<Rightarrow> Redis \<Rightarrow> string \<Rightarrow> int \<Rightarrow> pyobj call" where
  "redis_decrby X self name amount = exec_raw X self [''DECRBY'', name, decimal_int amount]"

subsection \<open>Scripting\<close>

definition redis_eval :: "client_ctx \<Rightarrow> Redis \<Rightarrow> string \<Rightarrow> nat \<Rightarrow> string list \<Rightarrow> pyobj call" where
  "redis_eval X self script numkeys args = exec_raw X self ([''EVAL'', script, decimal numkeys] @ args)"

definition redis_evalsha :: "client_ctx \<Rightarrow> Redis \<Rightarrow> string \<Rightarrow> nat \<Rightarrow> string list \<Rightarrow> pyobj call" where
  "redis_evalsha X self sha numkeys args = exec_raw X self ([''EVALSHA'', sha, decimal numkeys] @ args)"

definition redis_script_load :: "client_ctx \<Rightarrow> Redis \<Rightarrow> string \<Rightarrow> pyobj call" where
  "redis_script_load X self script = exec_raw X self [''SCRIPT'', ''LOAD'', script]"

subsection \<open>Graph commands\<close>

definition redis_graph_query :: "client_ctx \<Rightarrow> Redis \<Rightarrow> string \<Rightarrow> string \<Rightarrow> nat option \<Rightarrow> pyobj call" where
  "redis_graph_query X self graph query timeout =
     router_raw X ([''GRAPH.QUERY'', graph, query, ''--compact''] @ opt_arg (\<lambda>ms. [''timeout '' @ decimal ms]) timeout)
       (reply_object X (decode_responses self))"

definition redis_graph_ro_query :: "client_ctx \<Rightarrow> Redis \<Rightarrow> string \<Rightarrow> string \<Rightarrow> nat option \<Rightarrow> pyobj call" where
  "redis_graph_ro_query X self graph query timeout =
     router_raw X ([''GRAPH.RO_QUERY'', graph, query, ''--compact''] @ opt_arg (\<lambda>ms. [''timeout '' @ decimal ms]) timeout)
       (reply_object X (decode_responses self))"

definition redis_graph_delete :: "client_ctx \<Rightarrow> Redis \<Rightarrow> string \<Rightarrow> pyobj call" where
  "redis_graph_delete X self graph = exec_raw X self [''GRAPH.DELETE'', graph]"

definition redis_graph_list :: "client_ctx \<Rightarrow> Redis \<Rightarrow> pyobj call" where
  "redis_graph_list X self = exec_raw X self [''GRAPH.LIST'']"

definition redis_graph_explain :: "client_ctx \<Rightarrow> Redis \<Rightarrow> string \<Rightarrow> string \<Rightarrow> pyobj call" where
  "redis_graph_explain X self graph query = exec_raw X self [''GRAPH.EXPLAIN'', graph, query]"

definition redis_graph_profile :: "client_ctx \<Rightarrow> Redis \<Rightarrow> string \<Rightarrow> string \<Rightarrow> pyobj call" where
  "redis_graph_profile X self graph query = exec_raw X self [''GRAPH.PROFILE'', graph, query]"

definition redis_graph_slowlog :: "client_ctx \<Rightarrow> Redis \<Rightarrow> string \<Rightarrow> pyobj call" where
  "redis_graph_slowlog X self graph = exec_raw X self [''GRAPH.SLOWLOG'', graph]"

definition redis_graph_config :: "client_ctx \<Rightarrow> Redis \<Rightarrow> string \<Rightarrow> string \<Rightarrow> string option \<Rightarrow> pyobj call" where
  "redis_graph_config X self action name value = exec_raw X self (case value of Some v \<Rightarrow> [''GRAPH.CONFIG'', action, name, v] | None \<Rightarrow> [''GRAPH.CONFIG'', action, name])"

subsection \<open>Server commands\<close>

definition redis_select :: "client_ctx \<Rightarrow> Redis \<Rightarrow> nat \<Rightarrow> pyobj call" where
  "redis_select X self index = exec_raw X self [''SELECT'', decimal index]"

definition redis_flushall :: "client_ctx \<Rightarrow> Redis \<Rightarrow> pyobj call" where
  "redis_flushall X self = exec_raw X self [''FLUSHALL'']"

definition redis_randomkey :: "client_ctx \<Rightarrow> Redis \<Rightarrow> pyobj call" where
  "redis_randomkey X self = exec_raw X self [''RANDOMKEY'']"

definition redis_lastsave :: "client_ctx \<Rightarrow> Redis \<Rightarrow> pyobj call" where
  "redis_lastsave X self = exec_raw X self [''LASTSAVE'']"

definition redis_echo :: "client_ctx \<Rightarrow> Redis \<Rightarrow> string \<Rightarrow> pyobj call" where
  "redis_echo X self message = exec_raw X self [''ECHO'', message]"

definition redis_publish :: "client_ctx \<Rightarrow> Redis \<Rightarrow> string \<Rightarrow> string \<Rightarrow> pyobj call" where
  "redis_publish X self channel message = exec_raw X self [''PUBLISH'', channel, message]"

definition redis_expireat :: "client_ctx \<Rightarrow> Redis \<Rightarrow> string \<Rightarrow> nat \<Rightarrow> pyobj call" where
  "redis_expireat X self name timestamp = exec_raw X self [''EXPIREAT'', name, decimal timestamp]"

definition redis_dump :: "client_ctx \<Rightarrow> Redis \<Rightarrow> string \<Rightarrow> pyobj call" where
  "redis_dump X self name = exec_raw X self [''DUMP'', name]"

definition redis_unlink :: "client_ctx \<Rightarrow> Redis \<Rightarrow> string list \<Rightarrow> pyobj call" where
  "redis_unlink X self names = exec_raw X self ([''UNLINK''] @ names)"

definition redis_time :: "client_ctx \<Rightarrow> Redis \<Rightarrow> pyobj call" where
  "redis_time X self = exec_raw X self [''TIME'']"

definition redis_keys :: "client_ctx \<Rightarrow> Redis \<Rightarrow> string \<Rightarrow> pyobj call" where
  "redis_keys X self pattern = exec_raw X self [''KEYS'', pattern]"

definition redis_flushdb :: "client_ctx \<Rightarrow> Redis \<Rightarrow> pyobj call" where
  "redis_flushdb X self = exec_raw X self [''FLUSHDB'']"

definition redis_info :: "client_ctx \<Rightarrow> Redis \<Rightarrow> string option \<Rightarrow> pyobj call" where
  "redis_info X self section_arg = exec_raw X self (case section_arg of Some s \<Rightarrow> [''INFO'', s] | None \<Rightarrow> [''INFO''])"

definition redis_dbsize :: "client_ctx \<Rightarrow> Redis \<Rightarrow> pyobj call" where
  "redis_dbsize X self = exec_raw X self [''DBSIZE'']"

definition redis_key_type :: "client_ctx \<Rightarrow> Redis \<Rightarrow> string \<Rightarrow> pyobj call" where
  "redis_key_type X self name = exec_raw X self [''TYPE'', name]"

subsection \<open>Introspection\<close>

definition redis_pool_idle_count :: "ConnectionPool \<Rightarrow> nat" where
  "redis_pool_idle_count pool = pool_idle_count pool"

definition redis_pool_available :: "ConnectionPool \<Rightarrow> nat" where
  "redis_pool_available pool = pool_available pool"

definition redis_repr :: "Redis \<Rightarrow> string" where
  "redis_repr self = ''Redis(addr='' @ [CHR 0x27] @ client_addr self @ [CHR 0x27] @ '')''"

definition redis_str :: "Redis \<Rightarrow> string" where
  "redis_str self = ''Redis<'' @ client_addr self @ ''>''"

section \<open>\<open>Pipeline\<close>\<close>

definition pipe_execute_command :: "string list \<Rightarrow> Pipeline \<Rightarrow> Pipeline" where
  "pipe_execute_command args slf = slf\<lparr>commands := commands slf @ [args]\<rparr>"

definition pipe_execute :: "client_ctx \<Rightarrow> Pipeline \<Rightarrow> ConnectionPool \<Rightarrow> (pyobj py_res \<times> Pipeline \<times> ConnectionPool) option" where
  "pipe_execute X self pool =
     (if commands self = [] then Some (Ok (PyList []), self, pool)
      else let cmds = commands self; self = self\<lparr>commands := []\<rparr>; decode = pipe_decode self in
        case pipeline_raw (ctx_crates X) (ctx_env X) cmds pool of
          None \<Rightarrow> None
        | Some (r, pool) \<Rightarrow>
            Some (and_then (to_py r) (\<lambda>raws.
                  and_then (collect (reply_object X decode) raws) (\<lambda>py_items.
                  py_list (ctx_python X) py_items)), self, pool))"

definition pipe_len :: "Pipeline \<Rightarrow> nat" where
  "pipe_len self = length (commands self)"

definition pipe_reset :: "Pipeline \<Rightarrow> Pipeline" where
  "pipe_reset self = self\<lparr>commands := []\<rparr>"

definition pipe_repr :: "Pipeline \<Rightarrow> string" where
  "pipe_repr self = ''Pipeline(commands='' @ decimal (length (commands self)) @ '')''"

subsection \<open>Queueing methods\<close>

definition pipe_ping :: "Pipeline \<Rightarrow> Pipeline" where
  "pipe_ping slf = slf\<lparr>commands := commands slf @ [[''PING'']]\<rparr>"

definition pipe_set :: "string \<Rightarrow> string \<Rightarrow> nat option \<Rightarrow> nat option \<Rightarrow> bool \<Rightarrow> bool \<Rightarrow> Pipeline \<Rightarrow> Pipeline" where
  "pipe_set name value ex px nx xx slf = slf\<lparr>commands := commands slf @ [[''SET'', name, value] @ opt_arg (\<lambda>seconds. [''EX'', decimal seconds]) ex
        @ opt_arg (\<lambda>millis. [''PX'', decimal millis]) px @ flag nx ''NX'' @ flag xx ''XX'']\<rparr>"

definition pipe_get :: "string \<Rightarrow> Pipeline \<Rightarrow> Pipeline" where
  "pipe_get name slf = slf\<lparr>commands := commands slf @ [[''GET'', name]]\<rparr>"

definition pipe_delete :: "string list \<Rightarrow> Pipeline \<Rightarrow> Pipeline" where
  "pipe_delete names slf = slf\<lparr>commands := commands slf @ [[''DEL''] @ names]\<rparr>"

definition pipe_exists :: "string list \<Rightarrow> Pipeline \<Rightarrow> Pipeline" where
  "pipe_exists names slf = slf\<lparr>commands := commands slf @ [[''EXISTS''] @ names]\<rparr>"

definition pipe_expire :: "string \<Rightarrow> nat \<Rightarrow> Pipeline \<Rightarrow> Pipeline" where
  "pipe_expire name seconds slf = slf\<lparr>commands := commands slf @ [[''EXPIRE'', name, decimal seconds]]\<rparr>"

definition pipe_ttl :: "string \<Rightarrow> Pipeline \<Rightarrow> Pipeline" where
  "pipe_ttl name slf = slf\<lparr>commands := commands slf @ [[''TTL'', name]]\<rparr>"

definition pipe_incr :: "string \<Rightarrow> Pipeline \<Rightarrow> Pipeline" where
  "pipe_incr name slf = slf\<lparr>commands := commands slf @ [[''INCR'', name]]\<rparr>"

definition pipe_decr :: "string \<Rightarrow> Pipeline \<Rightarrow> Pipeline" where
  "pipe_decr name slf = slf\<lparr>commands := commands slf @ [[''DECR'', name]]\<rparr>"

definition pipe_hset :: "string \<Rightarrow> string \<Rightarrow> string \<Rightarrow> Pipeline \<Rightarrow> Pipeline" where
  "pipe_hset name key value slf = slf\<lparr>commands := commands slf @ [[''HSET'', name, key, value]]\<rparr>"

definition pipe_hget :: "string \<Rightarrow> string \<Rightarrow> Pipeline \<Rightarrow> Pipeline" where
  "pipe_hget name key slf = slf\<lparr>commands := commands slf @ [[''HGET'', name, key]]\<rparr>"

definition pipe_hgetall :: "string \<Rightarrow> Pipeline \<Rightarrow> Pipeline" where
  "pipe_hgetall name slf = slf\<lparr>commands := commands slf @ [[''HGETALL'', name]]\<rparr>"

definition pipe_lpush :: "string \<Rightarrow> string list \<Rightarrow> Pipeline \<Rightarrow> Pipeline" where
  "pipe_lpush name values slf = slf\<lparr>commands := commands slf @ [[''LPUSH'', name] @ values]\<rparr>"

definition pipe_rpush :: "string \<Rightarrow> string list \<Rightarrow> Pipeline \<Rightarrow> Pipeline" where
  "pipe_rpush name values slf = slf\<lparr>commands := commands slf @ [[''RPUSH'', name] @ values]\<rparr>"

definition pipe_lrange :: "string \<Rightarrow> int \<Rightarrow> int \<Rightarrow> Pipeline \<Rightarrow> Pipeline" where
  "pipe_lrange name start stop slf = slf\<lparr>commands := commands slf @ [[''LRANGE'', name, decimal_int start, decimal_int stop]]\<rparr>"

definition pipe_sadd :: "string \<Rightarrow> string list \<Rightarrow> Pipeline \<Rightarrow> Pipeline" where
  "pipe_sadd name members slf = slf\<lparr>commands := commands slf @ [[''SADD'', name] @ members]\<rparr>"

definition pipe_smembers :: "string \<Rightarrow> Pipeline \<Rightarrow> Pipeline" where
  "pipe_smembers name slf = slf\<lparr>commands := commands slf @ [[''SMEMBERS'', name]]\<rparr>"

definition pipe_scard :: "string \<Rightarrow> Pipeline \<Rightarrow> Pipeline" where
  "pipe_scard name slf = slf\<lparr>commands := commands slf @ [[''SCARD'', name]]\<rparr>"

definition pipe_srem :: "string \<Rightarrow> string list \<Rightarrow> Pipeline \<Rightarrow> Pipeline" where
  "pipe_srem name members slf = slf\<lparr>commands := commands slf @ [[''SREM'', name] @ members]\<rparr>"

definition pipe_sismember :: "string \<Rightarrow> string \<Rightarrow> Pipeline \<Rightarrow> Pipeline" where
  "pipe_sismember name value slf = slf\<lparr>commands := commands slf @ [[''SISMEMBER'', name, value]]\<rparr>"

definition pipe_zscore :: "string \<Rightarrow> string \<Rightarrow> Pipeline \<Rightarrow> Pipeline" where
  "pipe_zscore name member slf = slf\<lparr>commands := commands slf @ [[''ZSCORE'', name, member]]\<rparr>"

definition pipe_zrank :: "string \<Rightarrow> string \<Rightarrow> Pipeline \<Rightarrow> Pipeline" where
  "pipe_zrank name member slf = slf\<lparr>commands := commands slf @ [[''ZRANK'', name, member]]\<rparr>"

definition pipe_zcard :: "string \<Rightarrow> Pipeline \<Rightarrow> Pipeline" where
  "pipe_zcard name slf = slf\<lparr>commands := commands slf @ [[''ZCARD'', name]]\<rparr>"

definition pipe_zrem :: "string \<Rightarrow> string list \<Rightarrow> Pipeline \<Rightarrow> Pipeline" where
  "pipe_zrem name members slf = slf\<lparr>commands := commands slf @ [[''ZREM'', name] @ members]\<rparr>"

definition pipe_zincrby :: "string \<Rightarrow> f64 \<Rightarrow> string \<Rightarrow> Pipeline \<Rightarrow> Pipeline" where
  "pipe_zincrby name amount member slf = slf\<lparr>commands := commands slf @ [[''ZINCRBY'', name, f64_to_string amount, member]]\<rparr>"

definition pipe_zrange :: "string \<Rightarrow> int \<Rightarrow> int \<Rightarrow> bool \<Rightarrow> Pipeline \<Rightarrow> Pipeline" where
  "pipe_zrange name start stop withscores slf = slf\<lparr>commands := commands slf @ [[''ZRANGE'', name, decimal_int start, decimal_int stop] @ flag withscores ''WITHSCORES'']\<rparr>"

definition pipe_lpop :: "string \<Rightarrow> nat option \<Rightarrow> Pipeline \<Rightarrow> Pipeline" where
  "pipe_lpop name count slf = slf\<lparr>commands := commands slf @ [[''LPOP'', name] @ opt_arg (\<lambda>c. [decimal c]) count]\<rparr>"

definition pipe_rpop :: "string \<Rightarrow> nat option \<Rightarrow> Pipeline \<Rightarrow> Pipeline" where
  "pipe_rpop name count slf = slf\<lparr>commands := commands slf @ [[''RPOP'', name] @ opt_arg (\<lambda>c. [decimal c]) count]\<rparr>"

definition pipe_llen :: "string \<Rightarrow> Pipeline \<Rightarrow> Pipeline" where
  "pipe_llen name slf = slf\<lparr>commands := commands slf @ [[''LLEN'', name]]\<rparr>"

definition pipe_lindex :: "string \<Rightarrow> int \<Rightarrow> Pipeline \<Rightarrow> Pipeline" where
  "pipe_lindex name index slf = slf\<lparr>commands := commands slf @ [[''LINDEX'', name, decimal_int index]]\<rparr>"

definition pipe_hexists :: "string \<Rightarrow> string \<Rightarrow> Pipeline \<Rightarrow> Pipeline" where
  "pipe_hexists name key slf = slf\<lparr>commands := commands slf @ [[''HEXISTS'', name, key]]\<rparr>"

definition pipe_hlen :: "string \<Rightarrow> Pipeline \<Rightarrow> Pipeline" where
  "pipe_hlen name slf = slf\<lparr>commands := commands slf @ [[''HLEN'', name]]\<rparr>"

definition pipe_hkeys :: "string \<Rightarrow> Pipeline \<Rightarrow> Pipeline" where
  "pipe_hkeys name slf = slf\<lparr>commands := commands slf @ [[''HKEYS'', name]]\<rparr>"

definition pipe_hvals :: "string \<Rightarrow> Pipeline \<Rightarrow> Pipeline" where
  "pipe_hvals name slf = slf\<lparr>commands := commands slf @ [[''HVALS'', name]]\<rparr>"

definition pipe_hdel :: "string \<Rightarrow> string list \<Rightarrow> Pipeline \<Rightarrow> Pipeline" where
  "pipe_hdel name keys slf = slf\<lparr>commands := commands slf @ [[''HDEL'', name] @ keys]\<rparr>"

definition pipe_hmget :: "string \<Rightarrow> string list \<Rightarrow> Pipeline \<Rightarrow> Pipeline" where
  "pipe_hmget name keys slf = slf\<lparr>commands := commands slf @ [[''HMGET'', name] @ keys]\<rparr>"

definition pipe_hincrby :: "string \<Rightarrow> string \<Rightarrow> int \<Rightarrow> Pipeline \<Rightarrow> Pipeline" where
  "pipe_hincrby name key amount slf = slf\<lparr>commands := commands slf @ [[''HINCRBY'', name, key, decimal_int amount]]\<rparr>"

definition pipe_rename :: "string \<Rightarrow> string \<Rightarrow> Pipeline \<Rightarrow> Pipeline" where
  "pipe_rename src dst slf = slf\<lparr>commands := commands slf @ [[''RENAME'', src, dst]]\<rparr>"

definition pipe_persist :: "string \<Rightarrow> Pipeline \<Rightarrow> Pipeline" where
  "pipe_persist name slf = slf\<lparr>commands := commands slf @ [[''PERSIST'', name]]\<rparr>"

definition pipe_key_type :: "string \<Rightarrow> Pipeline \<Rightarrow> Pipeline" where
  "pipe_key_type name slf = slf\<lparr>commands := commands slf @ [[''TYPE'', name]]\<rparr>"

definition pipe_unlink :: "string list \<Rightarrow> Pipeline \<Rightarrow> Pipeline" where
  "pipe_unlink names slf = slf\<lparr>commands := commands slf @ [[''UNLINK''] @ names]\<rparr>"

definition pipe_append :: "string \<Rightarrow> string \<Rightarrow> Pipeline \<Rightarrow> Pipeline" where
  "pipe_append name value slf = slf\<lparr>commands := commands slf @ [[''APPEND'', name, value]]\<rparr>"

definition pipe_strlen :: "string \<Rightarrow> Pipeline \<Rightarrow> Pipeline" where
  "pipe_strlen name slf = slf\<lparr>commands := commands slf @ [[''STRLEN'', name]]\<rparr>"

definition pipe_setnx :: "string \<Rightarrow> string \<Rightarrow> Pipeline \<Rightarrow> Pipeline" where
  "pipe_setnx name value slf = slf\<lparr>commands := commands slf @ [[''SETNX'', name, value]]\<rparr>"

definition pipe_incrby :: "string \<Rightarrow> int \<Rightarrow> Pipeline \<Rightarrow> Pipeline" where
  "pipe_incrby name amount slf = slf\<lparr>commands := commands slf @ [[''INCRBY'', name, decimal_int amount]]\<rparr>"

definition pipe_decrby :: "string \<Rightarrow> int \<Rightarrow> Pipeline \<Rightarrow> Pipeline" where
  "pipe_decrby name amount slf = slf\<lparr>commands := commands slf @ [[''DECRBY'', name, decimal_int amount]]\<rparr>"

definition pipe_graph_query :: "string \<Rightarrow> string \<Rightarrow> nat option \<Rightarrow> Pipeline \<Rightarrow> Pipeline" where
  "pipe_graph_query graph query timeout slf = slf\<lparr>commands := commands slf @ [[''GRAPH.QUERY'', graph, query, ''--compact''] @ opt_arg (\<lambda>ms. [''timeout '' @ decimal ms]) timeout]\<rparr>"

definition pipe_graph_ro_query :: "string \<Rightarrow> string \<Rightarrow> nat option \<Rightarrow> Pipeline \<Rightarrow> Pipeline" where
  "pipe_graph_ro_query graph query timeout slf = slf\<lparr>commands := commands slf @ [[''GRAPH.RO_QUERY'', graph, query, ''--compact''] @ opt_arg (\<lambda>ms. [''timeout '' @ decimal ms]) timeout]\<rparr>"

definition pipe_graph_delete :: "string \<Rightarrow> Pipeline \<Rightarrow> Pipeline" where
  "pipe_graph_delete graph slf = slf\<lparr>commands := commands slf @ [[''GRAPH.DELETE'', graph]]\<rparr>"

definition pipe_graph_list :: "Pipeline \<Rightarrow> Pipeline" where
  "pipe_graph_list slf = slf\<lparr>commands := commands slf @ [[''GRAPH.LIST'']]\<rparr>"

definition pipe_flushdb :: "Pipeline \<Rightarrow> Pipeline" where
  "pipe_flushdb slf = slf\<lparr>commands := commands slf @ [[''FLUSHDB'']]\<rparr>"

definition pipe_flushall :: "Pipeline \<Rightarrow> Pipeline" where
  "pipe_flushall slf = slf\<lparr>commands := commands slf @ [[''FLUSHALL'']]\<rparr>"

definition pipe_dbsize :: "Pipeline \<Rightarrow> Pipeline" where
  "pipe_dbsize slf = slf\<lparr>commands := commands slf @ [[''DBSIZE'']]\<rparr>"

definition pipe_echo :: "string \<Rightarrow> Pipeline \<Rightarrow> Pipeline" where
  "pipe_echo message slf = slf\<lparr>commands := commands slf @ [[''ECHO'', message]]\<rparr>"

definition pipe_publish :: "string \<Rightarrow> string \<Rightarrow> Pipeline \<Rightarrow> Pipeline" where
  "pipe_publish channel message slf = slf\<lparr>commands := commands slf @ [[''PUBLISH'', channel, message]]\<rparr>"

definition pipe_time :: "Pipeline \<Rightarrow> Pipeline" where
  "pipe_time slf = slf\<lparr>commands := commands slf @ [[''TIME'']]\<rparr>"

section \<open>A command and its reply\<close>

text \<open>The replies at the head of a stream, and what follows them.\<close>

fun answers :: "crates \<Rightarrow> bytes \<Rightarrow> RespValue list \<Rightarrow> bytes \<Rightarrow> bool" where
  "answers C s [] rest \<longleftrightarrow> s = rest"
| "answers C s (v # vs) rest \<longleftrightarrow>
     (case parse C s of Ok (w, n) \<Rightarrow> w = v \<and> answers C (drop n s) vs rest | _ \<Rightarrow> False)"

context crate_env
begin

lemma raw_of_parse: "parse C b = Ok (v, n) \<Longrightarrow> raw_frame C b = Ok (take n b, n)"
  using parser.bounds parse_frame_len(1) by (auto simp: raw_frame_eq_Ok)

lemma send_then_raw:
  assumes "healthy c" "writes (stream c) = WriteOk t # ws" "parse C (pending_input c) = Ok (v, n)"
  obtains c' where "io_bind (send_raw data) (\<lambda>_. read_raw_response C) c = Some (Ok (take n (pending_input c)), c')"
    "sent (stream c') = sent (stream c) @ data" "pending_input c' = drop n (pending_input c)" "healthy c'"
proof -
  obtain c1 where c1: "send_raw data c = Some (Ok (), c1)" "sent (stream c1) = sent (stream c) @ data"
    "pending_input c1 = pending_input c" "healthy c1 = healthy c"
    using send_raw_ok [OF assms(2)] by metis
  obtain c2 where "read_raw_response C c1 = Some (Ok (take n (pending_input c)), c2)"
    "pending_input c2 = drop n (pending_input c)" "healthy c2" "same_peer c1 c2"
    using frames.reads_one [of c1 "take n (pending_input c)" n] raw_of_parse [OF assms(3)] c1 assms(1) by auto
  with c1 that [of c2] show ?thesis by (simp add: io_bind_def same_peer_def)
qed

lemma execute_raw_reply:
  assumes "ready env pool older conn" "healthy conn" "writes (stream conn) = WriteOk t # ws"
    and "parse C (pending_input conn) = Ok (v, n)"
  shows "\<exists>conn'. execute_raw C env args pool =
      Some (Ok (take n (pending_input conn)),
        guard_drop (at_drop env) (Some conn') (pool\<lparr>permits := permits pool - 1, idle := older\<rparr>)) \<and>
    sent (stream conn') = sent (stream conn) @ encode_command C args \<and>
    pending_input conn' = drop n (pending_input conn) \<and> healthy conn'"
proof -
  obtain c' where "io_bind (send_raw (encode_command_str C args)) (\<lambda>_. read_raw_response C) conn =
      Some (Ok (take n (pending_input conn)), c')"
    "sent (stream c') = sent (stream conn) @ encode_command_str C args"
    "pending_input c' = drop n (pending_input conn)" "healthy c'"
    using send_then_raw [OF assms(2-4)] .
  then show ?thesis
    by (auto simp: execute_raw_def with_guard_ready [OF assms(1)] encode_command_str_def)
qed

text \<open>The frames behind a sequence of replies.\<close>

lemma answers_frames:
  "answers C s vs rest \<Longrightarrow>
    \<exists>raws. frames.items s raws rest \<and> list_all2 (\<lambda>raw v. \<exists>n. parse C raw = Ok (v, n)) raws vs"
proof (induction vs arbitrary: s)
  case Nil
  then show ?case by (auto intro: frames.items_Nil)
next
  case (Cons v vs)
  then obtain n where n: "parse C s = Ok (v, n)" "answers C (drop n s) vs rest"
    by (auto split: result.splits prod.splits)
  from Cons.IH [OF n(2)] obtain raws where "frames.items (drop n s) raws rest"
    "list_all2 (\<lambda>raw v. \<exists>n. parse C raw = Ok (v, n)) raws vs" by blast
  with raw_of_parse [OF n(1)] parser.cut_after [OF n(1) order_refl] show ?case
    by (intro exI [of _ "take n s # raws"]) (auto intro: frames.items_Cons)
qed

lemma pipeline_raw_replies:
  assumes "ready env pool older conn" "healthy conn" "writes (stream conn) = WriteOk t # ws"
    and "answers C (pending_input conn) vs rest" and "length cmds = length vs"
  shows "\<exists>raws conn'. pipeline_raw C env cmds pool =
      Some (Ok raws, guard_drop (at_drop env) (Some conn') (pool\<lparr>permits := permits pool - 1, idle := older\<rparr>)) \<and>
    list_all2 (\<lambda>raw v. \<exists>n. parse C raw = Ok (v, n)) raws vs \<and>
    sent (stream conn') = sent (stream conn) @ concat (map (encode_command C) cmds) \<and>
    pending_input conn' = rest \<and> healthy conn'"
proof -
  obtain c1 where c1: "send_raw (encode_pipeline C cmds) conn = Some (Ok (), c1)"
    "sent (stream c1) = sent (stream conn) @ encode_pipeline C cmds"
    "pending_input c1 = pending_input conn" "healthy c1 = healthy conn"
    using send_raw_ok [OF assms(3)] by metis
  obtain raws where raws: "frames.items (pending_input conn) raws rest"
    "list_all2 (\<lambda>raw v. \<exists>n. parse C raw = Ok (v, n)) raws vs" using answers_frames [OF assms(4)] by blast
  obtain c2 where "read_replies (read_raw_response C) cmds [] c1 = Some (Ok raws, c2)" "pending_input c2 = rest"
    "healthy c2" "same_peer c1 c2"
    using frames.read_replies_stream [of c1 raws rest cmds "[]"] list_all2_lengthD [OF raws(2)] raws c1 assms(2,5)
    by auto
  with c1 raws(2) show ?thesis
    by (auto simp: pipeline_raw_def with_guard_ready [OF assms(1)] io_bind_def same_peer_def encode_pipeline_concat)
qed

end

context python_env
begin

lemma reply_converts:
  assumes "parse C raw = Ok (v, n)" and "fusable MAX_PARSE_DEPTH v" and "ctx_crates X = C" and "ctx_python X = P"
  shows "reply_object X dec raw = convert P dec v"
proof -
  have "raw \<noteq> []" using assms(1) by (auto simp: parse_unfold)
  with parse_inner_converts [of 0 raw v n 0 dec] assms show ?thesis
    by (cases "convert P dec v") (simp_all add: reply_object_def parse_to_python_def)
qed

lemma replies_convert:
  assumes "list_all2 (\<lambda>raw v. \<exists>n. parse C raw = Ok (v, n)) raws vs" and "list_all (fusable MAX_PARSE_DEPTH) vs"
    and "ctx_crates X = C" and "ctx_python X = P"
  shows "collect (reply_object X dec) raws = collect (convert P dec) vs"
  using assms(1,2) by (induction rule: list_all2_induct) (auto simp: reply_converts [OF _ _ assms(3,4)])

end

section \<open>Pipelines and single commands\<close>

lemma pipeline_raw_of_one:
  "pipeline_raw C env [args] pool =
    map_option (\<lambda>(r, pool'). (and_then r (\<lambda>v. Ok [v]), pool')) (execute_raw C env args pool)"
proof -
  have enc: "encode_pipeline C [args] = encode_command_str C args"
    by (simp add: encode_pipeline_concat encode_command_str_def)
  have "io_bind (send_raw data) (\<lambda>_. read_replies (read_raw_response C) [args] []) conn =
      map_option (\<lambda>(r, c). (and_then r (\<lambda>v. Ok [v]), c))
        (io_bind (send_raw data) (\<lambda>_. read_raw_response C) conn)" for data conn
    by (auto simp: io_bind_def io_return_def split: option.splits result.splits)
  then show ?thesis
    unfolding pipeline_raw_def execute_raw_def with_guard_def enc
    by (auto split: option.splits result.splits)
qed

text \<open>Queueing one command with \<open>m\<close> and executing is calling \<open>r\<close>, with the result in a list.\<close>

definition mirrors :: "(Pipeline \<Rightarrow> Pipeline) \<Rightarrow> (client_ctx \<Rightarrow> Redis \<Rightarrow> pyobj call) \<Rightarrow> bool" where
  "mirrors m r \<longleftrightarrow> (\<forall>X self pool.
     pipe_execute X (m (redis_pipeline self)) pool =
       map_option (\<lambda>(res, pool'). (and_then res (\<lambda>obj. py_list (ctx_python X) [obj]), redis_pipeline self, pool'))
         (r X self pool))"

lemma pipe_execute_one:
  "pipe_execute X ((redis_pipeline self)\<lparr>commands := commands (redis_pipeline self) @ [cmd]\<rparr>) pool =
    map_option (\<lambda>(res, pool'). (and_then res (\<lambda>obj. py_list (ctx_python X) [obj]), redis_pipeline self, pool'))
      (exec_raw X self cmd pool)"
proof -
  have "and_then (map_err into_pyerr (and_then a (\<lambda>v. Ok [v]))) (\<lambda>raws. and_then (collect f raws) g) =
      and_then (map_err into_pyerr a) (\<lambda>x. and_then (f x) (\<lambda>obj. g [obj]))"
    for a :: "bytes res" and f :: "bytes \<Rightarrow> pyobj py_res" and g :: "pyobj list \<Rightarrow> pyobj py_res"
    by (cases a) (simp_all add: and_then_assoc)
  then show ?thesis
    by (auto simp: pipe_execute_def redis_pipeline_def pipeline_raw_of_one exec_raw_def router_raw_def to_py_def
        and_then_assoc split: option.split)
qed

lemma mirrors_exec:
  "mirrors (\<lambda>p. p\<lparr>commands := commands p @ [cmd]\<rparr>) (\<lambda>X self. exec_raw X self cmd)"
  by (simp add: mirrors_def pipe_execute_one)

lemma redis_pops:
  "redis_lpop X self name count = exec_raw X self ([''LPOP'', name] @ opt_arg (\<lambda>c. [decimal c]) count)"
  "redis_rpop X self name count = exec_raw X self ([''RPOP'', name] @ opt_arg (\<lambda>c. [decimal c]) count)"
  by (cases count; simp add: redis_lpop_def redis_rpop_def)+

lemma redis_graph_queries:
  "redis_graph_query X self graph query timeout =
    exec_raw X self ([''GRAPH.QUERY'', graph, query, ''--compact''] @ opt_arg (\<lambda>ms. [''timeout '' @ decimal ms]) timeout)"
  "redis_graph_ro_query X self graph query timeout =
    exec_raw X self ([''GRAPH.RO_QUERY'', graph, query, ''--compact''] @ opt_arg (\<lambda>ms. [''timeout '' @ decimal ms]) timeout)"
  by (simp_all add: redis_graph_query_def redis_graph_ro_query_def exec_raw_def)

lemmas pipe_method_defs =
  pipe_get_def pipe_delete_def pipe_exists_def pipe_expire_def pipe_ttl_def pipe_incr_def pipe_decr_def
  pipe_hset_def pipe_hget_def pipe_hgetall_def pipe_lpush_def pipe_rpush_def pipe_lrange_def pipe_sadd_def
  pipe_smembers_def pipe_scard_def pipe_srem_def pipe_sismember_def pipe_zscore_def pipe_zrank_def
  pipe_zcard_def pipe_zrem_def pipe_zincrby_def pipe_zrange_def pipe_lpop_def pipe_rpop_def pipe_llen_def
  pipe_lindex_def pipe_hexists_def pipe_hlen_def pipe_hkeys_def pipe_hvals_def pipe_hdel_def pipe_hmget_def
  pipe_hincrby_def pipe_rename_def pipe_persist_def pipe_key_type_def pipe_unlink_def pipe_append_def
  pipe_strlen_def pipe_setnx_def pipe_incrby_def pipe_decrby_def pipe_graph_query_def pipe_graph_ro_query_def
  pipe_graph_delete_def pipe_graph_list_def pipe_flushdb_def pipe_flushall_def pipe_dbsize_def pipe_echo_def
  pipe_publish_def pipe_time_def

lemmas redis_method_defs = redis_pops redis_graph_queries
  redis_get_def redis_delete_def redis_exists_def redis_expire_def redis_ttl_def redis_incr_def redis_decr_def
  redis_hset_def redis_hget_def redis_hgetall_def redis_lpush_def redis_rpush_def redis_lrange_def
  redis_sadd_def redis_smembers_def redis_scard_def redis_srem_def redis_sismember_def redis_zscore_def
  redis_zrank_def redis_zcard_def redis_zrem_def redis_zincrby_def redis_zrange_def redis_llen_def
  redis_lindex_def redis_hexists_def redis_hlen_def redis_hkeys_def redis_hvals_def redis_hdel_def
  redis_hmget_def redis_hincrby_def redis_rename_def redis_persist_def redis_key_type_def redis_unlink_def
  redis_append_def redis_strlen_def redis_setnx_def redis_incrby_def redis_decrby_def redis_graph_delete_def
  redis_graph_list_def redis_flushdb_def redis_flushall_def redis_dbsize_def redis_echo_def redis_publish_def
  redis_time_def

section \<open>Errors\<close>

text \<open>What the continuation of a call sees of a reply.\<close>

lemma router_raw_reply:
  assumes "crate_env (ctx_crates X)" "ready (ctx_env X) pool older conn" "healthy conn"
    and "writes (stream conn) = WriteOk t # ws" "parse (ctx_crates X) (pending_input conn) = Ok (v, n)"
  shows "map_option fst (router_raw X args k pool) = Some (k (take n (pending_input conn)))"
  using crate_env.execute_raw_reply [OF assms, of args] by (auto simp: router_raw_def to_py_def)

context python_env
begin

lemma error_byte: "parse C b = Ok (Error msg, n) \<Longrightarrow> b ! 0 = CHR ''-'' \<and> 0 < n"
  using parser.bounds [of b "Error msg" n]
  by (auto simp: parse_unfold parse_branch_defs parse_push_def bulk_body_def verbatim_body_def Let_def
      split: if_split_asm elim!: and_then_OkE)

end

section \<open>Properties\<close>

text \<open>A concrete context for the witnesses: CPython's own conversions of strings and floats.\<close>

definition sample_ctx :: client_ctx where
  "sample_ctx = \<lparr>ctx_crates = documented_crates (\<lambda>_. True), ctx_python = documented_python sample_int,
     ctx_env = sample_env,
     extract_string = (\<lambda>x. case x of PyStr s \<Rightarrow> Ok s | _ \<Rightarrow> Err (PyErr ExcTypeError ''not a str'')),
     extract_f64 = (\<lambda>x. case x of PyFloat f \<Rightarrow> Ok f | PyInt i \<Rightarrow> Ok (f64_of_i64 i)
       | _ \<Rightarrow> Err (PyErr ExcTypeError ''must be real number''))\<rparr>"

definition sample_client :: Redis where
  "sample_client = \<lparr>client_addr = ''127.0.0.1:6379'', decode_responses = True\<rparr>"

definition one_event :: "bytes \<Rightarrow> read_event list" where
  "one_event d = [ReadEvent 1 65536 (Data d)]"

lemma sample_ctx_simps [simp]:
  "ctx_crates sample_ctx = documented_crates (\<lambda>_. True)" "ctx_python sample_ctx = documented_python sample_int"
  "ctx_env sample_ctx = sample_env"
  by (simp_all add: sample_ctx_def)

lemma sample_ctx_env: "python_env (ctx_crates sample_ctx) (ctx_python sample_ctx)"
  using sample_py.python_env_axioms [of "\<lambda>_. True"] by simp

lemma sample_conn_ready: "ready (ctx_env sample_ctx) (sample_pool (sample_conn evs)) [] (sample_conn evs)"
  using sample_ready [of "sample_conn evs"] by (simp add: sample_conn_def)

lemma sample_conn_writes: "writes (stream (sample_conn evs)) = WriteOk 1 # [WriteOk 2]"
  by (simp add: sample_conn_def)

lemma one_event_conn: "d \<noteq> [] \<Longrightarrow> healthy (sample_conn (one_event d))" "pending_input (sample_conn (one_event d)) = d"
  by (simp_all add: healthy_def sample_conn_def one_event_def delivers_def DEFAULT_MAX_BUF_SIZE_def pending_input_def event_data_def)

text \<open>
  C1: end to end, a command gets its own reply as a Python object. On a pooled connection whose
  stream holds a reply, however the network splits it, \<open>exec_raw\<close> sends exactly the encoded
  command, returns the conversion of the reply (or raises its error), and gives the
  connection back positioned right behind that reply.
\<close>
theorem exec_raw_end_to_end:
  assumes "python_env (ctx_crates X) (ctx_python X)" and "ready (ctx_env X) pool older conn"
    and "healthy conn" and "writes (stream conn) = WriteOk t # ws"
    and "parse (ctx_crates X) (pending_input conn) = Ok (v, n)" and "fusable MAX_PARSE_DEPTH v"
  shows "\<exists>conn'. exec_raw X self args pool =
      Some (convert (ctx_python X) (decode_responses self) v,
        guard_drop (at_drop (ctx_env X)) (Some conn') (pool\<lparr>permits := permits pool - 1, idle := older\<rparr>)) \<and>
    sent (stream conn') = sent (stream conn) @ encode_command (ctx_crates X) args \<and>
    pending_input conn' = drop n (pending_input conn) \<and> healthy conn'"
proof -
  have c: "crate_env (ctx_crates X)" using assms(1) by (simp add: python_env_def)
  have "parse (ctx_crates X) (take n (pending_input conn)) = Ok (v, n)"
    using crate_env.parse_stream [OF c] assms(5) by (auto dest: stream_parser.cut_after)
  then have "reply_object X (decode_responses self) (take n (pending_input conn)) =
      convert (ctx_python X) (decode_responses self) v"
    using python_env.reply_converts [OF assms(1) _ assms(6)] by blast
  then show ?thesis
    using crate_env.execute_raw_reply [OF c assms(2-5), of args]
    by (auto simp: exec_raw_def router_raw_def to_py_def)
qed

theorem exec_raw_end_to_end_witness:
  "\<exists>pool'. exec_raw sample_ctx sample_client [''LRANGE'', ''k'', ''0'', ''1''] (sample_pool (sample_conn split_reply)) =
      Some (Ok (PyList [PyInt (- 7), PyStr ''hi'']), pool')"
proof -
  have "fusable MAX_PARSE_DEPTH (Array [Integer (- 7), BulkString ''hi''])"
    by (simp add: MAX_RESP_ELEMENTS_def MAX_PARSE_DEPTH_def)
  moreover have "convert (documented_python sample_int) True (Array [Integer (- 7), BulkString ''hi'']) =
      Ok (PyList [PyInt (- 7), PyStr ''hi''])" by code_simp
  ultimately show ?thesis
    using exec_raw_end_to_end [OF sample_ctx_env sample_conn_ready split_reply_healthy sample_conn_writes,
        of "Array [Integer (- 7), BulkString ''hi'']" 17 sample_client "[''LRANGE'', ''k'', ''0'', ''1'']"]
      split_reply_parse
    by (auto simp: split_reply_pending sample_client_def)
qed

text \<open>
  C2: end to end, \<open>Pipeline.execute\<close> returns the converted replies as a list in the order of the
  commands, or raises the first error among them; either way it has read every reply, so the
  connection is in sync, and the buffered commands are gone.
\<close>
theorem pipeline_execute_end_to_end:
  assumes "python_env (ctx_crates X) (ctx_python X)" and "ready (ctx_env X) pool older conn"
    and "healthy conn" and "writes (stream conn) = WriteOk t # ws"
    and "answers (ctx_crates X) (pending_input conn) vs rest" and "list_all (fusable MAX_PARSE_DEPTH) vs"
    and "pipe_len p = length vs" and "vs \<noteq> []"
  shows "\<exists>conn'. pipe_execute X p pool =
      Some (and_then (collect (convert (ctx_python X) (pipe_decode p)) vs) (\<lambda>xs. Ok (PyList xs)), pipe_reset p,
        guard_drop (at_drop (ctx_env X)) (Some conn') (pool\<lparr>permits := permits pool - 1, idle := older\<rparr>)) \<and>
    sent (stream conn') = sent (stream conn) @ concat (map (encode_command (ctx_crates X)) (commands p)) \<and>
    pending_input conn' = rest \<and> healthy conn'"
proof -
  have c: "crate_env (ctx_crates X)" using assms(1) by (simp add: python_env_def)
  have len: "length (commands p) = length vs" "commands p \<noteq> []" using assms(7,8) by (auto simp: pipe_len_def)
  obtain raws conn' where raws: "pipeline_raw (ctx_crates X) (ctx_env X) (commands p) pool =
      Some (Ok raws, guard_drop (at_drop (ctx_env X)) (Some conn') (pool\<lparr>permits := permits pool - 1, idle := older\<rparr>))"
    "list_all2 (\<lambda>raw v. \<exists>n. parse (ctx_crates X) raw = Ok (v, n)) raws vs"
    "sent (stream conn') = sent (stream conn) @ concat (map (encode_command (ctx_crates X)) (commands p))"
    "pending_input conn' = rest" "healthy conn'"
    using crate_env.pipeline_raw_replies [OF c assms(2-5) len(1)] by blast
  have "collect (reply_object X (pipe_decode p)) raws = collect (convert (ctx_python X) (pipe_decode p)) vs"
    using python_env.replies_convert [OF assms(1) raws(2) assms(6)] by blast
  with raws len(2) show ?thesis
    by (intro exI [of _ conn'])
       (simp add: pipe_execute_def pipe_reset_def to_py_def py_list_def [abs_def] python_env.new_list_ok [OF assms(1)])
qed

theorem pipeline_execute_end_to_end_witness:
  "\<exists>pool'. pipe_execute sample_ctx (pipe_get ''b'' (pipe_incr ''a'' (redis_pipeline sample_client)))
      (sample_pool (sample_conn (one_event ('':1'' @ crlf @ ''$-1'' @ crlf @ ''+x'')))) =
      Some (Ok (PyList [PyInt 1, PyNone]), redis_pipeline sample_client, pool')"
proof -
  let ?d = "'':1'' @ crlf @ ''$-1'' @ crlf @ ''+x''" and ?p = "pipe_get ''b'' (pipe_incr ''a'' (redis_pipeline sample_client))"
  have "answers (documented_crates (\<lambda>_. True)) ?d [Integer 1, Null] ''+x''" by code_simp
  moreover have "pipe_len ?p = 2" "pipe_reset ?p = redis_pipeline sample_client" "pipe_decode ?p"
    by (simp_all add: pipe_len_def pipe_reset_def pipe_get_def pipe_incr_def redis_pipeline_def sample_client_def)
  ultimately show ?thesis
    using pipeline_execute_end_to_end [OF sample_ctx_env sample_conn_ready one_event_conn(1) sample_conn_writes,
        of ?d "[Integer 1, Null]" "''+x''" ?p]
    by (auto simp: one_event_conn(2) convert_simps)
qed


text \<open>
  C36: \<open>set\<close> and \<open>ping\<close> look only for their success reply. When the server answers with an
  error, they return \<open>False\<close>, while the same \<open>SET\<close> through \<open>execute_command\<close> raises it.
\<close>
theorem set_and_ping_hide_errors:
  assumes "python_env (ctx_crates X) (ctx_python X)" and "ready (ctx_env X) pool older conn"
    and "healthy conn" and "writes (stream conn) = WriteOk t # ws"
    and "parse (ctx_crates X) (pending_input conn) = Ok (Error msg, n)"
  shows "map_option fst (redis_set X self name value ex px nx xx pool) = Some (Ok (PyBool False)) \<and>
    map_option fst (redis_ping X self pool) = Some (Ok False) \<and>
    map_option fst (redis_execute_command X self [''SET'', name, value] pool) = Some (py_raise (redis_error msg))"
proof -
  have c: "crate_env (ctx_crates X)" using assms(1) by (simp add: python_env_def)
  let ?raw = "take n (pending_input conn)"
  have raw: "?raw ! 0 = CHR ''-''" using python_env.error_byte [OF assms(1,5)] by simp
  have p: "parse (ctx_crates X) ?raw = Ok (Error msg, n)"
    using crate_env.parse_stream [OF c] assms(5) by (auto dest: stream_parser.cut_after)
  have "take 5 ?raw \<noteq> ''+PONG''" using raw by (cases ?raw) auto
  moreover have "reply_object X (decode_responses self) ?raw = py_raise (redis_error msg)"
    using python_env.reply_converts [OF assms(1) p, of X] by (simp add: convert_simps)
  ultimately show ?thesis
    using raw by (simp add: redis_set_def redis_ping_def redis_execute_command_def exec_raw_def
        router_raw_reply [OF c assms(2-5)])
qed

theorem set_and_ping_hide_errors_witness:
  "map_option fst (redis_set sample_ctx sample_client ''k'' ''v'' (Some 10) None True False
     (sample_pool (sample_conn (one_event (''-READONLY replica'' @ crlf))))) = Some (Ok (PyBool False))"
proof -
  have "parse (documented_crates (\<lambda>_. True)) (''-READONLY replica'' @ crlf) = Ok (Error ''READONLY replica'', 19)"
    by code_simp
  then show ?thesis
    using set_and_ping_hide_errors [OF sample_ctx_env sample_conn_ready one_event_conn(1) sample_conn_writes,
        of "''-READONLY replica'' @ crlf" "''READONLY replica''" 19 sample_client "''k''" "''v''" "Some 10" None True False]
    by (simp add: one_event_conn(2))
qed

text \<open>
  \<open>Redis(pool_size=0)\<close> is refused, \<open>Redis.from_url(url, pool_size=0)\<close> is not, and on such a
  client no command ever returns: the pool has no permit to wait for.
\<close>
lemma from_url_without_connections_hangs:
  "redis_new host port db password username 0 connect_ms read_ms idle_ms max_buffer decode =
     py_raise (TypeErr ''pool_size must be > 0'') \<and>
   (redis_from_url url 0 connect_ms read_ms idle_ms decode = Ok (self, pool) \<longrightarrow> exec_raw X self args pool = None)"
  by (auto simp: redis_new_def redis_from_url_def Let_def and_then_eqs standalone_new_def pool_new_def exec_raw_def
      router_raw_def execute_raw_def with_guard_def pool_get_def pool_acquire_def)

lemma from_url_without_connections_hangs_witness:
  "\<exists>self pool. redis_from_url (standalone_url False ''u'' ''p'' ''h'' 1 0) 0 5000 30000 300000 True = Ok (self, pool) \<and>
     exec_raw sample_ctx self [''PING''] pool = None"
proof -
  obtain self pool where "redis_from_url (standalone_url False ''u'' ''p'' ''h'' 1 0) 0 5000 30000 300000 True = Ok (self, pool)"
    by (simp add: redis_from_url_def to_py_def starts_with_def from_url_standalone Let_def)
  then show ?thesis using from_url_without_connections_hangs by blast
qed

end
