(* ===== verification/Concurrent.thy ===== *)
theory Concurrent
  imports Client
begin

text \<open>
  Many Python threads on one client. The bindings release the interpreter lock while a call
  waits, so calls of \<open>exec_raw\<close> and of \<open>Pipeline.execute\<close> interleave at the await points of
  \<open>execute_raw\<close> and \<open>pipeline_raw\<close> (\<open>src/src/router/standalone.rs\<close>): acquiring a permit,
  connecting, writing, and reading with the drop of the guard. The server and the network are
  the environment. When commands have been written the server picks its replies; the network
  either carries them, split as it likes, or fails: it may lose, delay past the timeout, cut or
  garble them, refuse a connection, break off a write, or disturb an idle connection. Each
  such failure counts as one fault.

  A connection is in sync when nothing is left to read on it and only whole commands have been
  written. The invariant is that at most one connection per fault is out of sync, and that a
  call on a connection in sync, whose replies the network carries, gets exactly these replies.
  The system refines the step relation of the pool and inherits the bound on connections.
\<close>

section \<open>The system\<close>

text \<open>What a call sends: one command, or the commands of a pipeline.\<close>

datatype request = Single "string list" | Batch "string list list"

fun request_commands :: "request \<Rightarrow> string list list" where
  "request_commands (Single args) = [args]"
| "request_commands (Batch cmds) = cmds"

fun request_bytes :: "crates \<Rightarrow> request \<Rightarrow> bytes" where
  "request_bytes C (Single args) = encode_command_str C args"
| "request_bytes C (Batch cmds) = encode_pipeline C cmds"

text \<open>What a call does once its bytes are written: read the replies, convert them.\<close>

fun receive :: "client_ctx \<Rightarrow> bool \<Rightarrow> request \<Rightarrow> RedisConnection \<Rightarrow> (pyobj py_res \<times> RedisConnection) option" where
  "receive X dec (Single args) conn =
     map_option (\<lambda>(r, conn). (and_then (to_py r) (reply_object X dec), conn)) (read_raw_response (ctx_crates X) conn)"
| "receive X dec (Batch cmds) conn =
     map_option (\<lambda>(r, conn). (and_then (to_py r) (\<lambda>raws.
         and_then (collect (reply_object X dec) raws) (py_list (ctx_python X))), conn))
       (read_replies (read_raw_response (ctx_crates X)) cmds [] conn)"

text \<open>A waiting call knows the replies it is due, unless a fault came in between.\<close>

datatype phase =
    Connecting
  | Ready RedisConnection
  | Awaiting RedisConnection "RespValue list option"

record system =
  sys_pool :: ConnectionPool
  calls :: "(request \<times> phase) list"
  finished :: "(request \<times> RespValue list option \<times> pyobj py_res) list"
  faults :: nat

text \<open>The replies \<open>vs\<close> on the wire, in pieces the reader has room for.\<close>

definition carries :: "crates \<Rightarrow> nat \<Rightarrow> read_event list \<Rightarrow> RespValue list \<Rightarrow> bool" where
  "carries C limit evs vs \<longleftrightarrow>
     list_all (delivers limit) evs \<and> list_all (fusable MAX_PARSE_DEPTH) vs \<and>
     answers C (concat (map event_data evs)) vs []"

definition add_input :: "read_event list \<Rightarrow> RedisConnection \<Rightarrow> RedisConnection" where
  "add_input evs c = c\<lparr>stream := (stream c)\<lparr>inbox := inbox (stream c) @ evs\<rparr>\<rparr>"

text \<open>The server can tell the commands apart: only whole commands have been written.\<close>

definition whole_commands :: "crates \<Rightarrow> RedisConnection \<Rightarrow> bool" where
  "whole_commands C conn \<longleftrightarrow> (\<exists>cmds. sent (stream conn) = concat (map (encode_command C) cmds))"

definition in_sync :: "crates \<Rightarrow> RedisConnection \<Rightarrow> bool" where
  "in_sync C c \<longleftrightarrow> healthy c \<and> pending_input c = [] \<and> whole_commands C c"

inductive sys_step :: "client_ctx \<Rightarrow> bool \<Rightarrow> system \<Rightarrow> system \<Rightarrow> bool" for X dec where
  Reuse: "request_commands rq \<noteq> [] \<Longrightarrow> pool_acquire now (sys_pool s) = Some (Some conn, pool) \<Longrightarrow>
    sys_step X dec s (s\<lparr>sys_pool := pool, calls := (rq, Ready conn) # calls s\<rparr>)"
| Dial: "request_commands rq \<noteq> [] \<Longrightarrow> pool_acquire now (sys_pool s) = Some (None, pool) \<Longrightarrow>
    sys_step X dec s (s\<lparr>sys_pool := pool, calls := (rq, Connecting) # calls s\<rparr>)"
| Connected: "calls s = pre @ (rq, Connecting) # post \<Longrightarrow>
    create_connection (ctx_crates X) d (pool_config (sys_pool s)) = Some (Ok conn) \<Longrightarrow>
    sys_step X dec s (s\<lparr>calls := (rq, Ready conn) # pre @ post,
      faults := faults s + (if in_sync (ctx_crates X) conn then 0 else 1)\<rparr>)"
| Refused: "calls s = pre @ (rq, Connecting) # post \<Longrightarrow>
    create_connection (ctx_crates X) d (pool_config (sys_pool s)) = Some (Err e) \<Longrightarrow>
    sys_step X dec s (s\<lparr>sys_pool := release_permit (sys_pool s), calls := pre @ post,
      finished := (rq, None, Err (into_pyerr e)) # finished s, faults := faults s + 1\<rparr>)"
| Send: "calls s = pre @ (rq, Ready conn) # post \<Longrightarrow> in_sync (ctx_crates X) conn \<Longrightarrow>
    send_raw (request_bytes (ctx_crates X) rq) conn = Some (Ok (), conn') \<Longrightarrow>
    carries (ctx_crates X) (max_buf_size conn') evs vs \<Longrightarrow> length vs = length (request_commands rq) \<Longrightarrow>
    sys_step X dec s (s\<lparr>calls := pre @ (rq, Awaiting (add_input evs conn') (Some vs)) # post\<rparr>)"
| Send_lossy: "calls s = pre @ (rq, Ready conn) # post \<Longrightarrow> in_sync (ctx_crates X) conn \<Longrightarrow>
    send_raw (request_bytes (ctx_crates X) rq) conn = Some (Ok (), conn') \<Longrightarrow>
    sys_step X dec s (s\<lparr>calls := pre @ (rq, Awaiting (add_input evs conn') None) # post, faults := faults s + 1\<rparr>)"
| Send_out_of_sync: "calls s = pre @ (rq, Ready conn) # post \<Longrightarrow> \<not> in_sync (ctx_crates X) conn \<Longrightarrow>
    send_raw (request_bytes (ctx_crates X) rq) conn = Some (Ok (), conn') \<Longrightarrow>
    sys_step X dec s (s\<lparr>calls := pre @ (rq, Awaiting (add_input evs conn') None) # post\<rparr>)"
| Send_failed: "calls s = pre @ (rq, Ready conn) # post \<Longrightarrow>
    send_raw (request_bytes (ctx_crates X) rq) conn = Some (Err e, conn') \<Longrightarrow>
    sys_step X dec s (s\<lparr>sys_pool := guard_drop now (Some (add_input evs conn')) (sys_pool s), calls := pre @ post,
      finished := (rq, None, Err (into_pyerr e)) # finished s, faults := faults s + 1\<rparr>)"
| Receive: "calls s = pre @ (rq, Awaiting conn due) # post \<Longrightarrow>
    receive X dec rq conn = Some (r, conn') \<Longrightarrow> r \<noteq> Panic \<Longrightarrow>
    sys_step X dec s (s\<lparr>sys_pool := guard_drop now (Some conn') (sys_pool s), calls := pre @ post,
      finished := (rq, due, r) # finished s\<rparr>)"
| Disturb: "idle (sys_pool s) = pre @ conn # post \<Longrightarrow>
    sys_step X dec s (s\<lparr>sys_pool := (sys_pool s)\<lparr>idle := pre @ add_input evs conn # post\<rparr>, faults := faults s + 1\<rparr>)"

definition sys_start :: "ConnectionConfig \<Rightarrow> system" where
  "sys_start config = \<lparr>sys_pool = pool_new config, calls = [], finished = [], faults = 0\<rparr>"

inductive sys_reachable :: "client_ctx \<Rightarrow> bool \<Rightarrow> ConnectionConfig \<Rightarrow> system \<Rightarrow> bool" for X dec config where
  start: "sys_reachable X dec config (sys_start config)"
| step: "sys_reachable X dec config s \<Longrightarrow> sys_step X dec s t \<Longrightarrow> sys_reachable X dec config t"

interpretation sys_runs: step_system "sys_start config" "sys_step X dec" "sys_reachable X dec config" for X dec config
  by unfold_locales (auto intro: sys_reachable.intros elim: sys_reachable.induct)

section \<open>Refinement of the pool\<close>

fun phase_conns :: "phase \<Rightarrow> RedisConnection list" where
  "phase_conns Connecting = []"
| "phase_conns (Ready conn) = [conn]"
| "phase_conns (Awaiting conn due) = [conn]"

fun is_connecting :: "phase \<Rightarrow> bool" where
  "is_connecting Connecting = True"
| "is_connecting (Ready conn) = False"
| "is_connecting (Awaiting conn due) = False"

text \<open>The pool as its users see it: who holds a connection, and how many are connecting.\<close>

definition pool_view :: "system \<Rightarrow> pool_state" where
  "pool_view s = \<lparr>the_pool = sys_pool s, held = concat (map (\<lambda>(_, ph). phase_conns ph) (calls s)),
     connecting = length (filter (\<lambda>(_, ph). is_connecting ph) (calls s))\<rparr>"

text \<open>Using a connection and dropping its guard is two steps of the pool.\<close>

lemma pool_use_drop:
  assumes "pool_reachable C config s" and "held s = pre @ conn # post"
  shows "pool_reachable C config (s\<lparr>the_pool := guard_drop now (Some conn') (the_pool s), held := pre @ post\<rparr>)"
proof -
  let ?u = "s\<lparr>held := pre @ conn' # post\<rparr>"
  have "pool_reachable C config ?u" using assms(1) pool_step.Used [OF assms(2)] by (rule pool_reachable.step)
  then show ?thesis using pool_step.Dropped [of ?u pre conn' post C now] by (auto dest: pool_reachable.step)
qed

lemma held_split:
  assumes "calls s = pre @ (rq, ph) # post" and "phase_conns ph = [conn]"
  shows "held (pool_view s) =
    concat (map (\<lambda>(_, ph). phase_conns ph) pre) @ conn # concat (map (\<lambda>(_, ph). phase_conns ph) post)"
  using assms by (simp add: pool_view_def)

lemma sending_refines:
  assumes "pool_reachable C config (pool_view s)" and "calls s = pre @ (rq, Ready conn) # post"
  shows "pool_reachable C config (pool_view (s\<lparr>calls := pre @ (rq, Awaiting conn' due) # post, faults := k\<rparr>))"
  using pool_reachable.step [OF assms(1) pool_step.Used [OF held_split [OF assms(2)], of conn C conn']] assms(2)
  by (simp add: pool_view_def)

lemma dropping_refines:
  assumes "pool_reachable C config (pool_view s)" and "calls s = pre @ (rq, ph) # post" and "phase_conns ph = [conn]"
  shows "pool_reachable C config (pool_view (s\<lparr>sys_pool := guard_drop now (Some conn') (sys_pool s), calls := pre @ post,
    finished := fin, faults := k\<rparr>))"
  using pool_use_drop [OF assms(1) held_split [OF assms(2,3)], of now conn'] assms(2,3)
  by (cases ph) (simp_all add: pool_view_def)

lemma sys_step_refines:
  assumes "sys_step X dec s t" and "pool_reachable (ctx_crates X) config (pool_view s)"
  shows "pool_reachable (ctx_crates X) config (pool_view t)"
  using assms(1)
proof cases
  case (Reuse rq now conn pool)
  then show ?thesis using pool_reachable.step [OF assms(2) pool_step.Reuse [of now "pool_view s" conn pool]]
    by (simp add: pool_view_def)
next
  case (Dial rq now pool)
  then show ?thesis using pool_reachable.step [OF assms(2) pool_step.Dial [of now "pool_view s" pool]]
    by (simp add: pool_view_def)
next
  case (Connected pre rq post d conn)
  then show ?thesis using pool_reachable.step [OF assms(2) pool_step.Connected [of "pool_view s" "ctx_crates X" d conn]]
    by (simp add: pool_view_def)
next
  case (Refused pre rq post d e)
  then show ?thesis using pool_reachable.step [OF assms(2) pool_step.Refused [of "pool_view s" "ctx_crates X" d e]]
    by (simp add: pool_view_def)
next
  case (Disturb pre conn post evs)
  then show ?thesis
    using pool_reachable.step [OF assms(2) pool_step.Disturbed [of "pool_view s" pre conn post "ctx_crates X" "add_input evs conn"]]
    by (simp add: pool_view_def)
next
  case (Send pre rq conn post conn' evs vs)
  then show ?thesis using sending_refines [OF assms(2), where k = "faults s"] by simp
next
  case (Send_out_of_sync pre rq conn post conn' evs)
  then show ?thesis using sending_refines [OF assms(2), where k = "faults s"] by simp
next
  case (Receive pre rq conn due post r conn' now)
  then show ?thesis
    using dropping_refines [OF assms(2), where k = "faults s"] by simp
qed (use sending_refines dropping_refines assms(2) in fastforce)+

lemma pool_view_start: "pool_view (sys_start config) = pool_start config"
  by (simp add: pool_view_def sys_start_def pool_start_def)

interpretation calls_on_pool: step_refinement
  "pool_start config" "pool_step (ctx_crates X)" "pool_reachable (ctx_crates X) config"
  "sys_start config" "sys_step X dec" "sys_reachable X dec config" pool_view for X dec config
  by unfold_locales (auto simp: pool_view_start intro: sys_step_refines)

section \<open>Every reply reaches its caller\<close>

definition awaits :: "crates \<Rightarrow> RedisConnection \<Rightarrow> RespValue list \<Rightarrow> bool" where
  "awaits C conn vs \<longleftrightarrow> healthy conn \<and> whole_commands C conn \<and> list_all (fusable MAX_PARSE_DEPTH) vs \<and>
     answers C (pending_input conn) vs []"

text \<open>The result of a call whose replies are \<open>vs\<close>.\<close>

fun converted :: "client_ctx \<Rightarrow> bool \<Rightarrow> request \<Rightarrow> RespValue list \<Rightarrow> pyobj py_res" where
  "converted X dec (Single args) vs = convert (ctx_python X) dec (hd vs)"
| "converted X dec (Batch cmds) vs = and_then (collect (convert (ctx_python X) dec) vs) (\<lambda>xs. Ok (PyList xs))"

fun synced :: "crates \<Rightarrow> phase \<Rightarrow> bool" where
  "synced C Connecting = True"
| "synced C (Ready conn) = in_sync C conn"
| "synced C (Awaiting conn due) = (due \<noteq> None)"

text \<open>The number of connections that are out of sync, idle ones and held ones.\<close>

definition desynced :: "crates \<Rightarrow> system \<Rightarrow> nat" where
  "desynced C s = length (filter (\<lambda>c. \<not> in_sync C c) (idle (sys_pool s))) +
     length (filter (\<lambda>(_, ph). \<not> synced C ph) (calls s))"

fun call_ok :: "crates \<Rightarrow> request \<times> phase \<Rightarrow> bool" where
  "call_ok C (rq, Awaiting conn (Some vs)) \<longleftrightarrow> awaits C conn vs \<and> length vs = length (request_commands rq)"
| "call_ok C _ \<longleftrightarrow> True"

definition result_ok :: "client_ctx \<Rightarrow> bool \<Rightarrow> nat \<Rightarrow> request \<times> RespValue list option \<times> pyobj py_res \<Rightarrow> bool" where
  "result_ok X dec k f = (case f of (rq, due, r) \<Rightarrow>
     (case due of Some vs \<Rightarrow> length vs = length (request_commands rq) \<and> r = converted X dec rq vs | None \<Rightarrow> 0 < k))"

definition sys_inv :: "client_ctx \<Rightarrow> bool \<Rightarrow> system \<Rightarrow> bool" where
  "sys_inv X dec s \<longleftrightarrow> desynced (ctx_crates X) s \<le> faults s \<and> list_all (call_ok (ctx_crates X)) (calls s) \<and>
     list_all (result_ok X dec (faults s)) (finished s)"

lemma result_ok_mono: "list_all (result_ok X dec k) fs \<Longrightarrow> k \<le> k' \<Longrightarrow> list_all (result_ok X dec k') fs"
  by (auto simp: list_all_iff result_ok_def split: option.splits)

subsection \<open>Synchrony of connections\<close>

lemma acquire_sync:
  assumes "pool_acquire now pool = Some (r, pool')"
  shows "length (filter (\<lambda>c. \<not> in_sync C c) (idle pool')) +
      (case r of Some conn \<Rightarrow> if in_sync C conn then 0 else 1 | None \<Rightarrow> 0)
    \<le> length (filter (\<lambda>c. \<not> in_sync C c) (idle pool))"
proof -
  from assms have "take_healthy_connection now (pool\<lparr>permits := permits pool - 1\<rparr>) = (r, pool')"
    by (simp add: pool_acquire_def split: if_splits)
  from take_healthy_split [OF this] show ?thesis by (auto split: option.splits)
qed

lemma drop_sync:
  "length (filter (\<lambda>c. \<not> in_sync C c) (idle (guard_drop now (Some conn) pool)))
    \<le> length (filter (\<lambda>c. \<not> in_sync C c) (idle pool)) + (if in_sync C conn then 0 else 1)"
  by (simp add: guard_drop_def return_connection_def release_permit_def)

lemma request_bytes_commands: "request_bytes C rq = concat (map (encode_command C) (request_commands rq))"
  by (cases rq) (simp_all add: encode_pipeline_concat encode_command_str_def)

lemma send_in_sync:
  assumes "send_raw (request_bytes C rq) conn = Some (Ok (), conn')" and "in_sync C conn"
  shows "in_sync C conn'" "max_buf_size conn' = max_buf_size conn"
proof -
  obtain cmds where "sent (stream conn) = concat (map (encode_command C) cmds)"
    using assms(2) by (auto simp: in_sync_def whole_commands_def)
  then have "sent (stream conn) @ request_bytes C rq = concat (map (encode_command C) (cmds @ request_commands rq))"
    by (simp add: request_bytes_commands)
  then have "whole_commands C conn'"
    using assms(1) unfolding whole_commands_def
    by (intro exI [of _ "cmds @ request_commands rq"]) (auto simp: send_raw_def split: list.splits write_event.splits)
  with assms show "in_sync C conn'" "max_buf_size conn' = max_buf_size conn"
    by (auto simp: send_raw_def in_sync_def healthy_def pending_input_def split: list.splits write_event.splits)
qed

lemma add_input_awaits:
  assumes "in_sync C conn" and "carries C (max_buf_size conn) evs vs"
  shows "awaits C (add_input evs conn) vs"
proof -
  have "buf conn = []" "concat (map event_data (inbox (stream conn))) = []"
    using assms(1) by (simp_all add: in_sync_def pending_input_def)
  then show ?thesis
    using assms by (simp add: in_sync_def carries_def awaits_def add_input_def healthy_def pending_input_def
        whole_commands_def del: concat_eq_Nil_conv)
qed

context python_env
begin

text \<open>A call that awaits its replies gets them, and leaves its connection in sync.\<close>

lemma awaits_receives:
  assumes "awaits C conn vs" and "length vs = length (request_commands rq)" and "ctx_crates X = C" and "ctx_python X = P"
  obtains conn' where "receive X dec rq conn = Some (converted X dec rq vs, conn')" "in_sync C conn'"
proof -
  have h: "healthy conn" and w: "whole_commands C conn" and a: "answers C (pending_input conn) vs []"
    and f: "list_all (fusable MAX_PARSE_DEPTH) vs" using assms(1) by (auto simp: awaits_def)
  obtain raws where raws: "frames.items (pending_input conn) raws []"
    "list_all2 (\<lambda>raw v. \<exists>n. parse C raw = Ok (v, n)) raws vs" using answers_frames [OF a] by blast
  have conv: "collect (reply_object X dec) raws = collect (convert P dec) vs"
    using replies_convert [OF raws(2) f assms(3,4)] .
  obtain conn' where r: "read_replies (read_raw_response C) (request_commands rq) [] conn = Some (Ok raws, conn')"
    "pending_input conn' = []" "healthy conn'" "same_peer conn conn'"
    using frames.read_replies_stream [OF raws(1) h, of "request_commands rq" "[]"] list_all2_lengthD [OF raws(2)] assms(2)
    by auto
  then have s: "in_sync C conn'" using w by (simp add: in_sync_def whole_commands_def same_peer_def)
  show thesis
  proof (cases rq)
    case (Batch cmds)
    with r(1) conv assms(3,4) have "receive X dec rq conn = Some (converted X dec rq vs, conn')"
      by (simp add: to_py_def py_list_def [abs_def] new_list_ok)
    with s that show ?thesis by blast
  next
    case (Single args)
    then obtain raw v where one: "raws = [raw]" "vs = [v]"
      using assms(2) raws(2) by (auto simp: length_Suc_conv list_all2_Cons2)
    moreover obtain c where "read_raw_response C conn = Some (Ok raw, c)" "c = conn'"
      using r(1) Single one(1) by (auto simp: io_bind_def io_return_def split: option.splits result.splits prod.splits)
    moreover have "reply_object X dec raw = convert P dec v"
      using raws(2) f one reply_converts [OF _ _ assms(3,4)] by auto
    ultimately have "receive X dec rq conn = Some (converted X dec rq vs, conn')"
      using Single assms(3,4) by (simp add: to_py_def)
    with s that show ?thesis by blast
  qed
qed

end

subsection \<open>The invariant\<close>

lemma sys_step_inv:
  assumes "sys_step X dec s t" and "sys_inv X dec s" and "python_env (ctx_crates X) (ctx_python X)"
  shows "sys_inv X dec t"
  using assms(1)
proof cases
  case (Reuse rq now conn pool)
  with assms(2) acquire_sync [OF Reuse(3), of "ctx_crates X"] show ?thesis
    by (auto simp: sys_inv_def desynced_def split: if_splits)
next
  case (Dial rq now pool)
  with assms(2) acquire_sync [OF Dial(3), of "ctx_crates X"] show ?thesis by (auto simp: sys_inv_def desynced_def)
next
  case (Connected pre rq post d conn)
  with assms(2) show ?thesis by (auto simp: sys_inv_def desynced_def elim!: result_ok_mono)
next
  case (Refused pre rq post d e)
  with assms(2) show ?thesis
    by (auto simp: sys_inv_def desynced_def release_permit_def result_ok_def [of _ _ _ "(rq, None, _)"] elim!: result_ok_mono)
next
  case (Send pre rq conn post conn' evs vs)
  then have "awaits (ctx_crates X) (add_input evs conn') vs" using send_in_sync add_input_awaits by metis
  with Send assms(2) show ?thesis by (auto simp: sys_inv_def desynced_def)
next
  case (Send_failed pre rq conn post e conn' now evs)
  with assms(2) drop_sync [of "ctx_crates X" now "add_input evs conn'" "sys_pool s"] show ?thesis
    by (auto simp: sys_inv_def desynced_def result_ok_def [of _ _ _ "(rq, None, _)"] elim!: result_ok_mono split: if_splits)
next
  case (Receive pre rq conn due post r conn' now)
  have "result_ok X dec (faults s) (rq, due, r) \<and> (due \<noteq> None \<longrightarrow> in_sync (ctx_crates X) conn')"
  proof (cases due)
    case None
    with Receive(2) assms(2) show ?thesis by (auto simp: result_ok_def sys_inv_def desynced_def)
  next
    case (Some vs)
    with Receive(2) assms(2) have a: "awaits (ctx_crates X) conn vs" "length vs = length (request_commands rq)"
      by (auto simp: sys_inv_def)
    from python_env.awaits_receives [OF assms(3) a, of X dec] Receive(3) Some a(2) show ?thesis
      by (auto simp: result_ok_def)
  qed
  with Receive assms(2) drop_sync [of "ctx_crates X" now conn' "sys_pool s"] show ?thesis
    by (auto simp: sys_inv_def desynced_def split: if_splits)
next
  case (Disturb pre conn post evs)
  with assms(2) show ?thesis by (auto simp: sys_inv_def desynced_def elim!: result_ok_mono split: if_splits)
qed (use assms(2) in \<open>auto simp: sys_inv_def desynced_def elim!: result_ok_mono\<close>)

lemma sys_reachable_inv:
  assumes "sys_reachable X dec config s" and "python_env (ctx_crates X) (ctx_python X)"
  shows "sys_inv X dec s"
proof (rule sys_runs.invariant [where I = "sys_inv X dec", OF _ _ assms(1)])
  show "sys_inv X dec (sys_start config)"
    by (simp add: sys_inv_def desynced_def sys_start_def pool_new_def Let_def)
qed (rule sys_step_inv [OF _ _ assms(2)])

section \<open>The sequential calls\<close>

text \<open>
  The step relation covers the code it stands for. \<open>call_alone\<close> is the common shape of
  \<open>exec_raw\<close> and \<open>Pipeline.execute\<close>; on a pooled connection, whose network script already holds
  what is going to arrive, it is a run of the system that starts and finishes that call while
  all others stand still, with every outcome of writing and reading.
\<close>

definition call_alone :: "client_ctx \<Rightarrow> bool \<Rightarrow> request \<Rightarrow> pyobj call" where
  "call_alone X dec rq pool =
     (case pool_get (ctx_crates X) (at_get (ctx_env X)) (dialing (ctx_env X)) pool of
        None \<Rightarrow> None
      | Some (Err e, pool) \<Rightarrow> Some (Err (into_pyerr e), pool)
      | Some (Panic, pool) \<Rightarrow> Some (Panic, pool)
      | Some (Ok conn, pool) \<Rightarrow>
          (case send_raw (request_bytes (ctx_crates X) rq) conn of
             None \<Rightarrow> None
           | Some (Err e, conn) \<Rightarrow> Some (Err (into_pyerr e), guard_drop (at_drop (ctx_env X)) (Some conn) pool)
           | Some (Panic, conn) \<Rightarrow> Some (Panic, guard_drop (at_drop (ctx_env X)) (Some conn) pool)
           | Some (Ok _, conn) \<Rightarrow>
               map_option (\<lambda>(r, conn). (r, guard_drop (at_drop (ctx_env X)) (Some conn) pool)) (receive X dec rq conn)))"

lemma exec_raw_alone: "exec_raw X self args pool = call_alone X (decode_responses self) (Single args) pool"
  by (simp add: exec_raw_def router_raw_def execute_raw_def with_guard_def call_alone_def io_bind_def to_py_def option.map_comp
      split: option.split result.split prod.split)

lemma pipe_execute_alone:
  "commands p \<noteq> [] \<Longrightarrow> pipe_execute X p pool =
     map_option (\<lambda>(r, pool). (r, pipe_reset p, pool)) (call_alone X (pipe_decode p) (Batch (commands p)) pool)"
  by (simp add: pipe_execute_def pipeline_raw_def with_guard_def call_alone_def io_bind_def to_py_def pipe_reset_def Let_def
      split: option.split result.split prod.split)

lemma send_raw_add_input: "send_raw data (add_input evs c) = map_option (map_prod id (add_input evs)) (send_raw data c)"
  by (simp add: send_raw_def add_input_def split: list.split write_event.split)

text \<open>Writing a request, with whatever the network delivers for it.\<close>

lemma send_step:
  assumes "calls s = (rq, Ready conn) # cs" and "send_raw (request_bytes (ctx_crates X) rq) conn = Some (Ok (), conn')"
  shows "\<exists>due k. sys_step X dec s (s\<lparr>calls := (rq, Awaiting (add_input evs conn') due) # cs, faults := k\<rparr>)"
proof (cases "in_sync (ctx_crates X) conn")
  case True
  with sys_step.Send_lossy [of s "[]" rq conn cs X conn' dec evs] assms show ?thesis by auto
next
  case False
  with sys_step.Send_out_of_sync [of s "[]" rq conn cs X conn' dec evs] assms
  have "sys_step X dec s (s\<lparr>calls := (rq, Awaiting (add_input evs conn') None) # cs, faults := faults s\<rparr>)" by simp
  then show ?thesis by blast
qed

lemma call_alone_runs:
  assumes r: "ready (ctx_env X) pool older conn" and rq: "request_commands rq \<noteq> []"
    and res: "call_alone X dec rq (pool\<lparr>idle := older @ [add_input evs conn]\<rparr>) = Some (res, pool')" "res \<noteq> Panic"
    and s: "sys_pool s = pool"
  shows "\<exists>due k. (sys_step X dec)\<^sup>*\<^sup>* s (s\<lparr>sys_pool := pool', finished := (rq, due, res) # finished s, faults := k\<rparr>)"
proof -
  let ?C = "ctx_crates X" and ?pool1 = "pool\<lparr>permits := permits pool - 1, idle := older\<rparr>" and ?drop = "at_drop (ctx_env X)"
  let ?s1 = "s\<lparr>sys_pool := ?pool1, calls := (rq, Ready conn) # calls s\<rparr>"
  have "pool_acquire (at_get (ctx_env X)) pool = Some (Some conn, ?pool1)"
    using r by (simp add: ready_def pool_acquire_def take_healthy_connection_def Let_def)
  then have s1: "sys_step X dec s ?s1" using sys_step.Reuse [OF rq, of _ s conn ?pool1] s by simp
  have "ready (ctx_env X) (pool\<lparr>idle := older @ [add_input evs conn]\<rparr>) older (add_input evs conn)"
    using r by (simp add: ready_def stale_def add_input_def)
  note got = ready_get [OF this, of ?C]
  obtain w conn1 where send: "send_raw (request_bytes ?C rq) conn = Some (w, conn1)" "w \<noteq> Panic"
    using res got by (auto simp: call_alone_def send_raw_add_input split: option.splits result.splits)
  show ?thesis
  proof (cases w)
    case (Err e)
    then have "res = Err (into_pyerr e)" "pool' = guard_drop ?drop (Some (add_input evs conn1)) ?pool1"
      using res(1) got send(1) by (simp_all add: call_alone_def send_raw_add_input)
    then have "sys_step X dec ?s1 (s\<lparr>sys_pool := pool', finished := (rq, None, res) # finished s, faults := faults s + 1\<rparr>)"
      using sys_step.Send_failed [of ?s1 "[]" rq conn "calls s" X e conn1 dec ?drop evs] send(1) Err by simp
    with s1 show ?thesis by (meson converse_rtranclp_into_rtranclp r_into_rtranclp)
  next
    case (Ok u)
    let ?c = "add_input evs conn1"
    obtain conn2 where recv: "receive X dec rq ?c = Some (res, conn2)" "pool' = guard_drop ?drop (Some conn2) ?pool1"
      using res(1) got send(1) Ok by (auto simp: call_alone_def send_raw_add_input)
    obtain due k where s2: "sys_step X dec ?s1 (?s1\<lparr>calls := (rq, Awaiting ?c due) # calls s, faults := k\<rparr>)"
      using send_step [of ?s1 rq conn "calls s" X conn1 dec evs] send(1) Ok by force
    let ?s2 = "?s1\<lparr>calls := (rq, Awaiting ?c due) # calls s, faults := k\<rparr>"
    have "sys_step X dec ?s2 (s\<lparr>sys_pool := pool', finished := (rq, due, res) # finished s, faults := k\<rparr>)"
      using sys_step.Receive [of ?s2 "[]" rq ?c due "calls s" X dec res conn2 ?drop] recv res(2) by (cases s) simp
    with s1 s2 show ?thesis by (meson converse_rtranclp_into_rtranclp r_into_rtranclp)
  qed (use send in simp)
qed

section \<open>Properties\<close>

text \<open>A call that has sent \<open>PING\<close> on a new connection, for the witnesses.\<close>

definition new_conn :: RedisConnection where
  "new_conn = set_read_timeout 30000 (sample_conn [])"

definition pinged_conn :: RedisConnection where
  "pinged_conn = new_conn\<lparr>stream := (stream new_conn)\<lparr>clock := 1, writes := [WriteOk 2],
     sent := encode_command_str (documented_crates (\<lambda>_. True)) [''PING'']\<rparr>, last_used := 1\<rparr>"

definition ready_system :: system where
  "ready_system = \<lparr>sys_pool = (pool_new default_config)\<lparr>permits := 7\<rparr>, calls = [(Single [''PING''], Ready new_conn)],
     finished = [], faults = 0\<rparr>"

definition pinged_system :: system where
  "pinged_system = ready_system\<lparr>calls := [(Single [''PING''],
     Awaiting (add_input (one_event (''+PONG'' @ crlf)) pinged_conn) (Some [SimpleString ''PONG'']))]\<rparr>"

text \<open>The same call when the reply comes after the timeout.\<close>

definition late_system :: system where
  "late_system = ready_system\<lparr>calls := [(Single [''PING''],
     Awaiting (add_input (ReadEvent 30001 65536 TimedOut # one_event (''+PONG'' @ crlf)) pinged_conn) None)], faults := 1\<rparr>"

lemma new_conn_sync: "in_sync C new_conn"
  by (simp add: in_sync_def healthy_def pending_input_def new_conn_def set_read_timeout_def sample_conn_def
      whole_commands_def exI [of _ "[]"])

lemma ready_reachable: "sys_reachable sample_ctx True default_config ready_system"
proof -
  let ?pool = "(pool_new default_config)\<lparr>permits := 7\<rparr>" and ?C = "documented_crates (\<lambda>_. True)"
  let ?s1 = "\<lparr>sys_pool = ?pool, calls = [(Single [''PING''], Connecting)], finished = [], faults = 0\<rparr> :: system"
  have "pool_acquire 0 (pool_new default_config) = Some (None, ?pool)"
    by (simp add: pool_acquire_def take_healthy_connection_def pool_new_def default_config_def Let_def)
  then have s1: "sys_step sample_ctx True (sys_start default_config) ?s1"
    using sys_step.Dial [of "Single [''PING'']" 0 "sys_start default_config" ?pool sample_ctx True] by (simp add: sys_start_def)
  have "create_connection ?C (Dialed (stream (sample_conn []))) default_config = Some (Ok new_conn)"
    by (simp add: create_connection_def connect_timeout_with_max_buf_def connect_with_max_buf_def primary_addr_def
        default_port_text default_config_def init_def select_db_def io_bind_def io_return_def set_read_timeout_def new_conn_def
        sample_conn_def DEFAULT_MAX_BUF_SIZE_def Let_def)
  then have "sys_step sample_ctx True ?s1 ready_system"
    using sys_step.Connected [of ?s1 "[]" "Single [''PING'']" "[]" sample_ctx "Dialed (stream (sample_conn []))" new_conn True]
      new_conn_sync by (simp add: pool_new_def Let_def ready_system_def)
  with s1 show ?thesis by (meson sys_reachable.intros)
qed

lemma ping_sent:
  "send_raw (request_bytes (documented_crates (\<lambda>_. True)) (Single [''PING''])) new_conn = Some (Ok (), pinged_conn)"
  by (simp add: send_raw_def pinged_conn_def new_conn_def set_read_timeout_def sample_conn_def)

lemma pinged_reachable: "sys_reachable sample_ctx True default_config pinged_system"
proof -
  let ?C = "documented_crates (\<lambda>_. True)"
  have "answers ?C (''+PONG'' @ crlf) [SimpleString ''PONG''] []" by code_simp
  then have "carries ?C (max_buf_size pinged_conn) (one_event (''+PONG'' @ crlf)) [SimpleString ''PONG'']"
    by (simp add: carries_def one_event_def delivers_def event_data_def pinged_conn_def new_conn_def
        set_read_timeout_def sample_conn_def DEFAULT_MAX_BUF_SIZE_def)
  then have "sys_step sample_ctx True ready_system pinged_system"
    using sys_step.Send [of ready_system "[]" "Single [''PING'']" new_conn "[]" sample_ctx pinged_conn
        "one_event (''+PONG'' @ crlf)" "[SimpleString ''PONG'']" True] new_conn_sync ping_sent
    by (simp add: pinged_system_def ready_system_def)
  with ready_reachable show ?thesis by (rule sys_reachable.step)
qed

lemma late_reachable: "sys_reachable sample_ctx True default_config late_system"
proof -
  have "sys_step sample_ctx True ready_system late_system"
    using sys_step.Send_lossy [of ready_system "[]" "Single [''PING'']" new_conn "[]" sample_ctx pinged_conn True
        "ReadEvent 30001 65536 TimedOut # one_event (''+PONG'' @ crlf)"] new_conn_sync ping_sent
    by (simp add: late_system_def ready_system_def)
  with ready_reachable show ?thesis by (rule sys_reachable.step)
qed

text \<open>
  C3: under any interleaving of commands and pipelines, any way the network splits the replies,
  and any faults on other connections: a call whose connection was in sync and whose replies
  the network carried has returned exactly the conversion of these replies, one per command,
  and if it still waits it will. Only a call that a fault has hit or that got a connection
  out of sync is without this guarantee, and without faults there is none.
\<close>

theorem concurrent_calls_get_own_replies:
  assumes "python_env (ctx_crates X) (ctx_python X)" and "sys_reachable X dec config s"
  shows "(\<forall>(rq, due, r) \<in> set (finished s). case due of
        Some vs \<Rightarrow> length vs = length (request_commands rq) \<and> r = converted X dec rq vs | None \<Rightarrow> 0 < faults s) \<and>
    (\<forall>rq conn due. (rq, Awaiting conn due) \<in> set (calls s) \<longrightarrow> (case due of
        Some vs \<Rightarrow> \<exists>conn'. receive X dec rq conn = Some (converted X dec rq vs, conn') \<and> in_sync (ctx_crates X) conn'
      | None \<Rightarrow> 0 < faults s))"
proof -
  have inv: "sys_inv X dec s" using sys_reachable_inv [OF assms(2,1)] .
  have "case due of
        Some vs \<Rightarrow> \<exists>conn'. receive X dec rq conn = Some (converted X dec rq vs, conn') \<and> in_sync (ctx_crates X) conn'
      | None \<Rightarrow> 0 < faults s" if "(rq, Awaiting conn due) \<in> set (calls s)" for rq conn due
  proof (cases due)
    case None
    with that have "(rq, Awaiting conn due) \<in> set (filter (\<lambda>(_, ph). \<not> synced (ctx_crates X) ph) (calls s))" by simp
    from length_pos_if_in_set [OF this] have "0 < desynced (ctx_crates X) s" by (simp add: desynced_def)
    with inv None show ?thesis by (simp add: sys_inv_def)
  next
    case (Some vs)
    with inv that have "awaits (ctx_crates X) conn vs" "length vs = length (request_commands rq)"
      by (auto simp: sys_inv_def list_all_iff)
    with Some show ?thesis by (auto elim: python_env.awaits_receives [OF assms(1)])
  qed
  with inv show ?thesis by (auto simp: sys_inv_def list_all_iff result_ok_def)
qed

theorem concurrent_calls_get_own_replies_witness:
  "\<exists>conn'. receive sample_ctx True (Single [''PING'']) (add_input (one_event (''+PONG'' @ crlf)) pinged_conn) =
      Some (Ok (PyStr ''PONG''), conn')"
  using concurrent_calls_get_own_replies [OF sample_ctx_env pinged_reachable]
  by (auto simp: pinged_system_def convert_simps)

text \<open>
  C16: faults stay isolated: a fault puts at most one connection out of sync, so at any time at
  most as many of the idle and busy connections are out of sync as there have been faults.
\<close>

theorem faults_stay_isolated:
  assumes "python_env (ctx_crates X) (ctx_python X)" and "sys_reachable X dec config s"
  shows "desynced (ctx_crates X) s \<le> faults s"
  using sys_reachable_inv [OF assms(2,1)] by (simp add: sys_inv_def)

theorem faults_stay_isolated_witness:
  "desynced (documented_crates (\<lambda>_. True)) late_system \<le> 1 \<and> calls late_system \<noteq> []"
  using faults_stay_isolated [OF sample_ctx_env late_reachable] by (simp add: late_system_def)

text \<open>
  C10: the interleaved calls refine the pool: the view of a reachable system is a reachable
  state of the pool. In particular the calls that hold or open a connection never outnumber
  the configured size.
\<close>

theorem concurrent_calls_refine_pool:
  assumes "sys_reachable X dec config s"
  shows "pool_reachable (ctx_crates X) config (pool_view s) \<and> length (calls s) \<le> cfg_pool_size config"
proof -
  have "length (concat (map (\<lambda>(_, ph). phase_conns ph) cs)) + length (filter (\<lambda>(_, ph). is_connecting ph) cs) = length cs"
    for cs :: "(request \<times> phase) list"
  proof (induction cs)
    case (Cons c cs)
    obtain rq ph where "c = (rq, ph)" by (cases c)
    with Cons show ?case by (cases ph) auto
  qed simp
  then have "length (held (pool_view s)) + connecting (pool_view s) = length (calls s)" by (simp add: pool_view_def)
  moreover have "pool_inv config (pool_view s)"
    by (rule calls_on_pool.inherits [where I = "pool_inv config", OF pool_reachable_inv assms])
  ultimately show ?thesis using calls_on_pool.refines [OF assms] by (simp add: pool_inv_def)
qed

theorem concurrent_calls_refine_pool_witness:
  "pool_reachable (documented_crates (\<lambda>_. True)) default_config (pool_view pinged_system)"
  using concurrent_calls_refine_pool [OF pinged_reachable] by simp

end
