(* ===== verification/Graph.thy ===== *)
theory Graph
  imports Response
begin

text \<open>
  \<open>src/src/graph.rs\<close>: the parser of FalkorDB's compact query results. The recursive
  functions of the source stay mutually recursive; their loops are the functionals of the
  first section. \<open>Vec::with_capacity\<close> always asks for the length of a vector that already
  exists, so it is taken to succeed.

  The lemmas show that the parser reads every value back from its compact encoding, that it
  never fails below the top level, and what it makes of the scalar types of RESP3.
\<close>

section \<open>Types\<close>

datatype ColumnType = ColUnknown | ColScalar | ColNode | ColRelation

definition column_from_int :: "int \<Rightarrow> ColumnType" where
  "column_from_int i = (if i = 1 then ColScalar else if i = 2 then ColNode else if i = 3 then ColRelation else ColUnknown)"

datatype ScalarType =
  ScNull | ScString | ScInteger | ScBoolean | ScDouble | ScArray | ScEdge | ScNode | ScPath | ScMap | ScPoint

definition scalar_from_int :: "int \<Rightarrow> ScalarType option" where
  "scalar_from_int i =
     (if i = 1 then Some ScNull else if i = 2 then Some ScString else if i = 3 then Some ScInteger
      else if i = 4 then Some ScBoolean else if i = 5 then Some ScDouble else if i = 6 then Some ScArray
      else if i = 7 then Some ScEdge else if i = 8 then Some ScNode else if i = 9 then Some ScPath
      else if i = 10 then Some ScMap else if i = 11 then Some ScPoint else None)"

datatype GraphValue =
    GNull
  | GString string
  | GInteger int
  | GBoolean bool
  | GDouble f64
  | GArray "GraphValue list"
  | GNode GraphNode
  | GEdge GraphEdge
  | GPath "GraphNode list" "GraphEdge list"
  | GMap "(string \<times> GraphValue) list"
  | GPoint f64 f64
and GraphNode = GraphNode int "int list" "(int \<times> GraphValue) list"
and GraphEdge = GraphEdge int int int int "(int \<times> GraphValue) list"

record GraphColumn =
  column_type :: ColumnType
  column_name :: string

record GraphStats =
  stats_raw :: "string list"
  stats_values :: "string \<Rightarrow> string option"

record GraphResult =
  graph_columns :: "GraphColumn list"
  graph_rows :: "GraphValue list list"
  graph_stats :: GraphStats

section \<open>Loops\<close>

lemma size_member: "x \<in> set xs \<Longrightarrow> size x < size_list size xs"
  by (induction xs) auto

lemma size_inner: "Array ys \<in> set xs \<Longrightarrow> x \<in> set ys \<Longrightarrow> size x < size_list size xs"
  using size_member [of x ys] size_member [of "Array ys" xs] by simp

lemma size_nth_double: "i < length xs \<Longrightarrow> 2 * size (xs ! i) < Suc (2 * size_list size xs)"
  using size_member [OF nth_mem, of i xs] by simp

text \<open>The loops of a path keep the cells that are nodes, respectively edges.\<close>

fun collect_nodes :: "(RespValue \<Rightarrow> GraphValue res) \<Rightarrow> RespValue list \<Rightarrow> GraphNode list res" where
  "collect_nodes p [] = Ok []"
| "collect_nodes p (cell # cells) =
     and_then (p cell) (\<lambda>v. and_then (collect_nodes p cells) (\<lambda>ns.
     Ok (case v of GNode n \<Rightarrow> n # ns | _ \<Rightarrow> ns)))"

fun collect_edges :: "(RespValue \<Rightarrow> GraphValue res) \<Rightarrow> RespValue list \<Rightarrow> GraphEdge list res" where
  "collect_edges p [] = Ok []"
| "collect_edges p (cell # cells) =
     and_then (p cell) (\<lambda>v. and_then (collect_edges p cells) (\<lambda>es.
     Ok (case v of GEdge e \<Rightarrow> e # es | _ \<Rightarrow> es)))"

text \<open>The loop over alternating keys and cells; an odd last key is dropped.\<close>

fun map_entries :: "(RespValue \<Rightarrow> GraphValue res) \<Rightarrow> RespValue list \<Rightarrow> (string \<times> GraphValue) list res" where
  "map_entries p (k # v # rest) =
     and_then (p v) (\<lambda>value. and_then (map_entries p rest) (\<lambda>pairs.
     Ok ((unwrap_or [] (as_str k), value) # pairs)))"
| "map_entries p _ = Ok []"

text \<open>The loop over \<open>[prop_id, type_id, value]\<close> triples; anything else is skipped.\<close>

fun collect_props :: "(ScalarType \<Rightarrow> RespValue \<Rightarrow> GraphValue res) \<Rightarrow> RespValue list \<Rightarrow> (int \<times> GraphValue) list res" where
  "collect_props p [] = Ok []"
| "collect_props p (item # items) =
     (case item of
        Array triple \<Rightarrow>
          if 3 \<le> length triple then
            and_then (p (unwrap_or ScNull (scalar_from_int (unwrap_or 1 (as_int (triple ! 1))))) (triple ! 2)) (\<lambda>value.
            and_then (collect_props p items) (\<lambda>props. Ok ((unwrap_or 0 (as_int (triple ! 0)), value) # props)))
          else collect_props p items
      | _ \<Rightarrow> collect_props p items)"

lemma collect_nodes_cong [fundef_cong]:
  "xs = ys \<Longrightarrow> (\<And>x. x \<in> set ys \<Longrightarrow> f x = g x) \<Longrightarrow> collect_nodes f xs = collect_nodes g ys"
  by (induction ys arbitrary: xs) auto

lemma collect_edges_cong [fundef_cong]:
  "xs = ys \<Longrightarrow> (\<And>x. x \<in> set ys \<Longrightarrow> f x = g x) \<Longrightarrow> collect_edges f xs = collect_edges g ys"
  by (induction ys arbitrary: xs) auto

lemma map_entries_cong [fundef_cong]:
  assumes "xs = ys" and "\<And>x. x \<in> set ys \<Longrightarrow> f x = g x"
  shows "map_entries f xs = map_entries g ys"
  unfolding assms(1) using assms(2)
  by (induction g ys rule: map_entries.induct) (auto intro!: and_then_cong)

lemma collect_props_cong [fundef_cong]:
  assumes "xs = ys" and "\<And>t triple. Array triple \<in> set ys \<Longrightarrow> 3 \<le> length triple \<Longrightarrow> f t (triple ! 2) = g t (triple ! 2)"
  shows "collect_props f xs = collect_props g ys"
  unfolding assms(1) using assms(2) by (induction ys) (auto split: RespValue.split)

text \<open>The two parts of a path.\<close>

definition path_value :: "(RespValue \<Rightarrow> GraphValue res) \<Rightarrow> RespValue list \<Rightarrow> GraphValue res" where
  "path_value p arr =
     (if 2 \<le> length arr then
        and_then (case arr ! 0 of Array cells \<Rightarrow> collect_nodes p cells | _ \<Rightarrow> Ok []) (\<lambda>nodes.
        and_then (case arr ! 1 of Array cells \<Rightarrow> collect_edges p cells | _ \<Rightarrow> Ok []) (\<lambda>edges.
        Ok (GPath nodes edges)))
      else Ok (GPath [] []))"

lemma path_value_cong [fundef_cong]:
  assumes "xs = ys" and "\<And>x cells. Array cells \<in> set ys \<Longrightarrow> x \<in> set cells \<Longrightarrow> f x = g x"
  shows "path_value f xs = path_value g ys"
proof (cases "2 \<le> length ys")
  case True
  then have "ys ! 0 \<in> set ys" "ys ! 1 \<in> set ys" by (auto intro!: nth_mem)
  then have "(case ys ! 0 of Array cells \<Rightarrow> collect_nodes f cells | _ \<Rightarrow> Ok []) =
      (case ys ! 0 of Array cells \<Rightarrow> collect_nodes g cells | _ \<Rightarrow> Ok [])"
    "(case ys ! 1 of Array cells \<Rightarrow> collect_edges f cells | _ \<Rightarrow> Ok []) =
      (case ys ! 1 of Array cells \<Rightarrow> collect_edges g cells | _ \<Rightarrow> Ok [])"
    using assms(2) by (auto split: RespValue.split intro!: collect_nodes_cong collect_edges_cong)
  then show ?thesis unfolding path_value_def assms(1) by simp
qed (simp add: path_value_def assms(1))

section \<open>Cells\<close>

text \<open>One coordinate of a point: text, or an integer, or zero.\<close>

definition coordinate :: "RespValue \<Rightarrow> f64" where
  "coordinate v =
     unwrap_or F64_ZERO
       (case Option.bind (as_str v) (\<lambda>s. case parse_f64 s of Ok f \<Rightarrow> Some f | _ \<Rightarrow> None) of
          Some f \<Rightarrow> Some f
        | None \<Rightarrow> map_option f64_of_i64 (as_int v))"

function (sequential) parse_cell :: "RespValue \<Rightarrow> GraphValue res"
  and parse_scalar :: "ScalarType \<Rightarrow> RespValue \<Rightarrow> GraphValue res"
  and parse_node :: "RespValue \<Rightarrow> GraphNode res"
  and parse_edge :: "RespValue \<Rightarrow> GraphEdge res"
  and parse_properties :: "RespValue \<Rightarrow> (int \<times> GraphValue) list res" where
  "parse_cell (Array pair) =
     (if 2 \<le> length pair then
        let type_id = unwrap_or 1 (as_int (pair ! 0));
            scalar_type = unwrap_or ScNull (scalar_from_int type_id)
        in parse_scalar scalar_type (pair ! 1)
      else Ok GNull)"
| "parse_cell (Integer i) = Ok (GInteger i)"
| "parse_cell _ = Ok GNull"

| "parse_scalar ScNull val = Ok GNull"
| "parse_scalar ScString val = Ok (GString (unwrap_or [] (as_str val)))"
| "parse_scalar ScInteger val = Ok (GInteger (unwrap_or 0 (as_int val)))"
| "parse_scalar ScBoolean val = Ok (GBoolean (unwrap_or ''false'' (as_str val) = ''true''))"
| "parse_scalar ScDouble val =
     Ok (GDouble (case parse_f64 (unwrap_or ''0'' (as_str val)) of Ok f \<Rightarrow> f | _ \<Rightarrow> F64_ZERO))"
| "parse_scalar ScArray (Array items) = and_then (collect parse_cell items) (\<lambda>vs. Ok (GArray vs))"
| "parse_scalar ScArray _ = Ok (GArray [])"
| "parse_scalar ScNode val = and_then (parse_node val) (\<lambda>n. Ok (GNode n))"
| "parse_scalar ScEdge val = and_then (parse_edge val) (\<lambda>e. Ok (GEdge e))"
| "parse_scalar ScPath (Array arr) = path_value parse_cell arr"
| "parse_scalar ScPath _ = Ok (GPath [] [])"
| "parse_scalar ScMap (Array items) = and_then (map_entries parse_cell items) (\<lambda>pairs. Ok (GMap pairs))"
| "parse_scalar ScMap _ = Ok (GMap [])"
| "parse_scalar ScPoint (Array arr) =
     (if 2 \<le> length arr then Ok (GPoint (coordinate (arr ! 0)) (coordinate (arr ! 1)))
      else Ok (GPoint F64_ZERO F64_ZERO))"
| "parse_scalar ScPoint _ = Ok (GPoint F64_ZERO F64_ZERO)"

| "parse_node (Array arr) =
     (if 3 \<le> length arr then
        let id = unwrap_or 0 (as_int (arr ! 0));
            labels = (case arr ! 1 of Array ids \<Rightarrow> map (\<lambda>v. unwrap_or 0 (as_int v)) ids | _ \<Rightarrow> [])
        in and_then (parse_properties (arr ! 2)) (\<lambda>properties. Ok (GraphNode id labels properties))
      else Ok (GraphNode 0 [] []))"
| "parse_node _ = Ok (GraphNode 0 [] [])"

| "parse_edge (Array arr) =
     (if 5 \<le> length arr then
        let id = unwrap_or 0 (as_int (arr ! 0));
            relation_type = unwrap_or 0 (as_int (arr ! 1));
            src_node = unwrap_or 0 (as_int (arr ! 2));
            dst_node = unwrap_or 0 (as_int (arr ! 3))
        in and_then (parse_properties (arr ! 4)) (\<lambda>properties. Ok (GraphEdge id relation_type src_node dst_node properties))
      else Ok (GraphEdge 0 0 0 0 []))"
| "parse_edge _ = Ok (GraphEdge 0 0 0 0 [])"

| "parse_properties (Array arr) = collect_props parse_scalar arr"
| "parse_properties _ = Ok []"
  by pat_completeness auto
termination
proof (relation "measure (case_sum (case_sum (\<lambda>v. 2 * size v) (\<lambda>(t, v). 2 * size v + 1))
        (case_sum (\<lambda>v. 2 * size v) (case_sum (\<lambda>v. 2 * size v) (\<lambda>v. 2 * size v))))", goal_cases)
qed (auto dest: size_member size_inner size_inner [OF _ nth_mem, of _ _ 2] simp: size_nth_double less_SucI)

section \<open>The result\<close>

text \<open>The loop body of \<open>parse_header\<close>.\<close>

definition header_column :: "RespValue \<Rightarrow> GraphColumn" where
  "header_column item =
     (case item of
        Array pair \<Rightarrow>
          if 2 \<le> length pair then
            \<lparr>column_type = column_from_int (unwrap_or 0 (as_int (pair ! 0))), column_name = unwrap_or [] (as_str (pair ! 1))\<rparr>
          else \<lparr>column_type = ColUnknown, column_name = []\<rparr>
      | _ \<Rightarrow> \<lparr>column_type = ColUnknown, column_name = []\<rparr>)"

fun parse_header :: "RespValue \<Rightarrow> GraphColumn list res" where
  "parse_header (Array items) = Ok (map header_column items)"
| "parse_header _ = Ok []"

text \<open>The loop over the rows; what is not an array is skipped.\<close>

fun collect_rows :: "RespValue list \<Rightarrow> GraphValue list list res" where
  "collect_rows [] = Ok []"
| "collect_rows (Array cells # rows) =
     and_then (collect parse_cell cells) (\<lambda>row. and_then (collect_rows rows) (\<lambda>rest. Ok (row # rest)))"
| "collect_rows (_ # rows) = collect_rows rows"

fun parse_result_set :: "RespValue \<Rightarrow> GraphValue list list res" where
  "parse_result_set (Array rows) = collect_rows rows"
| "parse_result_set _ = Ok []"

text \<open>One step of the loop of \<open>parse_stats\<close>.\<close>

definition add_stat :: "RespValue \<Rightarrow> GraphStats \<Rightarrow> GraphStats" where
  "add_stat item st =
     (case as_str item of
        None \<Rightarrow> st
      | Some s \<Rightarrow>
          \<lparr>stats_raw = stats_raw st @ [s],
           stats_values =
             (case position CHR '':'' s of
                Some idx \<Rightarrow> (stats_values st)(trim (take idx s) \<mapsto> trim (drop (idx + 1) s))
              | None \<Rightarrow> stats_values st)\<rparr>)"

definition default_stats :: GraphStats where
  "default_stats = \<lparr>stats_raw = [], stats_values = (\<lambda>k. None)\<rparr>"

fun parse_stats :: "RespValue \<Rightarrow> GraphStats res" where
  "parse_stats (Array items) = Ok (fold add_stat items default_stats)"
| "parse_stats _ = Ok default_stats"

definition parse_graph_result :: "RespValue \<Rightarrow> GraphResult res" where
  "parse_graph_result resp =
     (case resp of
        Array elems \<Rightarrow>
          if length elems = 1 then
            and_then (parse_stats (elems ! 0)) (\<lambda>stats. Ok \<lparr>graph_columns = [], graph_rows = [], graph_stats = stats\<rparr>)
          else if length elems < 3 then
            Err (Graph (''expected 3-element array, got '' @ decimal (length elems) @ '' elements''))
          else
            and_then (parse_header (elems ! 0)) (\<lambda>columns.
            and_then (parse_result_set (elems ! 1)) (\<lambda>rows.
            and_then (parse_stats (elems ! 2)) (\<lambda>stats.
            Ok \<lparr>graph_columns = columns, graph_rows = rows, graph_stats = stats\<rparr>)))
      | _ \<Rightarrow> Err (Graph (''expected Array, got '' @ quoted (type_name resp))))"

section \<open>The compact encoding\<close>

text \<open>
  What a server sends for a value, with \<open>dtxt\<close> the text it writes for a double: the type
  number and the payload. It serves as the reference the parser is compared with.
\<close>

definition enc_pair :: "int \<times> RespValue \<Rightarrow> RespValue" where
  "enc_pair c = Array [Integer (fst c), snd c]"

definition enc_triple :: "int \<Rightarrow> int \<times> RespValue \<Rightarrow> RespValue" where
  "enc_triple p c = Array [Integer p, Integer (fst c), snd c]"

lemma size_snd: "(k, v) \<in> set kvs \<Longrightarrow> size v < size_list (size_prod f size) kvs"
  by (induction kvs) auto

function enc_value :: "(f64 \<Rightarrow> string) \<Rightarrow> GraphValue \<Rightarrow> int \<times> RespValue"
  and enc_node :: "(f64 \<Rightarrow> string) \<Rightarrow> GraphNode \<Rightarrow> RespValue"
  and enc_edge :: "(f64 \<Rightarrow> string) \<Rightarrow> GraphEdge \<Rightarrow> RespValue" where
  "enc_value dtxt GNull = (1, Null)"
| "enc_value dtxt (GString s) = (2, BulkString s)"
| "enc_value dtxt (GInteger i) = (3, Integer i)"
| "enc_value dtxt (GBoolean b) = (4, BulkString (if b then ''true'' else ''false''))"
| "enc_value dtxt (GDouble d) = (5, BulkString (dtxt d))"
| "enc_value dtxt (GArray vs) = (6, Array (map (\<lambda>v. enc_pair (enc_value dtxt v)) vs))"
| "enc_value dtxt (GEdge e) = (7, enc_edge dtxt e)"
| "enc_value dtxt (GNode n) = (8, enc_node dtxt n)"
| "enc_value dtxt (GPath ns es) =
     (9, Array [Array (map (\<lambda>n. enc_pair (8, enc_node dtxt n)) ns), Array (map (\<lambda>e. enc_pair (7, enc_edge dtxt e)) es)])"
| "enc_value dtxt (GMap kvs) = (10, Array (concat (map (\<lambda>(k, v). [BulkString k, enc_pair (enc_value dtxt v)]) kvs)))"
| "enc_value dtxt (GPoint a b) = (11, Array [BulkString (dtxt a), BulkString (dtxt b)])"
| "enc_node dtxt (GraphNode i ls ps) =
     Array [Integer i, Array (map Integer ls), Array (map (\<lambda>(p, v). enc_triple p (enc_value dtxt v)) ps)]"
| "enc_edge dtxt (GraphEdge i r s d ps) =
     Array [Integer i, Integer r, Integer s, Integer d, Array (map (\<lambda>(p, v). enc_triple p (enc_value dtxt v)) ps)]"
  by pat_completeness auto
termination
  by (relation "measure (case_sum (\<lambda>(t, v). size v) (case_sum (\<lambda>(t, n). size n) (\<lambda>(t, e). size e)))")
     (auto intro!: less_SucI intro: size_snd size_member trans_less_add1 trans_less_add2)

text \<open>The values that have an encoding: the strings are UTF-8 and every double reads back from its text.\<close>

definition double_ok :: "(f64 \<Rightarrow> string) \<Rightarrow> f64 \<Rightarrow> bool" where
  "double_ok dtxt d \<longleftrightarrow> utf8_valid (dtxt d) \<and> parse_f64 (dtxt d) = Ok d"

function value_ok :: "(f64 \<Rightarrow> string) \<Rightarrow> GraphValue \<Rightarrow> bool"
  and node_ok :: "(f64 \<Rightarrow> string) \<Rightarrow> GraphNode \<Rightarrow> bool"
  and edge_ok :: "(f64 \<Rightarrow> string) \<Rightarrow> GraphEdge \<Rightarrow> bool" where
  "value_ok dtxt GNull = True"
| "value_ok dtxt (GString s) = utf8_valid s"
| "value_ok dtxt (GInteger i) = True"
| "value_ok dtxt (GBoolean b) = True"
| "value_ok dtxt (GDouble d) = double_ok dtxt d"
| "value_ok dtxt (GArray vs) = list_all (\<lambda>v. value_ok dtxt v) vs"
| "value_ok dtxt (GEdge e) = edge_ok dtxt e"
| "value_ok dtxt (GNode n) = node_ok dtxt n"
| "value_ok dtxt (GPath ns es) = (list_all (\<lambda>n. node_ok dtxt n) ns \<and> list_all (\<lambda>e. edge_ok dtxt e) es)"
| "value_ok dtxt (GMap kvs) = list_all (\<lambda>(k, v). utf8_valid k \<and> value_ok dtxt v) kvs"
| "value_ok dtxt (GPoint a b) = (double_ok dtxt a \<and> double_ok dtxt b)"
| "node_ok dtxt (GraphNode i ls ps) = list_all (\<lambda>(p, v). value_ok dtxt v) ps"
| "edge_ok dtxt (GraphEdge i r s d ps) = list_all (\<lambda>(p, v). value_ok dtxt v) ps"
  by pat_completeness auto
termination
  by (relation "measure (case_sum (\<lambda>(t, v). size v) (case_sum (\<lambda>(t, n). size n) (\<lambda>(t, e). size e)))")
     (auto intro!: less_SucI intro: size_snd size_member trans_less_add1 trans_less_add2)

section \<open>Nothing fails below the top level\<close>

lemma is_ok_and_then: "is_ok m \<Longrightarrow> (\<And>x. m = Ok x \<Longrightarrow> is_ok (f x)) \<Longrightarrow> is_ok (and_then m f)"
  by (cases m) auto

lemma collect_total: "(\<And>x. x \<in> set xs \<Longrightarrow> is_ok (f x)) \<Longrightarrow> is_ok (collect f xs)"
  by (induction xs) (auto intro!: is_ok_and_then)

lemma collect_nodes_total: "(\<And>x. x \<in> set xs \<Longrightarrow> is_ok (f x)) \<Longrightarrow> is_ok (collect_nodes f xs)"
  by (induction xs) (auto intro!: is_ok_and_then)

lemma collect_edges_total: "(\<And>x. x \<in> set xs \<Longrightarrow> is_ok (f x)) \<Longrightarrow> is_ok (collect_edges f xs)"
  by (induction xs) (auto intro!: is_ok_and_then)

lemma map_entries_total: "(\<And>x. x \<in> set xs \<Longrightarrow> is_ok (f x)) \<Longrightarrow> is_ok (map_entries f xs)"
  by (induction f xs rule: map_entries.induct) (auto intro!: is_ok_and_then)

lemma collect_props_total:
  "(\<And>t triple. Array triple \<in> set xs \<Longrightarrow> 3 \<le> length triple \<Longrightarrow> is_ok (f t (triple ! 2))) \<Longrightarrow>
    is_ok (collect_props f xs)"
  by (induction xs) (auto split: RespValue.split intro!: is_ok_and_then)

lemma path_value_total:
  assumes "\<And>x cells. Array cells \<in> set arr \<Longrightarrow> x \<in> set cells \<Longrightarrow> is_ok (f x)"
  shows "is_ok (path_value f arr)"
proof (cases "2 \<le> length arr")
  case True
  then have "arr ! 0 \<in> set arr" "arr ! 1 \<in> set arr" by (auto intro!: nth_mem)
  then show ?thesis
    using assms
    by (auto simp: path_value_def split: RespValue.split
        intro!: is_ok_and_then collect_nodes_total collect_edges_total)
qed (simp add: path_value_def)

lemma parse_cell_total:
  "is_ok (parse_cell c)" "is_ok (parse_scalar t v)" "is_ok (parse_node v)" "is_ok (parse_edge v)"
  "is_ok (parse_properties v)"
  by (induction c and t v and v and v and v rule: parse_cell_parse_scalar_parse_node_parse_edge_parse_properties.induct)
     (auto simp: Let_def intro!: is_ok_and_then collect_total map_entries_total collect_props_total path_value_total)

lemma parse_result_set_total: "is_ok (parse_result_set v)"
proof -
  have "is_ok (collect_rows rows)" for rows
    by (induction rows rule: collect_rows.induct)
       (auto intro!: is_ok_and_then collect_total parse_cell_total)
  then show ?thesis by (cases v) auto
qed

lemma parse_header_total: "is_ok (parse_header v)" and parse_stats_total: "is_ok (parse_stats v)"
  by (cases v; simp)+

text \<open>
  The only errors of \<open>parse_graph_result\<close> are about the top level: a reply that is not an
  array, or an array of no or two elements. Everything below is parsed, whatever its shape.
\<close>
lemma graph_result_fails_iff:
  "(parse_graph_result resp = Err e \<longleftrightarrow>
      (case resp of
         Array elems \<Rightarrow> length elems \<in> {0, 2} \<and>
           e = Graph (''expected 3-element array, got '' @ decimal (length elems) @ '' elements'')
       | _ \<Rightarrow> e = Graph (''expected Array, got '' @ quoted (type_name resp))))
   \<and> parse_graph_result resp \<noteq> Panic"
proof (cases "\<exists>elems. resp = Array elems")
  case True
  then obtain elems where [simp]: "resp = Array elems" by blast
  consider "length elems = 1" | "length elems = 0" | "length elems = 2" | "3 \<le> length elems" by linarith
  then show ?thesis
  proof cases
    case 4
    then show ?thesis
      using parse_header_total [of "elems ! 0"] parse_result_set_total [of "elems ! 1"] parse_stats_total [of "elems ! 2"]
      by (auto simp: parse_graph_result_def elim!: is_ok.elims)
  qed (use parse_stats_total [of "elems ! 0"] in \<open>auto simp: parse_graph_result_def elim!: is_ok.elims\<close>)
qed (auto simp: parse_graph_result_def split: RespValue.split)

section \<open>Round trip\<close>

lemma scalar_from_int_codes [simp]:
  "scalar_from_int 1 = Some ScNull" "scalar_from_int 2 = Some ScString" "scalar_from_int 3 = Some ScInteger"
  "scalar_from_int 4 = Some ScBoolean" "scalar_from_int 5 = Some ScDouble" "scalar_from_int 6 = Some ScArray"
  "scalar_from_int 7 = Some ScEdge" "scalar_from_int 8 = Some ScNode" "scalar_from_int 9 = Some ScPath"
  "scalar_from_int 10 = Some ScMap" "scalar_from_int 11 = Some ScPoint"
  by (simp_all add: scalar_from_int_def)

text \<open>Parsing the type number and the payload of a value, as a cell or a property does.\<close>

definition parse_coded :: "int \<times> RespValue \<Rightarrow> GraphValue res" where
  "parse_coded c = parse_scalar (unwrap_or ScNull (scalar_from_int (fst c))) (snd c)"

lemma parse_cell_enc_pair [simp]: "parse_cell (enc_pair c) = parse_coded c"
  by (simp add: enc_pair_def parse_coded_def Let_def)

lemma collect_map: "(\<And>x. x \<in> set xs \<Longrightarrow> f (g x) = Ok x) \<Longrightarrow> collect f (map g xs) = Ok xs"
  by (induction xs) auto

lemma collect_nodes_map: "(\<And>x. x \<in> set xs \<Longrightarrow> f (g x) = Ok (GNode x)) \<Longrightarrow> collect_nodes f (map g xs) = Ok xs"
  by (induction xs) auto

lemma collect_edges_map: "(\<And>x. x \<in> set xs \<Longrightarrow> f (g x) = Ok (GEdge x)) \<Longrightarrow> collect_edges f (map g xs) = Ok xs"
  by (induction xs) auto

lemma map_entries_map:
  "\<forall>x \<in> set kvs. utf8_valid (fst x) \<and> f (g (snd x)) = Ok (snd x) \<Longrightarrow>
    map_entries f (concat (map (\<lambda>(k, v). [BulkString k, g v]) kvs)) = Ok kvs"
  by (induction kvs) auto

lemma collect_props_map:
  "\<forall>x \<in> set ps. parse_coded (g (snd x)) = Ok (snd x) \<Longrightarrow>
    collect_props parse_scalar (map (\<lambda>(p, v). enc_triple p (g v)) ps) = Ok ps"
  by (induction ps) (auto simp: enc_triple_def parse_coded_def)

lemma double_ok_shortest: "f64_abs d \<le> F64_INFINITY \<Longrightarrow> double_ok f64_to_string d"
  by (simp add: double_ok_def f64_to_string_line f64_to_string_exact)

lemma coordinate_text [simp]: "double_ok dtxt d \<Longrightarrow> coordinate (BulkString (dtxt d)) = d"
  by (simp add: coordinate_def double_ok_def)

lemma enc_value_parses:
  "value_ok dtxt v \<Longrightarrow> parse_coded (enc_value dtxt v) = Ok v"
  "node_ok dtxt n \<Longrightarrow> parse_node (enc_node dtxt n) = Ok n"
  "edge_ok dtxt e \<Longrightarrow> parse_edge (enc_edge dtxt e) = Ok e"
proof (induction dtxt v and dtxt n and dtxt e rule: enc_value_enc_node_enc_edge.induct)
  case (9 dtxt ns es)
  then have "collect_nodes parse_cell (map (\<lambda>n. enc_pair (8, enc_node dtxt n)) ns) = Ok ns"
    "collect_edges parse_cell (map (\<lambda>e. enc_pair (7, enc_edge dtxt e)) es) = Ok es"
    by (auto simp: list_all_iff parse_coded_def intro!: collect_nodes_map collect_edges_map)
  then show ?case by (simp add: parse_coded_def path_value_def)
next
  case (10 dtxt kvs)
  then have "map_entries parse_cell (concat (map (\<lambda>(k, v). [BulkString k, enc_pair (enc_value dtxt v)]) kvs)) = Ok kvs"
    by (intro map_entries_map) (auto simp: list_all_iff)
  then show ?case by (simp add: parse_coded_def)
next
  case (12 dtxt i ls ps)
  then have "collect_props parse_scalar (map (\<lambda>(p, v). enc_triple p (enc_value dtxt v)) ps) = Ok ps"
    by (intro collect_props_map) (auto simp: list_all_iff)
  then show ?case by (simp add: o_def)
next
  case (13 dtxt i r s d ps)
  then have "collect_props parse_scalar (map (\<lambda>(p, v). enc_triple p (enc_value dtxt v)) ps) = Ok ps"
    by (intro collect_props_map) (auto simp: list_all_iff)
  then show ?case by simp
qed (auto simp: parse_coded_def [of "(_, _)"] double_ok_def list_all_iff o_def
    collect_map utf8_valid_ascii byte_in_def)

text \<open>A whole reply: the columns, the rows and the lines of the statistics.\<close>

fun column_code :: "ColumnType \<Rightarrow> int" where
  "column_code ColUnknown = 0"
| "column_code ColScalar = 1"
| "column_code ColNode = 2"
| "column_code ColRelation = 3"

definition enc_result :: "(f64 \<Rightarrow> string) \<Rightarrow> GraphColumn list \<Rightarrow> GraphValue list list \<Rightarrow> string list \<Rightarrow> RespValue" where
  "enc_result dtxt columns rows lines =
     Array [Array (map (\<lambda>c. Array [Integer (column_code (column_type c)), BulkString (column_name c)]) columns),
            Array (map (\<lambda>row. Array (map (\<lambda>v. enc_pair (enc_value dtxt v)) row)) rows),
            Array (map BulkString lines)]"

definition stat_line :: "string \<times> string \<Rightarrow> string" where
  "stat_line kv = fst kv @ '': '' @ snd kv"

lemma column_from_code [simp]: "column_from_int (column_code c) = c"
  by (cases c) (simp_all add: column_from_int_def)

lemma header_column_enc:
  "utf8_valid (column_name c) \<Longrightarrow>
    header_column (Array [Integer (column_code (column_type c)), BulkString (column_name c)]) = c"
  by (simp add: header_column_def)

lemma collect_rows_enc:
  "list_all (list_all (value_ok dtxt)) rows \<Longrightarrow>
    collect_rows (map (\<lambda>row. Array (map (\<lambda>v. enc_pair (enc_value dtxt v)) row)) rows) = Ok rows"
  by (induction rows) (simp_all add: collect_map enc_value_parses list_all_iff)

lemma trim_space: "trim (CHR '' '' # s) = trim s"
proof -
  have "ws_width (CHR '' '' # s) = 1" by (simp add: ws_width_def whitespace_chars_def starts_with_def)
  then show ?thesis by (simp add: trim_def trim_start.simps [of "CHR '' '' # s"])
qed

definition stat_ok :: "string \<times> string \<Rightarrow> bool" where
  "stat_ok kv \<longleftrightarrow> utf8_valid (stat_line kv) \<and> CHR '':'' \<notin> set (fst kv) \<and> trim (fst kv) = fst kv \<and> trim (snd kv) = snd kv"

lemma add_stat_line:
  assumes "stat_ok (k, v)"
  shows "add_stat (BulkString (stat_line (k, v))) st =
    \<lparr>stats_raw = stats_raw st @ [stat_line (k, v)], stats_values = (stats_values st)(k \<mapsto> v)\<rparr>"
proof -
  have "position CHR '':'' (k @ CHR '':'' # '' '' @ v) = Some (length k)"
    using assms by (intro position_append_left) (simp add: stat_ok_def)
  then show ?thesis using assms by (simp add: add_stat_def stat_ok_def stat_line_def trim_space)
qed

lemma fold_add_stat:
  "list_all stat_ok kvs \<Longrightarrow>
    fold add_stat (map BulkString (map stat_line kvs)) st =
      \<lparr>stats_raw = stats_raw st @ map stat_line kvs, stats_values = stats_values st ++ map_of (rev kvs)\<rparr>"
proof (induction kvs arbitrary: st)
  case (Cons kv kvs)
  obtain k v where "kv = (k, v)" by (cases kv)
  with Cons show ?case by (simp add: add_stat_line map_add_def fun_eq_iff split: option.split)
qed simp

text \<open>
  C23: a query result written in the compact encoding is read back exactly: the columns with
  their types and names, every cell of every row (nested arrays, maps, nodes, edges, paths and
  points included), the statistics verbatim, and for each statistic name the value of its last
  line.
\<close>
theorem graph_result_round_trip:
  assumes "list_all (\<lambda>c. utf8_valid (column_name c)) columns"
    and "list_all (list_all (value_ok dtxt)) rows"
    and "list_all stat_ok kvs"
  shows "parse_graph_result (enc_result dtxt columns rows (map stat_line kvs)) =
    Ok \<lparr>graph_columns = columns, graph_rows = rows,
        graph_stats = \<lparr>stats_raw = map stat_line kvs, stats_values = map_of (rev kvs)\<rparr>\<rparr>"
proof -
  have "map header_column (map (\<lambda>c. Array [Integer (column_code (column_type c)), BulkString (column_name c)]) columns) = columns"
    using assms(1) by (induction columns) (simp_all add: header_column_enc)
  moreover have "fold add_stat (map BulkString (map stat_line kvs)) default_stats =
      \<lparr>stats_raw = map stat_line kvs, stats_values = map_of (rev kvs)\<rparr>"
    by (simp add: default_stats_def fold_add_stat [OF assms(3)] del: map_map)
  ultimately show ?thesis
    using collect_rows_enc [OF assms(2)] by (simp add: parse_graph_result_def enc_result_def o_def del: map_map)
qed

theorem graph_result_round_trip_witness:
  "parse_graph_result
     (enc_result f64_to_string [\<lparr>column_type = ColNode, column_name = ''n''\<rparr>]
        [[GNode (GraphNode 7 [1] [(0, GPoint 0x4049CCCCCCCCCCCD 0xC02E000000000000), (2, GMap [(''k'', GArray [GNull, GBoolean True])])])]]
        (map stat_line [(''Nodes created'', ''1'')])) =
     Ok \<lparr>graph_columns = [\<lparr>column_type = ColNode, column_name = ''n''\<rparr>],
         graph_rows =
           [[GNode (GraphNode 7 [1] [(0, GPoint 0x4049CCCCCCCCCCCD 0xC02E000000000000), (2, GMap [(''k'', GArray [GNull, GBoolean True])])])]],
         graph_stats = \<lparr>stats_raw = map stat_line [(''Nodes created'', ''1'')],
                        stats_values = map_of (rev [(''Nodes created'', ''1'')])\<rparr>\<rparr>"
proof (rule graph_result_round_trip)
  show "list_all (\<lambda>c. utf8_valid (column_name c)) [\<lparr>column_type = ColNode, column_name = ''n''\<rparr>]" by code_simp
  show "list_all (list_all (value_ok f64_to_string))
     [[GNode (GraphNode 7 [1] [(0, GPoint 0x4049CCCCCCCCCCCD 0xC02E000000000000), (2, GMap [(''k'', GArray [GNull, GBoolean True])])])]]"
    by (simp add: double_ok_shortest f64_abs_def f64_neg_def F64_INFINITY_def utf8_valid_ascii byte_in_def)
  show "list_all stat_ok [(''Nodes created'', ''1'')]" by code_simp
qed

text \<open>
  A boolean or a double sent with its RESP3 type, instead of as text, is lost: whatever the
  payload, the cell is \<open>false\<close>, respectively \<open>0.0\<close>.
\<close>
lemma graph_resp3_scalars_lost:
  "parse_cell (Array [Integer 4, Boolean b]) = Ok (GBoolean False) \<and>
   parse_cell (Array [Integer 5, Double d]) = Ok (GDouble F64_ZERO)"
proof -
  have "parse_f64 ''0'' = Ok F64_ZERO" by code_simp
  then show ?thesis by simp
qed

end
