(* ===== verification/Depth.thy ===== *)
theory Depth
  imports Fused
begin

text \<open>
  The nesting limit of the Python parser and the stack of the frame scanner.

  \<open>MAX_PARSE_DEPTH\<close> (\<open>src/src/response.rs\<close>) bounds the recursion of \<open>parse_inner\<close>, against replies
  nested so deeply that the stack overflows. A reply only reaches \<open>parse_inner\<close> after
  \<open>resp_frame_len\<close> (\<open>src/src/resp/parser.rs\<close>) has found its end, and that function calls itself
  once per level with no limit. \<open>frame_len_in\<close> is \<open>resp_frame_len\<close> with a stack of a given number
  of activations; a call that needs one more aborts the process, written \<open>Panic\<close>. With enough
  stack it is \<open>resp_frame_len\<close>, and nested arrays show that no fixed stack is enough.
\<close>

section \<open>The scanner on a bounded stack\<close>

fun frame_len_in :: "crates \<Rightarrow> nat \<Rightarrow> bytes \<Rightarrow> nat res" where
  "frame_len_in C 0 buf = Panic"
| "frame_len_in C (Suc k) buf =
     (if buf = [] then Err Incomplete
      else if buf ! 0 \<in> {CHR ''+'', CHR ''-'', CHR '':'', CHR '','', CHR ''(''} then frame_line C buf
      else if buf ! 0 = CHR ''_'' then (if length buf < 3 then Err Incomplete else Ok 3)
      else if buf ! 0 = CHR ''#'' then (if length buf < 4 then Err Incomplete else Ok 4)
      else if buf ! 0 \<in> {CHR ''$'', CHR ''!'', CHR ''=''} then frame_bulk C buf
      else if buf ! 0 \<in> {CHR ''*'', CHR ''~'', CHR ''>''} then frame_array C (frame_len_in C k) buf
      else if buf ! 0 = CHR ''%'' then frame_map C (frame_len_in C k) buf
      else if buf ! 0 = CHR ''|'' then frame_attribute C (frame_len_in C k) buf
      else Err (Protocol (''unknown RESP type byte: '' @ hex_byte (buf ! 0))))"

declare frame_len_in.simps(2) [simp del]

text \<open>Every level takes at least one byte, so a stack as deep as the buffer is long is enough.\<close>

lemma frame_len_in_enough: "length buf < k \<Longrightarrow> frame_len_in C k buf = resp_frame_len C buf"
proof (induction k arbitrary: buf)
  case (Suc k)
  then have IH: "\<And>b. length b < length buf \<Longrightarrow> frame_len_in C k b = resp_frame_len C b" by simp
  note congs = frame_array_cong [OF refl refl IH] frame_map_cong [OF refl refl IH] frame_attribute_cong [OF refl refl IH]
  show ?case
    by (subst resp_frame_len.simps) (simp only: frame_len_in.simps(2) congs)
qed simp

section \<open>Nested arrays\<close>

primrec nest :: "nat \<Rightarrow> RespValue" where
  "nest 0 = Integer 1"
| "nest (Suc k) = Array [nest k]"

lemma decimal_one [simp]: "decimal (Suc 0) = ''1''" "decimal_int 1 = ''1''"
  by code_simp+

lemma fits_one: "fits (Suc 0)"
  by (simp add: fits_def i64_max_def)

lemma length_wire_one: "length (wire_count t (Suc 0)) = 4"
  by (simp add: wire_count_def)

lemma length_encode_nest: "length (resp_encode (nest k)) = 4 * k + 4"
  by (induction k) (simp_all add: length_wire_one wire_line_def)

lemma decimal_limit: "decimal MAX_PARSE_DEPTH = ''512''"
  unfolding MAX_PARSE_DEPTH_def by code_simp

context crate_env
begin

lemma frame_len_in_nested:
  "frame_len_in C (Suc s) (resp_encode (nest (Suc k))) =
   and_then (frame_len_in C s (resp_encode (nest k))) (\<lambda>n. Ok (4 + n))"
  using fits_one
  by (simp add: frame_len_in.simps(2) frame_array_def counted_wire length_wire_one)

lemma frame_len_in_nest:
  "frame_len_in C s (resp_encode (nest k)) = (if k < s then Ok (4 * k + 4) else Panic)"
proof (induction k arbitrary: s)
  case 0
  show ?case
    using read_line_encoded [of "''1''" "CHR '':''" "[]"]
    by (cases s) (simp_all add: frame_len_in.simps(2) frame_line_def wire_line_def)
next
  case (Suc k)
  show ?case
    by (cases s) (simp_all only: frame_len_in_nested Suc.IH, simp_all)
qed

end

context python_env
begin

lemma inner_array_one:
  assumes "parse_inner C P (pre @ wire_count CHR ''*'' (Suc 0) @ body) (length pre + 4) (Suc depth) dec = Err e"
    and "depth \<le> MAX_PARSE_DEPTH"
  shows "parse_inner C P (pre @ wire_count CHR ''*'' (Suc 0) @ body) (length pre) depth dec = Err e"
proof -
  let ?buf = "pre @ wire_count CHR ''*'' (Suc 0) @ body"
  have "?buf ! length pre = CHR ''*''" by (simp add: nth_append wire_count_def)
  then have array: "parse_inner C P ?buf (length pre) depth dec =
      inner_array C P (\<lambda>pos. parse_inner C P ?buf pos (depth + 1) dec) ?buf (length pre)"
    using assms(2) by (subst parse_inner.simps) (simp add: Let_def del: append_assoc)
  have line: "read_line C (drop (length pre) ?buf) 1 = Ok (''1'', 4)"
    using read_line_encoded [of "''1''" "CHR ''*''" body] by (simp add: wire_count_def)
  have one: "parse_int_from_bytes ''1'' = Ok 1" by code_simp
  have pos: "length pre < length ?buf" by (simp add: wire_count_def)
  show ?thesis
    using assms(1) unfolding array inner_array_def
    by (simp only: py_counted_eq [OF pos line one])
       (simp add: validated_count_def MAX_RESP_ELEMENTS_def build_pylist_seq new_list_ok)
qed

lemma parse_inner_nest:
  "MAX_PARSE_DEPTH < depth + k \<Longrightarrow>
     parse_inner C P (pre @ resp_encode (nest k)) (length pre) depth dec =
       py_raise (Protocol (''RESP nesting depth exceeds maximum of '' @ decimal MAX_PARSE_DEPTH))"
proof (induction k arbitrary: pre depth)
  case 0
  then show ?case by (simp add: parse_inner.simps)
next
  case (Suc k)
  show ?case
  proof (cases "MAX_PARSE_DEPTH < depth")
    case False
    with Suc.IH [of "Suc depth" "pre @ wire_count CHR ''*'' (Suc 0)"] Suc.prems show ?thesis
      by (simp add: inner_array_one length_wire_one py_raise_def)
  qed (simp add: parse_inner.simps)
qed

end

section \<open>Properties\<close>

text \<open>
  C40: The nesting limit of the Python parser comes too late to protect the stack. Scanning a reply
  of \<open>k\<close> nested arrays takes \<open>k + 1\<close> activations of \<open>resp_frame_len\<close>, for every \<open>k\<close>: with a smaller
  stack the process dies, with a larger one the reply of \<open>4 k + 4\<close> bytes is a complete frame, and
  only then does \<open>parse_to_python\<close> refuse every such reply beyond the limit.
\<close>

theorem depth_limit_comes_too_late:
  assumes "python_env C P"
  shows "frame_len_in C stack (resp_encode (nest k)) = (if k < stack then Ok (4 * k + 4) else Panic) \<and>
    resp_frame_len C (resp_encode (nest k)) = Ok (4 * k + 4) \<and>
    length (resp_encode (nest k)) = 4 * k + 4 \<and>
    (MAX_PARSE_DEPTH < k \<longrightarrow> parse_to_python C P (resp_encode (nest k)) decode =
      py_raise (Protocol ''RESP nesting depth exceeds maximum of 512''))"
proof -
  have C: "crate_env C" using assms by (rule python_env.axioms)
  note scan = crate_env.frame_len_in_nest [OF C]
  have "resp_frame_len C (resp_encode (nest k)) = Ok (4 * k + 4)"
    using frame_len_in_enough [of _ "4 * k + 5" C] scan [of "4 * k + 5" k] by (simp add: length_encode_nest)
  moreover have "resp_encode (nest k) \<noteq> []" using length_encode_nest [of k] by auto
  ultimately show ?thesis
    using python_env.parse_inner_nest [OF assms, of 0 k "[]" decode] scan
    by (simp add: length_encode_nest parse_to_python_def decimal_limit)
qed

theorem depth_limit_comes_too_late_witness:
  "frame_len_in (documented_crates (\<lambda>_. True)) 1000 (resp_encode (nest 1000)) = Panic \<and>
   parse_to_python (documented_crates (\<lambda>_. True)) (documented_python sample_int) (resp_encode (nest 1000)) True =
     py_raise (Protocol ''RESP nesting depth exceeds maximum of 512'')"
  using depth_limit_comes_too_late [OF sample_py.python_env_axioms, of "\<lambda>_. True" 1000 1000 True]
  by (simp add: MAX_PARSE_DEPTH_def)

end
