(* ===== verification/Extension.thy ===== *)
theory Extension
  imports Client
begin

text \<open>
  The shell of the extension module: what \<open>import pyrsedis\<close> finds (\<open>src/src/lib.rs\<close> and
  \<open>register_exceptions\<close> of \<open>src/src/error.rs\<close>) and the global runtime (\<open>src/src/runtime.rs\<close>). Tokio is
  a parameter: a function that builds a runtime from a configured builder, or fails.
\<close>

section \<open>The Python module\<close>

datatype module_item = ItemText string | ItemClass string | ItemException exc_class

text \<open>The exceptions under the names they are registered with.\<close>

definition register_exceptions :: "(string \<times> module_item) list" where
  "register_exceptions =
     [(''PyrsedisError'', ItemException ExcPyrsedisError),
      (''RedisConnectionError'', ItemException ExcRedisConnectionError),
      (''RedisTimeoutError'', ItemException ExcRedisTimeoutError),
      (''ProtocolError'', ItemException ExcProtocolError),
      (''RedisError'', ItemException ExcRedisError),
      (''GraphError'', ItemException ExcGraphError),
      (''ClusterError'', ItemException ExcClusterError),
      (''SentinelError'', ItemException ExcSentinelError),
      (''ResponseError'', ItemException ExcResponseError),
      (''WrongTypeError'', ItemException ExcWrongTypeError),
      (''ReadOnlyError'', ItemException ExcReadOnlyError),
      (''NoScriptError'', ItemException ExcNoScriptError),
      (''BusyError'', ItemException ExcBusyError),
      (''ClusterDownError'', ItemException ExcClusterDownError)]"

definition pyrsedis_module :: "string \<Rightarrow> (string \<times> module_item) list" where
  "pyrsedis_module version =
     [(''__version__'', ItemText version), (''Redis'', ItemClass ''Redis''), (''Pipeline'', ItemClass ''Pipeline'')] @
     register_exceptions"

lemma module_names_distinct: "distinct (map fst (pyrsedis_module version))"
  by (simp add: pyrsedis_module_def register_exceptions_def)

text \<open>The module exports exactly the classes of the crate, each together with its base class.\<close>

lemma registered_iff:
  "(\<exists>name. (name, ItemException c) \<in> set (pyrsedis_module version)) \<longleftrightarrow> c = ExcPyrsedisError \<or> exc_base c \<noteq> None"
  by (cases c) (simp_all add: pyrsedis_module_def register_exceptions_def)

section \<open>The runtime\<close>

record runtime_builder =
  io_and_time :: bool
  worker_threads :: "nat option"
  threads_named :: "string option"

text \<open>The builder as \<open>get_runtime\<close> configures it; \<open>var\<close> is the value of \<open>PYRSEDIS_RUNTIME_THREADS\<close>, if set and Unicode.\<close>

definition configured :: "string option \<Rightarrow> runtime_builder" where
  "configured var =
     (let builder = \<lparr>io_and_time = True, worker_threads = None, threads_named = None\<rparr>;
          builder = (case var of
             Some threads \<Rightarrow>
               (case parse_usize threads of
                  Some n \<Rightarrow> if 0 < n then builder\<lparr>worker_threads := Some n\<rparr> else builder
                | None \<Rightarrow> builder)
           | None \<Rightarrow> builder)
      in builder\<lparr>threads_named := Some ''pyrsedis-rt''\<rparr>)"

text \<open>\<open>RUNTIME.get_or_init\<close>: the static cell is state; a failed build panics and leaves it empty.\<close>

definition get_runtime :: "(runtime_builder \<Rightarrow> (io_error, 'rt) result) \<Rightarrow> string option \<Rightarrow> 'rt option
    \<Rightarrow> (PyrsedisError, 'rt) result \<times> 'rt option" where
  "get_runtime build var cell =
     (case cell of
        Some rt \<Rightarrow> (Ok rt, Some rt)
      | None \<Rightarrow> (case build (configured var) of Ok rt \<Rightarrow> (Ok rt, Some rt) | _ \<Rightarrow> (Panic, None)))"

text \<open>\<open>block_on\<close> and \<open>spawn\<close> hand a future to the runtime; \<open>drive\<close> is what tokio does with it.\<close>

definition block_on :: "(runtime_builder \<Rightarrow> (io_error, 'rt) result) \<Rightarrow> string option \<Rightarrow> ('rt \<Rightarrow> 'f \<Rightarrow> 'a) \<Rightarrow> 'f \<Rightarrow> 'rt option
    \<Rightarrow> (PyrsedisError, 'a) result \<times> 'rt option" where
  "block_on build var drive future cell =
     (case get_runtime build var cell of (r, cell) \<Rightarrow> (and_then r (\<lambda>rt. Ok (drive rt future)), cell))"

definition spawn :: "(runtime_builder \<Rightarrow> (io_error, 'rt) result) \<Rightarrow> string option \<Rightarrow> ('rt \<Rightarrow> 'f \<Rightarrow> 'h) \<Rightarrow> 'f \<Rightarrow> 'rt option
    \<Rightarrow> (PyrsedisError, 'h) result \<times> 'rt option" where
  "spawn build var start future cell =
     (case get_runtime build var cell of (r, cell) \<Rightarrow> (and_then r (\<lambda>rt. Ok (start rt future)), cell))"

text \<open>Tokio panics on zero worker threads; the variable cannot cause that, nor can a text that is no number.\<close>

lemma configured_threads:
  "worker_threads (configured var) =
     (case var of None \<Rightarrow> None | Some t \<Rightarrow> (case parse_usize t of Some n \<Rightarrow> if 0 < n then Some n else None | None \<Rightarrow> None))"
  by (simp add: configured_def Let_def split: option.split)

lemma configured_positive: "worker_threads (configured var) \<noteq> Some 0"
  by (simp add: configured_threads split: option.split)

text \<open>The runtime is built at most once: later calls get the same one, whatever the variable says by then.\<close>

lemma runtime_built_once:
  assumes "get_runtime build var cell = (Ok rt, cell')"
  shows "get_runtime build' var' cell' = (Ok rt, cell')"
  using assms by (auto simp: get_runtime_def split: option.splits result.splits)

section \<open>Properties\<close>

text \<open>
  C37: Every failure can be caught. Whatever error an operation of the crate ends with, the
  exception Python sees is either a class the module exports, derived from \<open>PyrsedisError\<close>, or,
  for a type error and only then, the builtin \<open>TypeError\<close>; an error reply of the server is
  always a \<open>RedisError\<close>.
\<close>

theorem errors_catchable:
  "(case into_pyerr err of PyErr c msg \<Rightarrow>
      if \<exists>m. err = TypeErr m then c = ExcTypeError
      else (\<exists>name. (name, ItemException c) \<in> set (pyrsedis_module version)) \<and> subclass_of c ExcPyrsedisError) \<and>
   (case into_pyerr (redis_error reply) of PyErr c msg \<Rightarrow>
      subclass_of c ExcRedisError \<and> msg = ''redis error: '' @ reply)"
proof -
  have base: "exc_base (py_class e) \<noteq> None" if "\<nexists>m. e = TypeErr m" for e
    using that by (cases e) (auto simp: py_class_def split: RedisErrorKind.split)
  have "subclass_of (py_class (Redis k m)) ExcRedisError" for k m
    by (cases k) (auto simp: py_class_def intro: sub_base)
  moreover have "py_class (TypeErr m) = ExcTypeError" for m by (simp add: py_class_def)
  ultimately show ?thesis
    using base [of err] subclass_PyrsedisError by (auto simp: into_pyerr_def registered_iff redis_error_eq)
qed

end
