(* ===== verification/Spec2Isabelle.thy ===== *)
theory Spec2Isabelle
  imports Sentinel_Tasks Cluster_Alone Concurrent Graph Depth Extension
begin

text \<open>
  Verification library of pyrsedis, a Redis client for Python whose core is written in Rust.
  This theory only collects the others; every property stands in the theory of its component.

  \<^bold>\<open>The program.\<close> A Python call of a method of \<open>Redis\<close> or \<open>Pipeline\<close> (\<open>src/src/client.rs\<close>) builds a
  command as a list of strings and hands it to a router. The standalone router
  (\<open>router/standalone.rs\<close>) takes a connection from the pool (\<open>connection/pool.rs\<close>), serializes
  the command (\<open>resp/writer.rs\<close>), writes it (\<open>connection/tcp.rs\<close>) and reads bytes until
  \<open>resp_frame_len\<close> (\<open>resp/parser.rs\<close>) finds a whole frame; \<open>parse_to_python\<close> (\<open>response.rs\<close>)
  turns the frame into Python objects in one pass. The cluster and sentinel routers
  (\<open>router/cluster.rs\<close>, \<open>router/sentinel.rs\<close>) use the same connections and the parser that
  builds a \<open>RespValue\<close>; the cluster router picks a node by the hash slot of the key
  (\<open>crc16.rs\<close>). Configurations come from URLs (\<open>config.rs\<close>), errors become Python exceptions
  (\<open>error.rs\<close>), and \<open>graph.rs\<close> parses the compact results of FalkorDB.

  \<^bold>\<open>Theories.\<close>
  \<^item> \<open>Prelude\<close>, \<open>Rust_Std\<close>, \<open>F64\<close>: outcomes (value, error or abort), slices, and the parts of the
    Rust standard library the crate calls, all executable: 64-bit integers with wrap-around,
    decimal text, UTF-8 validation, string methods, and \<open>f64\<close> with parsing and printing.
    \<open>F64_Digits\<close> shows that the rounding is right and every number reads back from its text.
  \<^item> \<open>Crates\<close>: the third-party functions (memchr, itoa, the allocator) as a record, with their
    documented behaviour as the locale \<open>crate_env\<close> and an interpretation that satisfies it.
  \<^item> \<open>Errors\<close>, \<open>Resp_Types\<close>: \<open>error.rs\<close> and \<open>resp/types.rs\<close>.
  \<^item> \<open>Resp_Parser\<close>: the parser and the frame scanner of \<open>resp/parser.rs\<close>, function by function.
    \<open>Resp_Stream\<close> shows that both are stream parsers (the locale \<open>stream_parser\<close>): an answer
    does not change when more bytes arrive, a proper prefix of a frame is incomplete, and the
    scanner agrees with the parser. \<open>Resp_Values\<close> holds the round trip with the wire format,
    the types of parsed values, totality, and the integer reader.
  \<^item> \<open>Resp_Writer\<close>: \<open>resp/writer.rs\<close>; commands parse back, pipelines are unambiguous.
  \<^item> \<open>Crc16\<close>: \<open>crc16.rs\<close>; the table equals the bit-serial register, hash tags, bounds.
  \<^item> \<open>Tcp\<close>: \<open>connection/tcp.rs\<close> over a scripted stream: the events of the network are data of the
    state, so every split of the bytes is covered. A read refines the first item of the
    stream; handshake.
  \<^item> \<open>Config\<close>: \<open>config.rs\<close>; every accepted URL gives a valid configuration, round trip.
  \<^item> \<open>Steps\<close>: operations that keep an invariant (\<open>keeps\<close>, with the rule collection
    \<open>keeps_rules\<close>), reachable states (\<open>step_system\<close>) and refinement (\<open>step_refinement\<close>).
  \<^item> \<open>Pool\<close>: \<open>connection/pool.rs\<close>; tasks interleave as a step relation whose reachable states
    keep the pool size.
  \<^item> \<open>Standalone\<close>, \<open>Cluster\<close>, \<open>Sentinel\<close>: the routers. Replies in order, slot lookup, pipelines over
    several nodes, bounded redirects and retries, failover, and what a timeout, a dead
    connection or a silent peer does.
  \<^item> \<open>Cluster_Pools\<close>: the cluster router over its whole life: commands, pipelines and refreshes in
    any order leave every pool balanced and filed under its own address, redirects are
    followed and keep the shape of the slot map (locales \<open>slot_invariant\<close>, \<open>topology_invariant\<close>).
  \<^item> \<open>Router\<close>: the trait of \<open>router/mod.rs\<close> as the locale \<open>router\<close> with the laws its users rely on,
    interpreted on all three routers.
  \<^item> \<open>Tasks\<close>: calls as tasks that interleave on shared pools; the locale \<open>pool_users\<close> says what a step may
    do to a pool and derives that no interleaving loses a permit. \<open>Sentinel_Tasks\<close> (many calls on
    one sentinel router, with failovers that replace the pool under them: no deadlock, and a race
    of two failovers) and \<open>Cluster_Tasks\<close> (commands, pipelines and refreshes on one cluster router:
    commands never deadlock, redirected pipelines can) interpret it. \<open>Cluster_Alone\<close>, and a property of
    \<open>Sentinel_Tasks\<close>, show that the sequential models are these machines with a single task.
  \<^item> \<open>Response\<close>: \<open>response.rs\<close> with CPython as the record \<open>python\<close>. \<open>Fused\<close> (locale \<open>python_env\<close>)
    shows that the single pass equals parsing and converting, and that it never runs past or
    short of a frame.
  \<^item> \<open>Depth\<close>: the scanner on a stack of \<open>n\<close> activations; a nested reply exhausts it before the
    depth limit of the single pass is looked at.
  \<^item> \<open>Client\<close>: \<open>client.rs\<close>, all methods of both classes. End-to-end theorems from the call to
    the converted reply; pipelines mirror single commands.
  \<^item> \<open>Concurrent\<close>: commands and pipelines of many threads on one client, interleaved at the await
    points, over a network that may fail. Calls get the replies to their own commands, a
    fault spoils at most one connection, and the system refines \<open>Pool\<close>.
  \<^item> \<open>Graph\<close>: \<open>graph.rs\<close>; round trip with the compact encoding, the only errors.
  \<^item> \<open>Extension\<close>: \<open>lib.rs\<close> and \<open>runtime.rs\<close>; what the module exports, every error can be caught,
    the runtime is built once.

  \<^bold>\<open>Conventions.\<close> A structure is a record, an enumeration a datatype, a \<open>Result\<close> the type
  \<open>result\<close> whose third constructor \<open>Panic\<close> is the abort of the process (the release profile
  aborts on panics and leaves overflow checks off). Bytes are \<^typ>\<open>char\<close>, \<open>usize\<close> is \<^typ>\<open>nat\<close>,
  \<open>i64\<close> is \<^typ>\<open>int\<close> with explicit wrap-around. Code that waits returns an option, where \<open>None\<close> is a
  wait that never ends. The locales state what one layer relies on: \<open>crate_env\<close>,
  \<open>stream_parser\<close>, \<open>reply_reader\<close>, \<open>python_env\<close>, \<open>step_system\<close>, \<open>slot_invariant\<close>, \<open>pool_users\<close>, \<open>router\<close>;
  each is interpreted on the model.

  \<^bold>\<open>Bounds.\<close> No definition uses fuel (the stack of \<open>Depth\<close> is a resource of the program): the recursions end because the bytes, the network script,
  the nesting depth (512 in the fused parser), the redirect budget or the retry budget
  shrink. The search for the digits of an \<open>f64\<close> tries up to 17 of them, which is enough
  (\<open>shortest_decimal_found\<close>).

  \<^bold>\<open>Not modelled.\<close> What tokio does with a future (a parameter of \<open>Extension\<close>), TLS (the code
  refuses it), reference counts of Python objects, the conversion of call arguments by PyO3
  (a parameter where a method calls it itself), memory exhaustion outside
  \<open>Vec::with_capacity\<close> of a count read from the network, stack exhaustion outside \<open>Depth\<close>, fairness of
  the scheduler, and calls that are cancelled half-way. A lock is held between two points of the
  code without an await, so a lock is not a state of its own: what it protects is one step, in
  \<open>Pool\<close>, \<open>Concurrent\<close>, \<open>Sentinel_Tasks\<close> and \<open>Cluster_Tasks\<close>.
\<close>

end
